(* ===== verification/Prelude.thy ===== *)
theory Prelude
  imports Main
begin

text \<open>
  What every component of the development shares: the outcome of a C operation (a value, or a
  fault where C leaves the behaviour undefined), C strings held in fixed-size buffers, the small
  part of the C library the sources call (\<open>isdigit\<close>, \<open>atoi\<close>, \<open>strstr\<close>, the decimal
  conversion of \<open>sprintf\<close>), the counting loops over arrays, and the two generic contracts
  (\<open>slot_table\<close>, \<open>effect_preorder\<close>) that several components interpret.
\<close>

named_theorems limits \<open>the numeric limits of protocol.h and server_config.h\<close>
named_theorems step_simps \<open>unfolding of the operations\<close>

section \<open>Outcomes\<close>

text \<open>
  The buffers of the sources that are filled without a length argument or with one that has to be
  compared with the size of the buffer. A write past the end of one of them, and an index outside
  an array, is a fault: C defines nothing after it. So is the use of an array that nothing was
  stored in. \<open>Exit_failure\<close> is no fault but stops an operation in the same way: \<open>exit(1)\<close> in the
  chat client.
\<close>

datatype buffer =
    Current_msg | Client_name | Room_name_buf | Success_msg | Room_entry | Room_list_msg
  | Join_msg | Left_msg | Chat_msg | Message_buffer
  | Username_buf | Command_buf | Cmd_buf | Arg1_buf

datatype fault = Overflow buffer | Bad_index int | Uninitialised buffer | Exit_failure

type_synonym 'a res = "fault + 'a"

definition res_bind :: "'a res \<Rightarrow> ('a \<Rightarrow> 'b res) \<Rightarrow> 'b res" where
  "res_bind m f = (case m of Inl e \<Rightarrow> Inl e | Inr x \<Rightarrow> f x)"

lemma res_bind_Inl [simp]: "res_bind (Inl e) f = Inl e"
  by (simp add: res_bind_def)

lemma res_bind_Inr [simp]: "res_bind (Inr x) f = f x"
  by (simp add: res_bind_def)

lemma res_bind_right [simp]: "res_bind m Inr = m"
  by (cases m) simp_all

lemma res_bind_assoc: "res_bind (res_bind m f) g = res_bind m (\<lambda>x. res_bind (f x) g)"
  by (cases m) simp_all

lemma res_bind_eq_Inr: "res_bind m f = Inr y \<longleftrightarrow> (\<exists>x. m = Inr x \<and> f x = Inr y)"
  by (cases m) simp_all

lemma res_bind_eq_Inl:
  "res_bind m f = Inl e \<longleftrightarrow> m = Inl e \<or> (\<exists>x. m = Inr x \<and> f x = Inl e)"
  by (cases m) simp_all

lemma res_bind_cong [fundef_cong]:
  "m = m' \<Longrightarrow> (\<And>x. m' = Inr x \<Longrightarrow> f x = f' x) \<Longrightarrow> res_bind m f = res_bind m' f'"
  by (cases m') simp_all

text \<open>\<open>res_all P m\<close>: if the operation returns, its value satisfies \<open>P\<close>.
  \<open>returns m\<close>: the operation returns, without a fault.\<close>

definition res_all :: "('a \<Rightarrow> bool) \<Rightarrow> 'a res \<Rightarrow> bool" where
  "res_all P m = (case m of Inl _ \<Rightarrow> True | Inr x \<Rightarrow> P x)"

definition returns :: "'a res \<Rightarrow> bool" where
  "returns m = (case m of Inl _ \<Rightarrow> False | Inr _ \<Rightarrow> True)"

lemma res_all_simps [simp]: "res_all P (Inr x) = P x" "res_all P (Inl e)"
  by (simp_all add: res_all_def)

lemma returns_simps [simp]: "returns (Inr x)" "\<not> returns (Inl e)"
  by (simp_all add: returns_def)

lemma res_allI: "(\<And>x. m = Inr x \<Longrightarrow> P x) \<Longrightarrow> res_all P m"
  by (cases m) simp_all

lemma res_allD: "res_all P m \<Longrightarrow> m = Inr x \<Longrightarrow> P x"
  by simp

lemma res_all_mono: "res_all P m \<Longrightarrow> (\<And>x. P x \<Longrightarrow> Q x) \<Longrightarrow> res_all Q m"
  by (cases m) simp_all

lemma res_all_conj: "res_all P m \<Longrightarrow> res_all Q m \<Longrightarrow> res_all (\<lambda>x. P x \<and> Q x) m"
  by (cases m) simp_all

lemma returnsE: "returns m \<Longrightarrow> (\<And>x. m = Inr x \<Longrightarrow> thesis) \<Longrightarrow> thesis"
  by (cases m) simp_all

lemma returns_iff: "returns m \<longleftrightarrow> (\<exists>x. m = Inr x)"
  by (cases m) simp_all

lemma res_all_True [simp]: "res_all (\<lambda>x. True) m"
  by (cases m) simp_all

lemma returns_bind: "returns (res_bind m f) \<longleftrightarrow> (\<exists>x. m = Inr x \<and> returns (f x))"
  by (cases m) simp_all

lemma res_all_bind: "res_all P (res_bind m f) \<longleftrightarrow> res_all (\<lambda>x. res_all P (f x)) m"
  by (cases m) simp_all

section \<open>C strings\<close>

text \<open>
  A C string is the list of its characters before the terminating NUL, so \<open>strlen\<close> is
  \<open>length\<close>; a buffer of \<open>n\<close> bytes holds a string of fewer than \<open>n\<close> characters. The bytes a
  socket delivers may hold a NUL, and the string functions then see what comes before it
  (\<open>cstr\<close>). Plain \<open>char\<close> is signed, as on the platform the program is built for.
\<close>

abbreviation NUL :: char where "NUL \<equiv> CHR 0x00"
abbreviation LF :: char where "LF \<equiv> CHR 0x0A"
abbreviation CR :: char where "CR \<equiv> CHR 0x0D"
abbreviation SPACE :: char where "SPACE \<equiv> CHR 0x20"

definition cstr :: "string \<Rightarrow> string" where
  "cstr bs = takeWhile (\<lambda>c. c \<noteq> NUL) bs"

definition c_store :: "buffer \<Rightarrow> nat \<Rightarrow> string \<Rightarrow> string res" where
  "c_store b n str = (if length str < n then Inr str else Inl (Overflow b))"

lemma c_store_ok [simp]: "length str < n \<Longrightarrow> c_store b n str = Inr str"
  by (simp add: c_store_def)

lemma c_store_eq_Inr: "c_store b n str = Inr x \<longleftrightarrow> length str < n \<and> x = str"
  by (auto simp: c_store_def)

lemma c_store_eq_Inl: "c_store b n str = Inl e \<longleftrightarrow> n \<le> length str \<and> e = Overflow b"
  by (auto simp: c_store_def)

lemma returns_c_store: "returns (c_store b n str) \<longleftrightarrow> length str < n"
  by (simp add: c_store_def)

lemma length_cstr: "length (cstr bs) \<le> length bs"
  by (simp add: cstr_def length_takeWhile_le)

lemma cstr_id: "NUL \<notin> set bs \<Longrightarrow> cstr bs = bs"
  unfolding cstr_def by (subst takeWhile_eq_all_conv) auto

text \<open>The character at an offset of a C string; the offset just past the end reads the NUL.\<close>

definition char_at :: "string \<Rightarrow> nat \<Rightarrow> char" where
  "char_at str i = (if i < length str then str ! i else NUL)"

definition char_val :: "char \<Rightarrow> int" where
  "char_val c = (let n = (of_char c :: nat) in if n < 128 then int n else int n - 256)"

definition c_isdigit :: "char \<Rightarrow> bool" where
  "c_isdigit c \<longleftrightarrow> 48 \<le> (of_char c :: nat) \<and> (of_char c :: nat) \<le> 57"

definition c_isspace :: "char \<Rightarrow> bool" where
  "c_isspace c \<longleftrightarrow> (of_char c :: nat) = 32 \<or> (9 \<le> (of_char c :: nat) \<and> (of_char c :: nat) \<le> 13)"

definition digit_val :: "char \<Rightarrow> int" where
  "digit_val c = int (of_char c) - 48"

definition c_atoi :: "string \<Rightarrow> int" where
  "c_atoi str =
     (let t = dropWhile c_isspace str;
          neg = (char_at t 0 = CHR ''-'');
          u = (if char_at t 0 = CHR ''-'' \<or> char_at t 0 = CHR ''+'' then drop 1 t else t);
          n = foldl (\<lambda>acc c. acc * 10 + digit_val c) 0 (takeWhile c_isdigit u)
      in if neg then - n else n)"

lemma c_isdigit_not_space: "c_isdigit c \<Longrightarrow> \<not> c_isspace c"
  by (simp add: c_isdigit_def c_isspace_def)

lemma c_isdigit_not_sign: "c_isdigit c \<Longrightarrow> c \<noteq> CHR ''-'' \<and> c \<noteq> CHR ''+'' \<and> c \<noteq> NUL"
  by (auto simp: c_isdigit_def)

lemma c_atoi_digits:
  assumes "c \<noteq> []" and "\<forall>x \<in> set c. c_isdigit x"
  shows "c_atoi c = foldl (\<lambda>acc x. acc * 10 + digit_val x) 0 c"
proof -
  obtain d ds where c: "c = d # ds" using assms(1) by (cases c) auto
  have d: "c_isdigit d" using assms(2) c by simp
  have "dropWhile c_isspace c = c" using c c_isdigit_not_space [OF d] by simp
  moreover have "takeWhile c_isdigit c = c"
    using assms(2) by (subst takeWhile_eq_all_conv) auto
  ultimately show ?thesis
    using c c_isdigit_not_sign [OF d] by (simp add: c_atoi_def char_at_def Let_def)
qed

lemma digit_val_bounds: "c_isdigit c \<Longrightarrow> 0 \<le> digit_val c \<and> digit_val c \<le> 9"
  by (auto simp: c_isdigit_def digit_val_def)

text \<open>The conversion \<open>%d\<close> of \<open>sprintf\<close>, for the non-negative values the sources print.\<close>

fun dec_digits :: "nat \<Rightarrow> string" where
  "dec_digits n =
     (if n < 10 then [char_of (48 + n)] else dec_digits (n div 10) @ [char_of (48 + n mod 10)])"

declare dec_digits.simps [simp del]

text \<open>The same for an \<open>int\<close> that may be negative.\<close>

definition signed_digits :: "int \<Rightarrow> string" where
  "signed_digits i = (if i < 0 then ''-'' @ dec_digits (nat (- i)) else dec_digits (nat i))"

lemma dec_digits_1: "n < 10 \<Longrightarrow> dec_digits n = [char_of (48 + n)]"
  by (subst dec_digits.simps) simp

lemma dec_digits_2:
  "10 \<le> n \<Longrightarrow> n < 100 \<Longrightarrow> dec_digits n = [char_of (48 + n div 10), char_of (48 + n mod 10)]"
  by (subst dec_digits.simps) (simp add: dec_digits_1)

lemma length_dec_digits: "n < 100 \<Longrightarrow> length (dec_digits n) = (if n < 10 then 1 else 2)"
  by (cases "n < 10") (simp_all add: dec_digits_1 dec_digits_2)

lemma digit_char [simp]:
  assumes "n < 10"
  shows "c_isdigit (char_of (48 + n))" "digit_val (char_of (48 + n)) = int n"
proof -
  have "(of_char (char_of (48 + n)) :: nat) = 48 + n" using assms by simp
  then show "c_isdigit (char_of (48 + n))" "digit_val (char_of (48 + n)) = int n"
    using assms by (simp_all add: c_isdigit_def digit_val_def)
qed

section \<open>Splitting at the message terminator\<close>

text \<open>\<open>strstr (t, "\r\n")\<close> with the two parts it separates: what stands before the first
  terminator, and what stands after it.\<close>

fun split_crlf :: "string \<Rightarrow> (string \<times> string) option" where
  "split_crlf [] = None"
| "split_crlf [c] = None"
| "split_crlf (c # d # r) =
     (if c = CR \<and> d = LF then Some ([], r)
      else (case split_crlf (d # r) of None \<Rightarrow> None | Some (a, b) \<Rightarrow> Some (c # a, b)))"

lemma split_crlf_eq: "split_crlf str = Some (a, b) \<Longrightarrow> str = a @ [CR, LF] @ b"
  by (induction str arbitrary: a b rule: split_crlf.induct) (auto split: if_splits option.splits)

lemma split_crlf_length: "split_crlf str = Some (a, b) \<Longrightarrow> length b < length str"
  by (drule split_crlf_eq) simp

lemma split_crlf_app: "LF \<notin> set a \<Longrightarrow> split_crlf (a @ CR # LF # b) = Some (a, b)"
proof (induction a)
  case Nil
  show ?case by simp
next
  case (Cons c a)
  then show ?case by (cases a) auto
qed

lemma split_crlf_None: "LF \<notin> set str \<Longrightarrow> split_crlf str = None"
  by (induction str rule: split_crlf.induct) auto

section \<open>Loops over an array\<close>

text \<open>
  An array is a function from its index; the size stands in the loop that walks over it. The
  sources' loops \<open>for (i = 0; i < n; i++) if (P(i)) { ...; return / break; }\<close> look for the first
  index that satisfies a test.
\<close>

type_synonym 'a array = "nat \<Rightarrow> 'a"

function first_index :: "(nat \<Rightarrow> bool) \<Rightarrow> nat \<Rightarrow> nat \<Rightarrow> nat option" where
  "first_index P i n = (if i < n then (if P i then Some i else first_index P (Suc i) n) else None)"
  by pat_completeness auto
termination
  by (relation "measure (\<lambda>(P, i, n). n - i)") auto

declare first_index.simps [simp del]

lemma first_index_here [simp]: "i < n \<Longrightarrow> P i \<Longrightarrow> first_index P i n = Some i"
  by (subst first_index.simps) simp

lemma first_index_skip: "i < n \<Longrightarrow> \<not> P i \<Longrightarrow> first_index P i n = first_index P (Suc i) n"
  by (subst first_index.simps) simp

lemma first_index_Some:
  "first_index P i n = Some k \<longleftrightarrow> i \<le> k \<and> k < n \<and> P k \<and> (\<forall>j. i \<le> j \<longrightarrow> j < k \<longrightarrow> \<not> P j)"
proof (induction P i n rule: first_index.induct)
  case (1 P i n)
  show ?case
  proof (cases "i < n \<and> \<not> P i")
    case True
    then have "first_index P i n = first_index P (Suc i) n" by (simp add: first_index_skip)
    moreover have "(\<forall>j. i \<le> j \<longrightarrow> j < k \<longrightarrow> \<not> P j) \<longleftrightarrow>
        (\<forall>j. Suc i \<le> j \<longrightarrow> j < k \<longrightarrow> \<not> P j)"
      using True by (metis Suc_leD le_antisym not_less_eq_eq)
    moreover have "P k \<Longrightarrow> (i \<le> k) = (Suc i \<le> k)"
      using True by (metis Suc_leD le_antisym not_less_eq_eq)
    ultimately show ?thesis using 1 True by auto
  next
    case False
    then show ?thesis by (subst first_index.simps) (auto simp: le_less)
  qed
qed

lemma first_index_None: "first_index P i n = None \<longleftrightarrow> (\<forall>j. i \<le> j \<longrightarrow> j < n \<longrightarrow> \<not> P j)"
proof (induction P i n rule: first_index.induct)
  case (1 P i n)
  show ?case
  proof (cases "i < n \<and> \<not> P i")
    case True
    then have "first_index P i n = first_index P (Suc i) n" by (simp add: first_index_skip)
    with 1 True show ?thesis by (metis Suc_leD le_antisym not_less_eq_eq)
  next
    case False
    then show ?thesis by (subst first_index.simps) auto
  qed
qed

lemma first_index_bound: "first_index P i n = Some k \<Longrightarrow> k < n \<and> P k"
  by (simp add: first_index_Some)

lemma first_index_cong:
  "(\<And>j. i \<le> j \<Longrightarrow> j < n \<Longrightarrow> P j = Q j) \<Longrightarrow> first_index P i n = first_index Q i n"
proof (induction P i n rule: first_index.induct)
  case (1 P i n)
  then show ?case by (cases "i < n") (simp_all add: first_index.simps [of _ i n])
qed

section \<open>Tables of slots\<close>

text \<open>
  Three arrays of the server are tables of slots with a free marker: the clients of a worker
  (\<open>in_use\<close>), the rooms (\<open>in_use\<close>) and the members of a room (a non-null pointer). What they
  share is how many slots are occupied and when a free one exists.
\<close>

definition occupied :: "('a \<Rightarrow> bool) \<Rightarrow> nat \<Rightarrow> 'a array \<Rightarrow> nat set" where
  "occupied used n f = {k. k < n \<and> used (f k)}"

definition slot_count :: "('a \<Rightarrow> bool) \<Rightarrow> nat \<Rightarrow> 'a array \<Rightarrow> nat" where
  "slot_count used n f = card (occupied used n f)"

lemma finite_occupied [simp]: "finite (occupied used n f)"
  by (simp add: occupied_def)

locale slot_table =
  fixes used :: "'a \<Rightarrow> bool" and cap :: nat and blank :: 'a
  assumes blank_free: "\<not> used blank"
    and cap_pos: "0 < cap"
begin

lemma count_le: "slot_count used cap f \<le> cap"
proof -
  have "occupied used cap f \<subseteq> {..<cap}" by (auto simp: occupied_def)
  then have "card (occupied used cap f) \<le> card {..<cap}" by (intro card_mono) auto
  then show ?thesis by (simp add: slot_count_def)
qed

lemma count_blank: "(\<And>k. k < cap \<Longrightarrow> f k = blank) \<Longrightarrow> slot_count used cap f = 0"
  using blank_free by (simp add: slot_count_def occupied_def)

lemma count_zero: "slot_count used cap f = 0 \<longleftrightarrow> (\<forall>k. k < cap \<longrightarrow> \<not> used (f k))"
  by (auto simp: slot_count_def occupied_def)

lemma count_occupy:
  assumes "k < cap" and "\<not> used (f k)" and "used x"
  shows "slot_count used cap (f(k := x)) = Suc (slot_count used cap f)"
proof -
  have "occupied used cap (f(k := x)) = insert k (occupied used cap f)"
    using assms by (auto simp: occupied_def)
  moreover have "k \<notin> occupied used cap f" using assms by (simp add: occupied_def)
  ultimately show ?thesis by (simp add: slot_count_def)
qed

lemma count_release:
  assumes "k < cap" and "used (f k)" and "\<not> used x"
  shows "Suc (slot_count used cap (f(k := x))) = slot_count used cap f"
proof -
  have "occupied used cap f = insert k (occupied used cap (f(k := x)))"
    using assms by (auto simp: occupied_def)
  moreover have "k \<notin> occupied used cap (f(k := x))" using assms by (simp add: occupied_def)
  ultimately show ?thesis by (simp add: slot_count_def)
qed

lemma count_keep:
  assumes "used x = used (f k)"
  shows "slot_count used cap (f(k := x)) = slot_count used cap f"
proof -
  have "occupied used cap (f(k := x)) = occupied used cap f"
    using assms by (auto simp: occupied_def)
  then show ?thesis by (simp add: slot_count_def)
qed

lemma count_pos: "k < cap \<Longrightarrow> used (f k) \<Longrightarrow> 0 < slot_count used cap f"
  using count_zero [of f] by (cases "slot_count used cap f") auto

lemma count_full: "slot_count used cap f = cap \<longleftrightarrow> (\<forall>k. k < cap \<longrightarrow> used (f k))"
proof
  assume *: "slot_count used cap f = cap"
  have "occupied used cap f = {..<cap}"
    by (rule card_subset_eq) (use * in \<open>auto simp: occupied_def slot_count_def\<close>)
  then show "\<forall>k. k < cap \<longrightarrow> used (f k)" by (auto simp: occupied_def)
next
  assume "\<forall>k. k < cap \<longrightarrow> used (f k)"
  then have "occupied used cap f = {..<cap}" by (auto simp: occupied_def)
  then show "slot_count used cap f = cap" by (simp add: slot_count_def)
qed

lemma first_free_None: "first_index (\<lambda>k. \<not> used (f k)) 0 cap = None \<longleftrightarrow> slot_count used cap f = cap"
  by (auto simp: first_index_None count_full)

lemma first_free_Some:
  "slot_count used cap f < cap \<Longrightarrow> \<exists>k. first_index (\<lambda>k. \<not> used (f k)) 0 cap = Some k"
  using first_free_None [of f] by (cases "first_index (\<lambda>k. \<not> used (f k)) 0 cap") auto

end

section \<open>Relations kept by every step\<close>

text \<open>
  Many facts about an operation say how the state it returns is related to the one it was given:
  it only appends to the trace, it leaves other clients alone, it keeps an invariant. Each is a
  reflexive and transitive relation, so it passes through the sequencing of operations.
\<close>

locale effect_preorder =
  fixes R :: "'s \<Rightarrow> 's \<Rightarrow> bool"
  assumes keep_refl: "R s s"
    and keep_trans: "R s t \<Longrightarrow> R t u \<Longrightarrow> R s u"
begin

lemma keep_return: "R s t \<Longrightarrow> res_all (R s) (Inr t)"
  by simp

lemma keep_bind:
  assumes "res_all (R s) m" and "\<And>t. m = Inr t \<Longrightarrow> res_all (R t) (f t)"
  shows "res_all (R s) (res_bind m f)"
  using assms by (cases m) (auto intro: res_all_mono keep_trans)

lemma keep_after:
  assumes "R s t" and "res_all (R t) m"
  shows "res_all (R s) m"
  using assms by (cases m) (auto intro: keep_trans)

lemma keep_bind_value:
  assumes "\<And>x. m = Inr x \<Longrightarrow> res_all (R s) (f x)"
  shows "res_all (R s) (res_bind m f)"
  using assms by (cases m) auto

lemma keep_bind_pair:
  assumes "res_all (\<lambda>(t, _). R s t) m" and "\<And>t x. m = Inr (t, x) \<Longrightarrow> res_all (R t) (f (t, x))"
  shows "res_all (R s) (res_bind m f)"
  using assms by (cases m) (auto intro: res_all_mono keep_trans)

end

end
