(* ===== verification/Protocol.thy ===== *)
theory Protocol
  imports Prelude
begin

text \<open>
  The wire protocol that \<open>client/protocol.h\<close> and \<open>server/protocol.h\<close> (the same file twice)
  fix: command and error codes, size limits, and the layout
  \<open><1-byte-command><space><content>\r\n\<close> of a message.
\<close>

section \<open>Codes\<close>

definition CMD_EXIT :: char where "CMD_EXIT = CHR 0x01"
definition CMD_USERNAME_SUBMIT :: char where "CMD_USERNAME_SUBMIT = CHR 0x02"
definition CMD_ROOM_CREATE_REQUEST :: char where "CMD_ROOM_CREATE_REQUEST = CHR 0x03"
definition CMD_ROOM_LIST_REQUEST :: char where "CMD_ROOM_LIST_REQUEST = CHR 0x04"
definition CMD_ROOM_JOIN_REQUEST :: char where "CMD_ROOM_JOIN_REQUEST = CHR 0x05"
definition CMD_LEAVE_ROOM :: char where "CMD_LEAVE_ROOM = CHR 0x06"
definition CMD_ROOM_MESSAGE_SEND :: char where "CMD_ROOM_MESSAGE_SEND = CHR 0x07"

definition CMD_WELCOME_REQUEST :: char where "CMD_WELCOME_REQUEST = CHR 0x16"
definition CMD_ROOM_CREATE_OK :: char where "CMD_ROOM_CREATE_OK = CHR 0x18"
definition CMD_ROOM_LIST_RESPONSE :: char where "CMD_ROOM_LIST_RESPONSE = CHR 0x1A"
definition CMD_ROOM_JOIN_OK :: char where "CMD_ROOM_JOIN_OK = CHR 0x1B"
definition CMD_ROOM_MSG :: char where "CMD_ROOM_MSG = CHR 0x1C"
definition CMD_ROOM_LEAVE_OK :: char where "CMD_ROOM_LEAVE_OK = CHR 0x1D"

definition ERR_ROOM_NAME_INVALID :: char where "ERR_ROOM_NAME_INVALID = CHR 0x24"
definition ERR_ROOM_CAPACITY_FULL :: char where "ERR_ROOM_CAPACITY_FULL = CHR 0x25"
definition ERR_ROOM_NOT_FOUND :: char where "ERR_ROOM_NOT_FOUND = CHR 0x26"
definition ERR_PROTOCOL_INVALID_STATE_CMD :: char where
  "ERR_PROTOCOL_INVALID_STATE_CMD = CHR 0x28"
definition ERR_PROTOCOL_INVALID_FORMAT :: char where
  "ERR_PROTOCOL_INVALID_FORMAT = CHR 0x29"
definition ERR_MSG_EMPTY_CONTENT :: char where "ERR_MSG_EMPTY_CONTENT = CHR 0x2A"
definition ERR_SERVER_FULL :: char where "ERR_SERVER_FULL = CHR 0x2B"
definition ERR_CONNECTING :: char where "ERR_CONNECTING = CHR 0x2C"
definition ERR_USERNAME_LENGTH :: char where "ERR_USERNAME_LENGTH = CHR 0x2D"

lemmas command_codes =
  CMD_EXIT_def CMD_USERNAME_SUBMIT_def CMD_ROOM_CREATE_REQUEST_def CMD_ROOM_LIST_REQUEST_def
  CMD_ROOM_JOIN_REQUEST_def CMD_LEAVE_ROOM_def CMD_ROOM_MESSAGE_SEND_def

lemmas reply_codes =
  CMD_WELCOME_REQUEST_def CMD_ROOM_CREATE_OK_def CMD_ROOM_LIST_RESPONSE_def CMD_ROOM_JOIN_OK_def
  CMD_ROOM_MSG_def CMD_ROOM_LEAVE_OK_def ERR_ROOM_NAME_INVALID_def ERR_ROOM_CAPACITY_FULL_def
  ERR_ROOM_NOT_FOUND_def ERR_PROTOCOL_INVALID_STATE_CMD_def ERR_PROTOCOL_INVALID_FORMAT_def
  ERR_MSG_EMPTY_CONTENT_def ERR_SERVER_FULL_def ERR_CONNECTING_def ERR_USERNAME_LENGTH_def

section \<open>Limits\<close>

definition MAX_USERNAME_LEN :: nat where [limits]: "MAX_USERNAME_LEN = 32"
definition MAX_ROOM_NAME_LEN :: nat where [limits]: "MAX_ROOM_NAME_LEN = 24"
definition MAX_MESSAGE_LEN_TO_SERVER :: nat where [limits]: "MAX_MESSAGE_LEN_TO_SERVER = 132"
definition MAX_MESSAGE_LEN_FROM_SERVER :: nat where
  [limits]: "MAX_MESSAGE_LEN_FROM_SERVER = MAX_ROOM_NAME_LEN * 50 + 256"
definition MAX_CONTENT_LEN :: nat where [limits]: "MAX_CONTENT_LEN = 128"

definition MSG_TERMINATOR :: string where "MSG_TERMINATOR = [CR, LF]"

section \<open>The frame of a message\<close>

text \<open>The result of \<open>sprintf (buf, "%c %s%s", cmd, content, MSG_TERMINATOR)\<close>.\<close>

definition frame :: "char \<Rightarrow> string \<Rightarrow> string" where
  "frame cmd content = cmd # SPACE # content @ MSG_TERMINATOR"

lemma length_frame [simp]: "length (frame cmd content) = length content + 4"
  by (simp add: frame_def MSG_TERMINATOR_def)

lemma frame_inject [simp]: "frame c m = frame d n \<longleftrightarrow> c = d \<and> m = n"
  by (simp add: frame_def)

lemma split_frame: "LF \<notin> set m \<Longrightarrow> c \<noteq> LF \<Longrightarrow> split_crlf (frame c m @ rest) = Some (c # SPACE # m, rest)"
  using split_crlf_app [of "c # SPACE # m" rest] by (simp add: frame_def MSG_TERMINATOR_def)

end
