(* ===== verification/Server_State.thy ===== *)
theory Server_State
  imports Protocol
begin

text \<open>
  The data of the server (\<open>server/server_config.h\<close>): clients, rooms and worker threads, the
  global \<open>SERVER_ROOMS\<close>, and what the operations do to the outside (the trace). A
  \<open>Client *\<close> is the position of the struct it points to: the worker thread that owns the array and
  the slot in it. Two pointers are equal exactly when these are, and rooms and workers share the
  structs through them.
\<close>

section \<open>Sizes\<close>

definition MAX_THREADS :: nat where [limits]: "MAX_THREADS = 4"
definition MAX_CLIENTS_PER_THREAD :: nat where [limits]: "MAX_CLIENTS_PER_THREAD = 1500"
definition MAX_CLIENTS_ROOM :: nat where [limits]: "MAX_CLIENTS_ROOM = 120"
definition MAX_ROOMS :: nat where [limits]: "MAX_ROOMS = 50"
definition MAX_CLIENTS :: nat where [limits]: "MAX_CLIENTS = MAX_CLIENTS_ROOM * MAX_ROOMS"

lemma sizes_pos [simp]:
  "0 < MAX_THREADS" "0 < MAX_CLIENTS_PER_THREAD" "0 < MAX_CLIENTS_ROOM" "0 < MAX_ROOMS"
  by (simp_all add: limits)

section \<open>Structs\<close>

datatype client_state = AWAITING_USERNAME | IN_CHAT_LOBBY | IN_CHAT_ROOM

text \<open>The values of the enum, in the order of its declaration.\<close>

fun state_value :: "client_state \<Rightarrow> nat" where
  "state_value AWAITING_USERNAME = 0"
| "state_value IN_CHAT_LOBBY = 1"
| "state_value IN_CHAT_ROOM = 2"

instantiation client_state :: linorder
begin

definition less_eq_client_state :: "client_state \<Rightarrow> client_state \<Rightarrow> bool" where
  "less_eq_client_state a b \<longleftrightarrow> state_value a \<le> state_value b"

definition less_client_state :: "client_state \<Rightarrow> client_state \<Rightarrow> bool" where
  "less_client_state a b \<longleftrightarrow> state_value a < state_value b"

instance
proof
  fix a b :: client_state
  show "a \<le> b \<Longrightarrow> b \<le> a \<Longrightarrow> a = b"
    by (cases a; cases b) (simp_all add: less_eq_client_state_def)
qed (auto simp: less_eq_client_state_def less_client_state_def)

end

record client =
  client_fd :: int
  cname :: string
  cstate :: client_state
  room_index :: int
  c_in_use :: bool
  current_msg :: string

datatype cptr = Cptr (owner: nat) (slot: nat)

text \<open>The kernel's part of a worker: the counter behind its \<open>notification_fd\<close> and the
  descriptors registered with its epoll instance.\<close>

record worker =
  num_of_clients :: int
  notification_fd :: int
  epoll_fd :: int
  clients :: "client array"
  new_client :: nat
  efd_counter :: nat
  epoll_set :: "int set"

record room =
  r_clients :: "cptr option array"
  room_name :: string
  num_clients :: int
  r_in_use :: bool

section \<open>The outside\<close>

text \<open>
  The trace lists the system calls and lock operations that an operation makes, in order.
  \<open>Send fd b n\<close> is one run of the send loop: of the bytes \<open>b\<close> for the socket \<open>fd\<close> the
  kernel took the first \<open>n\<close>. What each \<open>send\<close> call answers is scripted by \<open>replies\<close>: every
  call uses up one answer, and when the script is over the kernel takes all it is given.
\<close>

datatype lock = Room_lock nat | Count_lock nat

datatype action =
    Send int string nat
  | Close int
  | Epoll_add int int
  | Epoll_del int int
  | Lock lock
  | Unlock lock
  | Sem_wait nat
  | Sem_post nat

datatype send_reply = Accepted nat | Would_block | Send_failed

record server =
  server_rooms :: "room array"
  worker_threads :: "worker array"
  worker_index :: nat
  replies :: "send_reply list"
  trace :: "action list"

section \<open>Reading and writing through pointers\<close>

definition client_at :: "server \<Rightarrow> cptr \<Rightarrow> client" where
  "client_at s p = clients (worker_threads s (owner p)) (slot p)"

definition room_at :: "server \<Rightarrow> nat \<Rightarrow> room" where
  "room_at s i = server_rooms s i"

definition worker_at :: "server \<Rightarrow> nat \<Rightarrow> worker" where
  "worker_at s w = worker_threads s w"

definition upd_worker :: "nat \<Rightarrow> (worker \<Rightarrow> worker) \<Rightarrow> server \<Rightarrow> server" where
  "upd_worker w f s = s\<lparr>worker_threads := (worker_threads s)(w := f (worker_threads s w))\<rparr>"

definition upd_client :: "cptr \<Rightarrow> (client \<Rightarrow> client) \<Rightarrow> server \<Rightarrow> server" where
  "upd_client p f s =
     upd_worker (owner p) (\<lambda>t. t\<lparr>clients := (clients t)(slot p := f (clients t (slot p)))\<rparr>) s"

definition upd_room :: "nat \<Rightarrow> (room \<Rightarrow> room) \<Rightarrow> server \<Rightarrow> server" where
  "upd_room i f s = s\<lparr>server_rooms := (server_rooms s)(i := f (server_rooms s i))\<rparr>"

definition emit :: "action \<Rightarrow> server \<Rightarrow> server" where
  "emit a s = s\<lparr>trace := trace s @ [a]\<rparr>"

lemma client_at_upd_client [simp]:
  "client_at (upd_client p f s) q = (if q = p then f (client_at s p) else client_at s q)"
  by (cases p; cases q) (auto simp: client_at_def upd_client_def upd_worker_def)

lemma client_at_upd_room [simp]: "client_at (upd_room i f s) q = client_at s q"
  by (simp add: client_at_def upd_room_def)

lemma client_at_emit [simp]: "client_at (emit a s) q = client_at s q"
  by (simp add: client_at_def emit_def)

lemma client_at_upd_worker:
  "client_at (upd_worker w f s) q =
     (if owner q = w then clients (f (worker_at s w)) (slot q) else client_at s q)"
  by (simp add: client_at_def upd_worker_def worker_at_def)

lemma client_at_upd_worker_keep [simp]:
  "(\<And>t. clients (f t) = clients t) \<Longrightarrow> client_at (upd_worker w f s) q = client_at s q"
  by (simp add: client_at_def upd_worker_def)

lemma room_at_simps [simp]:
  "room_at (upd_client p f s) j = room_at s j"
  "room_at (upd_worker w h s) j = room_at s j"
  "room_at (emit a s) j = room_at s j"
  "room_at (upd_room i g s) j = (if j = i then g (room_at s i) else room_at s j)"
  by (simp_all add: room_at_def upd_client_def upd_worker_def emit_def upd_room_def)

lemma worker_at_simps [simp]:
  "worker_at (upd_room i g s) v = worker_at s v"
  "worker_at (emit a s) v = worker_at s v"
  "worker_at (upd_worker w h s) v = (if v = w then h (worker_at s w) else worker_at s v)"
  by (simp_all add: worker_at_def emit_def upd_room_def upd_worker_def)

lemma worker_at_upd_client:
  "worker_at (upd_client p f s) v =
     (if v = owner p then (worker_at s v)\<lparr>clients := (clients (worker_at s v))(slot p := f (client_at s p))\<rparr>
      else worker_at s v)"
  by (simp add: worker_at_def upd_client_def upd_worker_def client_at_def)

lemma client_at_worker: "client_at s (Cptr w k) = clients (worker_at s w) k"
  by (simp add: client_at_def worker_at_def)

lemma worker_fields_upd_client [simp]:
  "num_of_clients (worker_at (upd_client p f s) v) = num_of_clients (worker_at s v)"
  "notification_fd (worker_at (upd_client p f s) v) = notification_fd (worker_at s v)"
  "epoll_fd (worker_at (upd_client p f s) v) = epoll_fd (worker_at s v)"
  "new_client (worker_at (upd_client p f s) v) = new_client (worker_at s v)"
  "efd_counter (worker_at (upd_client p f s) v) = efd_counter (worker_at s v)"
  "epoll_set (worker_at (upd_client p f s) v) = epoll_set (worker_at s v)"
  by (simp_all add: worker_at_upd_client)

lemma trace_simps [simp]:
  "trace (upd_client p f s) = trace s"
  "trace (upd_room i g s) = trace s"
  "trace (upd_worker w h s) = trace s"
  "trace (emit a s) = trace s @ [a]"
  by (simp_all add: upd_client_def upd_worker_def upd_room_def emit_def)

lemma replies_simps [simp]:
  "replies (upd_client p f s) = replies s"
  "replies (upd_room i g s) = replies s"
  "replies (upd_worker w h s) = replies s"
  "replies (emit a s) = replies s"
  by (simp_all add: upd_client_def upd_worker_def upd_room_def emit_def)

lemma worker_index_simps [simp]:
  "worker_index (upd_client p f s) = worker_index s"
  "worker_index (upd_room i g s) = worker_index s"
  "worker_index (upd_worker w h s) = worker_index s"
  "worker_index (emit a s) = worker_index s"
  by (simp_all add: upd_client_def upd_worker_def upd_room_def emit_def)

section \<open>Start-up\<close>

text \<open>A struct cleared by \<open>memset (.., 0, ..)\<close>; the enum value 0 is \<open>AWAITING_USERNAME\<close>.\<close>

definition zero_client :: client where
  "zero_client = \<lparr>client_fd = 0, cname = [], cstate = AWAITING_USERNAME, room_index = 0,
     c_in_use = False, current_msg = []\<rparr>"

definition zero_room :: room where
  "zero_room = \<lparr>r_clients = (\<lambda>_. None), room_name = [], num_clients = 0, r_in_use = False\<rparr>"

definition zero_worker :: worker where
  "zero_worker = \<lparr>num_of_clients = 0, notification_fd = 0, epoll_fd = 0,
     clients = (\<lambda>_. zero_client), new_client = 0, efd_counter = 0, epoll_set = {}\<rparr>"

lemma zero_client_simps [simp]:
  "client_fd zero_client = 0" "cname zero_client = []" "cstate zero_client = AWAITING_USERNAME"
  "room_index zero_client = 0" "\<not> c_in_use zero_client" "current_msg zero_client = []"
  by (simp_all add: zero_client_def)

lemma zero_room_simps [simp]:
  "r_clients zero_room = (\<lambda>_. None)" "room_name zero_room = []" "num_clients zero_room = 0"
  "\<not> r_in_use zero_room"
  by (simp_all add: zero_room_def)

lemma zero_worker_simps [simp]:
  "num_of_clients zero_worker = 0" "clients zero_worker = (\<lambda>_. zero_client)"
  "new_client zero_worker = 0" "efd_counter zero_worker = 0" "epoll_set zero_worker = {}"
  by (simp_all add: zero_worker_def)

definition non_null :: "cptr option \<Rightarrow> bool" where
  "non_null x \<longleftrightarrow> x \<noteq> None"

lemma non_null_simps [simp]: "non_null (Some p)" "\<not> non_null None"
  by (simp_all add: non_null_def)

lemma not_non_null: "\<not> non_null x \<longleftrightarrow> x = None"
  by (simp add: non_null_def)

text \<open>The three slot tables of the server.\<close>

interpretation client_slots: slot_table c_in_use MAX_CLIENTS_PER_THREAD zero_client
  by unfold_locales simp_all

interpretation room_slots: slot_table r_in_use MAX_ROOMS zero_room
  by unfold_locales simp_all

interpretation member_slots: slot_table non_null MAX_CLIENTS_ROOM None
  by unfold_locales simp_all

abbreviation member_count :: "room \<Rightarrow> nat" where
  "member_count r \<equiv> slot_count non_null MAX_CLIENTS_ROOM (r_clients r)"

abbreviation client_count :: "worker \<Rightarrow> nat" where
  "client_count t \<equiv> slot_count c_in_use MAX_CLIENTS_PER_THREAD (clients t)"

end
