(* ===== verification/Transport.thy ===== *)
theory Transport
  imports Server_State
begin

text \<open>
  \<open>send_message_to_client\<close> of \<open>server/client_state_manager.c\<close>: format a message into the
  1456-byte buffer and push it through the non-blocking socket until it is sent or the socket
  fails. Every other component talks to its clients through it.
\<close>

section \<open>The send loop\<close>

text \<open>
  \<open>while (sent < length)\<close>: one kernel answer per round. \<open>Accepted k\<close> is a return value
  \<open>k\<close>, never more than was offered; 0 sends the loop round again, as \<open>EAGAIN\<close> does. The script
  is finite and the kernel then takes the rest, so the loop ends: a socket that answers
  \<open>EAGAIN\<close> for ever, which would keep the real loop spinning, has no script.
\<close>

fun send_loop :: "send_reply list \<Rightarrow> nat \<Rightarrow> nat \<Rightarrow> nat \<times> send_reply list" where
  "send_loop [] sent len = ((if sent < len then len else sent), [])"
| "send_loop (r # rs) sent len =
     (if sent < len then
        (case r of
           Send_failed \<Rightarrow> (sent, rs)
         | Would_block \<Rightarrow> send_loop rs sent len
         | Accepted k \<Rightarrow> send_loop rs (sent + min k (len - sent)) len)
      else (sent, r # rs))"

definition send_message_to_client :: "int \<Rightarrow> char \<Rightarrow> string \<Rightarrow> server \<Rightarrow> server res" where
  "send_message_to_client fd cmd_type message s =
     res_bind (c_store Message_buffer MAX_MESSAGE_LEN_FROM_SERVER (frame cmd_type message))
       (\<lambda>buf. let (sent, rest) = send_loop (replies s) 0 (length buf)
               in Inr (emit (Send fd buf sent) (s\<lparr>replies := rest\<rparr>)))"

lemma send_loop_bounds:
  "send_loop rs sent len = (n, rs') \<Longrightarrow> sent \<le> len \<Longrightarrow> sent \<le> n \<and> n \<le> len"
  by (induction rs sent len arbitrary: n rs' rule: send_loop.induct)
     (fastforce split: if_splits send_reply.splits)+

text \<open>The answers the loop uses up, and the rest.\<close>

lemma send_loop_suffix:
  "send_loop rs sent len = (n, rs') \<Longrightarrow> \<exists>used. rs = used @ rs' \<and> (Send_failed \<notin> set used \<longrightarrow> sent \<le> len \<longrightarrow> n = len)"
proof (induction rs sent len arbitrary: n rs' rule: send_loop.induct)
  case (1 sent len)
  then show ?case by (auto split: if_splits)
next
  case (2 r rs sent len)
  show ?case
  proof (cases "sent < len")
    case False
    with 2(3) show ?thesis by auto
  next
    case True
    show ?thesis
    proof (cases r)
      case (Accepted k)
      with True 2(3) have "send_loop rs (sent + min k (len - sent)) len = (n, rs')" by simp
      from "2.IH"(1) [OF True Accepted this] obtain used where
        "rs = used @ rs'" "Send_failed \<notin> set used \<longrightarrow> sent + min k (len - sent) \<le> len \<longrightarrow> n = len"
        by blast
      with Accepted True show ?thesis by (intro exI [of _ "r # used"]) auto
    next
      case Would_block
      with True 2(3) have "send_loop rs sent len = (n, rs')" by simp
      from "2.IH"(2) [OF True Would_block this] obtain used where
        "rs = used @ rs'" "Send_failed \<notin> set used \<longrightarrow> sent \<le> len \<longrightarrow> n = len"
        by blast
      with Would_block True show ?thesis by (intro exI [of _ "r # used"]) auto
    next
      case Send_failed
      with True 2(3) show ?thesis by (intro exI [of _ "[r]"]) auto
    qed
  qed
qed

section \<open>What sending changes\<close>

text \<open>Sending touches no struct: it uses up kernel answers and adds one action to the trace.\<close>

definition only_sends :: "server \<Rightarrow> server \<Rightarrow> bool" where
  "only_sends s t \<longleftrightarrow>
     (\<exists>as. trace t = trace s @ as \<and> (\<forall>a \<in> set as. \<exists>fd b n. a = Send fd b n)) \<and>
     server_rooms t = server_rooms s \<and> worker_threads t = worker_threads s \<and>
     worker_index t = worker_index s"

lemma only_sends_refl: "only_sends s s"
  by (simp add: only_sends_def)

lemma only_sends_trans: "only_sends s t \<Longrightarrow> only_sends t u \<Longrightarrow> only_sends s u"
  unfolding only_sends_def by (elim conjE exE) (simp add: ball_Un)

interpretation sends: effect_preorder only_sends
  by unfold_locales (rule only_sends_refl, rule only_sends_trans)

lemma only_sends_state:
  assumes "only_sends s t"
  shows "client_at t p = client_at s p" "room_at t i = room_at s i" "worker_at t w = worker_at s w"
    "worker_index t = worker_index s"
  using assms by (auto simp: only_sends_def client_at_def room_at_def worker_at_def)

text \<open>\<open>same_structs s t\<close>: the two states hold the same clients, rooms and workers; they may
  differ in what was sent, locked and waited for.\<close>

definition same_structs :: "server \<Rightarrow> server \<Rightarrow> bool" where
  "same_structs s t \<longleftrightarrow>
     server_rooms t = server_rooms s \<and> worker_threads t = worker_threads s \<and>
     worker_index t = worker_index s"

interpretation structs: effect_preorder same_structs
  by unfold_locales (simp_all add: same_structs_def)

lemma same_structs_state:
  assumes "same_structs s t"
  shows "client_at t p = client_at s p" "room_at t i = room_at s i" "worker_at t w = worker_at s w"
    "worker_index t = worker_index s"
  using assms by (simp_all add: same_structs_def client_at_def room_at_def worker_at_def)

lemma same_structs_emit [simp]:
  "same_structs s (emit a t) = same_structs s t" "same_structs (emit a s) t = same_structs s t"
  by (simp_all add: same_structs_def emit_def)

lemma same_structs_sym: "same_structs s t \<Longrightarrow> same_structs t s"
  by (simp add: same_structs_def)

lemma same_structs_sends: "only_sends s t \<Longrightarrow> same_structs s t"
  by (simp add: only_sends_def same_structs_def)

lemma same_structs_upd:
  assumes "same_structs s t"
  shows "same_structs (upd_client p f s) (upd_client p f t)"
    "same_structs (upd_room i g s) (upd_room i g t)"
    "same_structs (upd_worker w h s) (upd_worker w h t)"
  using assms by (simp_all add: same_structs_def upd_client_def upd_worker_def upd_room_def)

text \<open>The frames handed to the send loop, with their sockets, in order.\<close>

fun sent_frames :: "action list \<Rightarrow> (int \<times> string) list" where
  "sent_frames [] = []"
| "sent_frames (a # as) = (case a of Send fd b n \<Rightarrow> (fd, b) # sent_frames as | _ \<Rightarrow> sent_frames as)"

lemma sent_frames_append [simp]: "sent_frames (as @ bs) = sent_frames as @ sent_frames bs"
  by (induction as) (auto split: action.splits)

lemma send_Inr:
  assumes "send_message_to_client fd cmd m s = Inr t"
  shows "\<exists>n rs. t = emit (Send fd (frame cmd m) n) (s\<lparr>replies := rs\<rparr>)"
  using assms
  by (auto simp: send_message_to_client_def res_bind_eq_Inr c_store_eq_Inr split: prod.splits)

lemma send_returns:
  "returns (send_message_to_client fd cmd m s) \<longleftrightarrow> length m + 4 < MAX_MESSAGE_LEN_FROM_SERVER"
  by (auto simp: send_message_to_client_def returns_bind c_store_eq_Inr split_beta)

lemma send_fault:
  "send_message_to_client fd cmd m s = Inl e \<longleftrightarrow>
     MAX_MESSAGE_LEN_FROM_SERVER \<le> length m + 4 \<and> e = Overflow Message_buffer"
  by (auto simp: send_message_to_client_def res_bind_eq_Inl c_store_eq_Inl split_beta)

lemma send_only_sends: "res_all (only_sends s) (send_message_to_client fd cmd m s)"
proof (rule res_allI)
  fix t assume "send_message_to_client fd cmd m s = Inr t"
  from send_Inr [OF this] show "only_sends s t"
    by (auto simp: only_sends_def emit_def)
qed

lemma send_frames:
  "res_all (\<lambda>t. sent_frames (trace t) = sent_frames (trace s) @ [(fd, frame cmd m)])
     (send_message_to_client fd cmd m s)"
  by (rule res_allI) (auto dest: send_Inr)

text \<open>A closed send with no kernel trouble.\<close>

lemma send_clear:
  "replies s = [] \<Longrightarrow> length m + 4 < MAX_MESSAGE_LEN_FROM_SERVER \<Longrightarrow>
   send_message_to_client fd cmd m s = Inr (emit (Send fd (frame cmd m) (length m + 4)) s)"
proof -
  assume *: "replies s = []" "length m + 4 < MAX_MESSAGE_LEN_FROM_SERVER"
  have "0 < length (frame cmd m)" by simp
  then have "send_message_to_client fd cmd m s =
      Inr (emit (Send fd (frame cmd m) (length m + 4)) (s\<lparr>replies := []\<rparr>))"
    using * by (simp add: send_message_to_client_def del: length_greater_0_conv)
  moreover have "s\<lparr>replies := []\<rparr> = s" using *(1) by simp
  ultimately show ?thesis by (simp only:)
qed

end
