(* ===== verification/Locks.thy ===== *)
theory Locks
  imports Transport
begin

text \<open>
  The lock discipline of the server. Its locks are one mutex per room and one per worker (the
  client count), and a thread can also be made to wait by a worker's semaphore. A thread that
  holds at most one lock at a time, and never waits for anything while it holds one, cannot be
  part of a deadlock.
\<close>

text \<open>\<open>held h as\<close>: the lock held after the actions \<open>as\<close>, starting with \<open>h\<close>; \<open>None\<close> when
  an action breaks the discipline (a second lock, a wait under a lock, an unlock of a lock that is
  not held).\<close>

fun held :: "lock option \<Rightarrow> action list \<Rightarrow> lock option option" where
  "held h [] = Some h"
| "held h (Lock l # as) = (if h = None then held (Some l) as else None)"
| "held h (Unlock l # as) = (if h = Some l then held None as else None)"
| "held h (Sem_wait w # as) = (if h = None then held None as else None)"
| "held h (Send fd b n # as) = held h as"
| "held h (Close fd # as) = held h as"
| "held h (Epoll_add e fd # as) = held h as"
| "held h (Epoll_del e fd # as) = held h as"
| "held h (Sem_post w # as) = held h as"

lemma held_append: "held h (as @ bs) = (case held h as of None \<Rightarrow> None | Some h' \<Rightarrow> held h' bs)"
  by (induction h as rule: held.induct) auto

lemma held_sends: "\<forall>a \<in> set as. \<exists>fd b n. a = Send fd b n \<Longrightarrow> held h as = Some h"
  by (induction as) auto

definition lock_path :: "lock option \<Rightarrow> lock option \<Rightarrow> server \<Rightarrow> server \<Rightarrow> bool" where
  "lock_path h h' s t \<longleftrightarrow> (\<exists>as. trace t = trace s @ as \<and> held h as = Some h')"

text \<open>An operation that starts and ends without a lock and keeps the discipline.\<close>

definition balanced :: "server \<Rightarrow> server \<Rightarrow> bool" where
  "balanced s t \<longleftrightarrow> lock_path None None s t"

lemma lock_path_trans: "lock_path h h' s t \<Longrightarrow> lock_path h' h'' t u \<Longrightarrow> lock_path h h'' s u"
  unfolding lock_path_def by (elim exE conjE) (simp add: held_append)

lemma lock_path_eq: "trace t = trace s \<Longrightarrow> lock_path h h s t"
  by (simp add: lock_path_def)

interpretation locks: effect_preorder balanced
proof unfold_locales
  show "balanced s s" for s by (simp add: balanced_def lock_path_eq)
  show "balanced s t \<Longrightarrow> balanced t u \<Longrightarrow> balanced s u" for s t u
    unfolding balanced_def by (rule lock_path_trans)
qed

lemma lock_path_sends: "only_sends s t \<Longrightarrow> lock_path h h s t"
  by (auto simp: only_sends_def lock_path_def held_sends)

lemma balanced_sends: "only_sends s t \<Longrightarrow> balanced s t"
  by (simp add: balanced_def lock_path_sends)

lemma balanced_eq: "trace t = trace s \<Longrightarrow> balanced s t"
  by (simp add: balanced_def lock_path_eq)

lemma lock_path_acquire: "lock_path None (Some l) s (emit (Lock l) s)"
  by (simp add: lock_path_def)

lemma lock_path_release: "lock_path (Some l) None s (emit (Unlock l) s)"
  by (simp add: lock_path_def)

text \<open>A critical section: acquire, a body that takes no lock, release.\<close>

lemma balanced_section:
  assumes "lock_path (Some l) (Some l) (emit (Lock l) s) t"
  shows "balanced s (emit (Unlock l) t)"
  unfolding balanced_def
  by (rule lock_path_trans [OF lock_path_acquire lock_path_trans [OF assms lock_path_release]])

text \<open>A section that only sends, between struct updates that leave the trace alone.\<close>

lemma section_sends:
  assumes "trace u = trace s @ [Lock l]" and "only_sends u t" and "trace v = trace t"
  shows "balanced s (emit (Unlock l) v)"
proof -
  from assms obtain as where "trace v = trace s @ [Lock l] @ as"
    and "\<forall>a \<in> set as. \<exists>fd b n. a = Send fd b n"
    by (auto simp: only_sends_def)
  then have "trace (emit (Unlock l) v) = trace s @ ([Lock l] @ as @ [Unlock l])"
    and "held None ([Lock l] @ as @ [Unlock l]) = Some None"
    by (simp_all add: held_append held_sends)
  then show ?thesis unfolding balanced_def lock_path_def by blast
qed

lemma section_send:
  assumes "send_message_to_client fd cmd m u = Inr t" and "trace u = trace s @ [Lock l]"
  shows "balanced s (emit (Unlock l) t)"
  by (rule section_sends [OF assms(2) res_allD [OF send_only_sends assms(1)] refl])

lemma section_empty: "balanced s (emit (Unlock l) (emit (Lock l) s))"
  using section_sends [of "emit (Lock l) s" s l "emit (Lock l) s" "emit (Lock l) s"]
  by (simp add: only_sends_refl)

end
