(* ===== verification/Room_Manager.thy ===== *)
theory Room_Manager
  imports Locks
begin

text \<open>
  \<open>server/room_manager.c\<close>: creating, listing, joining and leaving rooms, and broadcasting in
  one. Each operation takes the pointer of the client it works for and the server; the rooms are
  the global \<open>SERVER_ROOMS\<close>. The part after the definitions proves what each operation does to the
  structs (\<open>*_structs\<close>) and who receives a broadcast (\<open>*_frames\<close>).
\<close>

section \<open>The texts\<close>

definition created_prefix :: string where
  "created_prefix = ''Room created successfully: ''"

definition name_invalid_text :: string where
  "name_invalid_text = ''Room creation failed: Room name length invalid'' @ [LF]"

definition rooms_full_text :: string where
  "rooms_full_text = ''Room creation failed: Maximum number of rooms reached'' @ [LF]"

definition left_suffix :: string where
  "left_suffix = '' left the room'' @ [LF]"

definition entered_suffix :: string where
  "entered_suffix = '' has entered the room'' @ [LF]"

definition bad_number_text :: string where
  "bad_number_text = ''Invalid room number format. Must be a number between 0-49'' @ [LF]"

definition no_room_text :: string where
  "no_room_text = ''Room does not exist'' @ [LF]"

definition room_full_text :: string where
  "room_full_text = ''Cannot join room: Room is full'' @ [LF]"

definition joined_text :: string where
  "joined_text = ''Successfully joined room'' @ [LF]"

definition list_header :: string where
  "list_header = ''=== Available Chat Rooms ==='' @ [LF, LF]"

definition no_rooms_text :: string where
  "no_rooms_text = ''No chat rooms available!'' @ [LF] @
     ''Use the create room command to start your own chat room.'' @ [LF]"

lemma text_lengths:
  "length created_prefix = 27"
  "length name_invalid_text = 47"
  "length rooms_full_text = 54"
  "length left_suffix = 15"
  "length entered_suffix = 22"
  "length bad_number_text = 58"
  "length no_room_text = 20"
  "length room_full_text = 31"
  "length joined_text = 25"
  "length list_header = 30"
  "length no_rooms_text = 82"
  by (simp_all add: created_prefix_def name_invalid_text_def rooms_full_text_def left_suffix_def entered_suffix_def bad_number_text_def no_room_text_def room_full_text_def joined_text_def list_header_def no_rooms_text_def)

section \<open>Operations\<close>

text \<open>\<open>parse_room_number\<close>, on the client's \<open>current_msg\<close>.\<close>

definition parse_room_number :: "string \<Rightarrow> int" where
  "parse_room_number msg =
     (let num = drop 2 msg in
      if \<not> c_isdigit (char_at num 0) then -1
      else if char_at num 1 \<noteq> NUL \<and> (\<not> c_isdigit (char_at num 1) \<or> char_at num 2 \<noteq> NUL) then -1
      else c_atoi num)"

definition broadcast_one :: "string \<Rightarrow> cptr \<Rightarrow> cptr option \<Rightarrow> server \<Rightarrow> server res" where
  "broadcast_one msg p m s =
     (case m of
        None \<Rightarrow> Inr s
      | Some q \<Rightarrow>
          if q \<noteq> p then send_message_to_client (client_fd (client_at s q)) CMD_ROOM_MSG msg s
          else Inr s)"

function broadcast_loop :: "string \<Rightarrow> nat \<Rightarrow> cptr \<Rightarrow> nat \<Rightarrow> server \<Rightarrow> server res" where
  "broadcast_loop msg i p k s =
     (if k < MAX_CLIENTS_ROOM then
        res_bind (broadcast_one msg p (r_clients (room_at s i) k) s) (broadcast_loop msg i p (Suc k))
      else Inr s)"
  by pat_completeness auto
termination
  by (relation "measure (\<lambda>(msg, i, p, k, s). MAX_CLIENTS_ROOM - k)") auto

declare broadcast_loop.simps [simp del]

definition broadcast_message_in_room :: "string \<Rightarrow> nat \<Rightarrow> cptr \<Rightarrow> server \<Rightarrow> server res" where
  "broadcast_message_in_room msg i p s = broadcast_loop msg i p 0 s"

text \<open>The body of the loop of \<open>create_chat_room\<close> when the room is free.\<close>

definition open_room :: "cptr \<Rightarrow> string \<Rightarrow> nat \<Rightarrow> server \<Rightarrow> server" where
  "open_room p name i s =
     upd_client p (\<lambda>c. c\<lparr>room_index := int i, cstate := IN_CHAT_ROOM\<rparr>)
       (upd_room i (\<lambda>r. r\<lparr>r_in_use := True, num_clients := 1, room_name := name,
          r_clients := (r_clients r)(0 := Some p)\<rparr>) s)"

definition found_room :: "cptr \<Rightarrow> string \<Rightarrow> string \<Rightarrow> nat \<Rightarrow> server \<Rightarrow> server res" where
  "found_room p name success i s =
     res_bind (c_store Room_name_buf (MAX_ROOM_NAME_LEN + 1) name) (\<lambda>stored.
     res_bind
       (send_message_to_client (client_fd (client_at s p)) CMD_ROOM_CREATE_OK success
         (open_room p stored i s))
       (\<lambda>t. Inr (emit (Unlock (Room_lock i)) t)))"

function create_loop :: "cptr \<Rightarrow> string \<Rightarrow> string \<Rightarrow> nat \<Rightarrow> server \<Rightarrow> server res" where
  "create_loop p name success i s =
     (if i < MAX_ROOMS then
        (let s1 = emit (Lock (Room_lock i)) s in
         if \<not> r_in_use (room_at s1 i) then found_room p name success i s1
         else create_loop p name success (Suc i) (emit (Unlock (Room_lock i)) s1))
      else
        send_message_to_client (client_fd (client_at s p)) ERR_ROOM_CAPACITY_FULL
          rooms_full_text s)"
  by pat_completeness auto
termination
  by (relation "measure (\<lambda>(p, name, success, i, s). MAX_ROOMS - i)") auto

declare create_loop.simps [simp del]

definition create_chat_room :: "cptr \<Rightarrow> server \<Rightarrow> server res" where
  "create_chat_room p s =
     (let name = drop 2 (current_msg (client_at s p)) in
      res_bind
        (c_store Success_msg MAX_MESSAGE_LEN_FROM_SERVER
          (created_prefix @ name @ [LF]))
        (\<lambda>success.
          if MAX_ROOM_NAME_LEN < length name then
            send_message_to_client (client_fd (client_at s p)) ERR_ROOM_NAME_INVALID
              name_invalid_text s
          else create_loop p name success 0 s))"

text \<open>One line of the room list, and the loop that appends the lines to \<open>room_list_msg\<close>.\<close>

definition room_entry :: "nat \<Rightarrow> room \<Rightarrow> string" where
  "room_entry i r = ''Room '' @ dec_digits i @ '': '' @ room_name r @ [LF]"

function list_loop :: "nat \<Rightarrow> string \<Rightarrow> bool \<Rightarrow> server \<Rightarrow> (string \<times> bool \<times> server) res" where
  "list_loop i acc avail s =
     (if i < MAX_ROOMS then
        (let s1 = emit (Lock (Room_lock i)) s in
         if r_in_use (room_at s1 i) then
           res_bind (c_store Room_entry 100 (room_entry i (room_at s1 i))) (\<lambda>entry.
           res_bind (c_store Room_list_msg MAX_MESSAGE_LEN_FROM_SERVER (acc @ entry)) (\<lambda>acc'.
             list_loop (Suc i) acc' True (emit (Unlock (Room_lock i)) s1)))
         else list_loop (Suc i) acc avail (emit (Unlock (Room_lock i)) s1))
      else Inr (acc, avail, s))"
  by pat_completeness auto
termination
  by (relation "measure (\<lambda>(i, acc, avail, s). MAX_ROOMS - i)") auto

declare list_loop.simps [simp del]

definition send_avail_rooms :: "cptr \<Rightarrow> server \<Rightarrow> server res" where
  "send_avail_rooms p s =
     res_bind (list_loop 0 list_header False s) (\<lambda>(acc, avail, t).
     res_bind
       (if avail then Inr acc
        else c_store Room_list_msg MAX_MESSAGE_LEN_FROM_SERVER (acc @ no_rooms_text))
       (\<lambda>body. send_message_to_client (client_fd (client_at t p)) CMD_ROOM_LIST_RESPONSE body t))"

text \<open>\<open>leave_room\<close>: the caller passes an index it has read from the client.\<close>

definition remove_member :: "cptr \<Rightarrow> nat \<Rightarrow> server \<Rightarrow> server" where
  "remove_member p i s =
     (case first_index (\<lambda>k. r_clients (room_at s i) k = Some p) 0 MAX_CLIENTS_ROOM of
        None \<Rightarrow> s
      | Some k \<Rightarrow>
          upd_room i (\<lambda>r. r\<lparr>r_clients := (r_clients r)(k := None), num_clients := num_clients r - 1\<rparr>) s)"

definition clear_if_empty :: "nat \<Rightarrow> server \<Rightarrow> server" where
  "clear_if_empty i s =
     (if num_clients (room_at s i) = 0 then
        upd_room i (\<lambda>r. r\<lparr>room_name := [], r_clients := (\<lambda>_. None), r_in_use := False\<rparr>) s
      else s)"

definition leave_room :: "cptr \<Rightarrow> int \<Rightarrow> server \<Rightarrow> server res" where
  "leave_room p ri s =
     (if 0 \<le> ri \<and> ri < int MAX_ROOMS then
        (let i = nat ri; s1 = emit (Lock (Room_lock i)) s in
         res_bind
           (c_store Left_msg MAX_MESSAGE_LEN_FROM_SERVER
             (cname (client_at s1 p) @ left_suffix))
           (\<lambda>left_msg.
         res_bind (broadcast_message_in_room left_msg i p (remove_member p i s1))
           (\<lambda>t. Inr (emit (Unlock (Room_lock i)) (clear_if_empty i t)))))
      else Inl (Bad_index ri))"

text \<open>The two updates of a join: the pointer stored in a free place, the client moved.\<close>

definition add_member :: "cptr \<Rightarrow> nat \<Rightarrow> nat \<Rightarrow> server \<Rightarrow> server" where
  "add_member p k i s =
     upd_room i (\<lambda>r. r\<lparr>r_clients := (r_clients r)(k := Some p),
       num_clients := num_clients r + 1\<rparr>) s"

definition move_into :: "cptr \<Rightarrow> nat \<Rightarrow> server \<Rightarrow> server" where
  "move_into p i s = upd_client p (\<lambda>c. c\<lparr>cstate := IN_CHAT_ROOM, room_index := int i\<rparr>) s"

text \<open>The loop of \<open>join_chat_room\<close> that looks for a free place, and the whole function.\<close>

definition enter_room :: "cptr \<Rightarrow> string \<Rightarrow> nat \<Rightarrow> server \<Rightarrow> server res" where
  "enter_room p join_msg i s =
     (case first_index (\<lambda>k. r_clients (room_at s i) k = None) 0 MAX_CLIENTS_ROOM of
        None \<Rightarrow> Inr s
      | Some k \<Rightarrow>
          res_bind
            (broadcast_message_in_room join_msg i p (add_member p k i s))
            (\<lambda>t.
          res_bind
            (send_message_to_client (client_fd (client_at t p)) CMD_ROOM_JOIN_OK
              joined_text t)
            (\<lambda>u. Inr (move_into p i u))))"

definition join_chat_room :: "cptr \<Rightarrow> server \<Rightarrow> server res" where
  "join_chat_room p s =
     res_bind
       (c_store Join_msg MAX_MESSAGE_LEN_FROM_SERVER
         (cname (client_at s p) @ entered_suffix))
       (\<lambda>join_msg.
         let ri = parse_room_number (current_msg (client_at s p)) in
         if ri = -1 \<or> int MAX_ROOMS \<le> ri then
           send_message_to_client (client_fd (client_at s p)) ERR_ROOM_NOT_FOUND
             bad_number_text s
         else if ri < 0 \<or> int MAX_ROOMS \<le> ri then Inl (Bad_index ri)
         else
           let i = nat ri; s1 = emit (Lock (Room_lock i)) s in
           if \<not> r_in_use (room_at s1 i) then
             res_bind
               (send_message_to_client (client_fd (client_at s1 p)) ERR_ROOM_NOT_FOUND
                 no_room_text s1)
               (\<lambda>t. Inr (emit (Unlock (Room_lock i)) t))
           else if num_clients (room_at s1 i) = int MAX_CLIENTS_ROOM then
             res_bind
               (send_message_to_client (client_fd (client_at s1 p)) ERR_ROOM_CAPACITY_FULL
                 room_full_text s1)
               (\<lambda>t. Inr (emit (Unlock (Room_lock i)) t))
           else
             res_bind (enter_room p join_msg i s1)
               (\<lambda>t. Inr (emit (Unlock (Room_lock i)) t)))"

section \<open>What the operations do to the structs\<close>

lemma broadcast_one_only_sends: "res_all (only_sends s) (broadcast_one msg p m s)"
  by (auto simp: broadcast_one_def only_sends_refl send_only_sends split: option.splits)

lemma broadcast_loop_only_sends: "res_all (only_sends s) (broadcast_loop msg i p k s)"
proof (induction msg i p k s rule: broadcast_loop.induct)
  case (1 msg i p k s)
  show ?case
  proof (cases "k < MAX_CLIENTS_ROOM")
    case True
    then show ?thesis
      by (subst broadcast_loop.simps)
        (simp add: sends.keep_bind [OF broadcast_one_only_sends "1.IH" [OF True]])
  next
    case False
    then show ?thesis by (subst broadcast_loop.simps) (simp add: only_sends_refl)
  qed
qed

lemma broadcast_only_sends: "res_all (only_sends s) (broadcast_message_in_room msg i p s)"
  by (simp add: broadcast_message_in_room_def broadcast_loop_only_sends)

lemma broadcast_InrD: "broadcast_message_in_room msg i p s = Inr t \<Longrightarrow> only_sends s t"
  by (rule res_allD [OF broadcast_only_sends])

lemma send_InrD: "send_message_to_client fd cmd m s = Inr t \<Longrightarrow> only_sends s t"
  by (rule res_allD [OF send_only_sends])

text \<open>Who is in a room, in the order of its slots, and who therefore receives a broadcast.\<close>

definition members_of :: "server \<Rightarrow> nat \<Rightarrow> cptr list" where
  "members_of s i = List.map_filter (r_clients (room_at s i)) [0..<MAX_CLIENTS_ROOM]"

definition broadcast_frames :: "string \<Rightarrow> cptr \<Rightarrow> server \<Rightarrow> cptr list \<Rightarrow> (int \<times> string) list" where
  "broadcast_frames msg p s qs =
     map (\<lambda>q. (client_fd (client_at s q), frame CMD_ROOM_MSG msg)) (filter (\<lambda>q. q \<noteq> p) qs)"

lemma broadcast_frames_append [simp]:
  "broadcast_frames msg p s (qs @ rs) = broadcast_frames msg p s qs @ broadcast_frames msg p s rs"
  by (simp add: broadcast_frames_def)

lemma broadcast_frames_state:
  "only_sends s t \<Longrightarrow> broadcast_frames msg p t qs = broadcast_frames msg p s qs"
  by (simp add: broadcast_frames_def only_sends_state)

lemma broadcast_one_frames:
  "broadcast_one msg p m s = Inr t \<Longrightarrow>
   sent_frames (trace t) =
     sent_frames (trace s) @ broadcast_frames msg p s (case m of None \<Rightarrow> [] | Some q \<Rightarrow> [q])"
  by (auto simp: broadcast_one_def broadcast_frames_def split: option.splits if_splits
      dest: res_allD [OF send_frames])

lemma broadcast_loop_frames:
  "broadcast_loop msg i p k s = Inr t \<Longrightarrow>
   sent_frames (trace t) = sent_frames (trace s) @
     broadcast_frames msg p s (List.map_filter (r_clients (room_at s i)) [k..<MAX_CLIENTS_ROOM])"
proof (induction msg i p k s rule: broadcast_loop.induct)
  case (1 msg i p k s)
  show ?case
  proof (cases "k < MAX_CLIENTS_ROOM")
    case True
    with "1.prems" obtain u where
      u: "broadcast_one msg p (r_clients (room_at s i) k) s = Inr u" and
      t: "broadcast_loop msg i p (Suc k) u = Inr t"
      by (subst (asm) broadcast_loop.simps) (auto simp: res_bind_eq_Inr)
    have su: "only_sends s u" by (rule res_allD [OF broadcast_one_only_sends u])
    from True have "[k..<MAX_CLIENTS_ROOM] = k # [Suc k..<MAX_CLIENTS_ROOM]"
      by (simp add: upt_conv_Cons)
    then show ?thesis
      using "1.IH" [OF True u t] broadcast_one_frames [OF u]
      by (simp add: broadcast_frames_state [OF su] only_sends_state [OF su]
          List.map_filter_simps broadcast_frames_def split: option.splits)
  next
    case False
    with "1.prems" show ?thesis
      by (subst (asm) broadcast_loop.simps)
        (simp add: List.map_filter_simps broadcast_frames_def)
  qed
qed

lemma broadcast_one_returns:
  "length msg + 4 < MAX_MESSAGE_LEN_FROM_SERVER \<Longrightarrow> returns (broadcast_one msg p m s)"
  by (auto simp: broadcast_one_def send_returns split: option.splits)

lemma broadcast_loop_returns:
  "length msg + 4 < MAX_MESSAGE_LEN_FROM_SERVER \<Longrightarrow> returns (broadcast_loop msg i p k s)"
proof (induction msg i p k s rule: broadcast_loop.induct)
  case (1 msg i p k s)
  show ?case
  proof (cases "k < MAX_CLIENTS_ROOM")
    case True
    obtain u where u: "broadcast_one msg p (r_clients (room_at s i) k) s = Inr u"
      by (rule returnsE [OF broadcast_one_returns [OF "1.prems"]])
    from "1.IH" [OF True u "1.prems"] True u show ?thesis
      by (subst broadcast_loop.simps) simp
  next
    case False
    then show ?thesis by (subst broadcast_loop.simps) simp
  qed
qed

lemma broadcast_returns:
  "length msg + 4 < MAX_MESSAGE_LEN_FROM_SERVER \<Longrightarrow>
   \<exists>t. broadcast_message_in_room msg i p s = Inr t"
  using broadcast_loop_returns by (simp add: broadcast_message_in_room_def flip: returns_iff)

subsection \<open>Creating\<close>

lemma open_room_structs:
  "same_structs s t \<Longrightarrow> same_structs (open_room p n i s) (open_room p n i t)"
  by (simp add: open_room_def same_structs_upd)

lemma found_room_structs:
  "res_all (same_structs (open_room p name i s)) (found_room p name success i s)"
  unfolding found_room_def
proof (rule structs.keep_bind_value)
  fix stored assume "c_store Room_name_buf (MAX_ROOM_NAME_LEN + 1) name = Inr stored"
  then have "stored = name" by (simp add: c_store_eq_Inr)
  then show "res_all (same_structs (open_room p name i s))
      (res_bind
        (send_message_to_client (client_fd (client_at s p)) CMD_ROOM_CREATE_OK success
          (open_room p stored i s))
        (\<lambda>t. Inr (emit (Unlock (Room_lock i)) t)))"
    by (auto simp: structs.keep_refl intro!: structs.keep_bind
        res_all_mono [OF send_only_sends same_structs_sends])
qed

lemma create_loop_structs:
  "create_loop p name success i s = Inr t \<Longrightarrow>
   (case first_index (\<lambda>j. \<not> r_in_use (room_at s j)) i MAX_ROOMS of
      None \<Rightarrow> same_structs s t
    | Some j \<Rightarrow> same_structs (open_room p name j s) t)"
proof (induction p name success i s rule: create_loop.induct)
  case (1 p name success i s)
  show ?case
  proof (cases "i < MAX_ROOMS")
    case False
    then have "first_index (\<lambda>j. \<not> r_in_use (room_at s j)) i MAX_ROOMS = None"
      by (simp add: first_index_None)
    with 1(2) False show ?thesis
      by (subst (asm) create_loop.simps) (auto dest: send_InrD same_structs_sends)
  next
    case lt: True
    let ?s1 = "emit (Lock (Room_lock i)) s"
    show ?thesis
    proof (cases "r_in_use (room_at s i)")
      case False
      with 1(2) lt have "found_room p name success i ?s1 = Inr t"
        by (subst (asm) create_loop.simps) (simp add: Let_def)
      then have "same_structs (open_room p name i ?s1) t"
        by (rule res_allD [OF found_room_structs])
      moreover have "same_structs (open_room p name i s) (open_room p name i ?s1)"
        by (rule open_room_structs) (simp add: structs.keep_refl)
      ultimately show ?thesis using lt False by (auto intro: structs.keep_trans)
    next
      case True
      let ?s2 = "emit (Unlock (Room_lock i)) ?s1"
      from 1(2) lt True have t: "create_loop p name success (Suc i) ?s2 = Inr t"
        by (subst (asm) create_loop.simps) (simp add: Let_def)
      have "same_structs (open_room p name j s) (open_room p name j ?s2)" for j
        by (rule open_room_structs) (simp add: structs.keep_refl)
      with 1(1) [OF lt refl _ t] True lt show ?thesis
        by (auto simp: first_index_skip split: option.splits intro: structs.keep_trans)
    qed
  qed
qed

lemma create_structs:
  assumes "create_chat_room p s = Inr t"
  shows "same_structs s t \<or>
    (\<exists>i. first_index (\<lambda>j. \<not> r_in_use (room_at s j)) 0 MAX_ROOMS = Some i \<and>
      length (drop 2 (current_msg (client_at s p))) \<le> MAX_ROOM_NAME_LEN \<and>
      same_structs (open_room p (drop 2 (current_msg (client_at s p))) i s) t)"
proof -
  let ?name = "drop 2 (current_msg (client_at s p))"
  from assms consider
      (long) "send_message_to_client (client_fd (client_at s p)) ERR_ROOM_NAME_INVALID name_invalid_text s = Inr t"
    | (loop) success where "length ?name \<le> MAX_ROOM_NAME_LEN"
        "create_loop p ?name success 0 s = Inr t"
    by (auto simp: create_chat_room_def Let_def res_bind_eq_Inr split: if_splits)
  then show ?thesis
  proof cases
    case long
    then show ?thesis by (auto dest: send_InrD same_structs_sends)
  next
    case loop
    with create_loop_structs [OF loop(2)] show ?thesis by (auto split: option.splits)
  qed
qed

subsection \<open>Listing\<close>

lemma list_loop_structs:
  "list_loop i acc avail s = Inr (acc', avail', t) \<Longrightarrow> same_structs s t"
proof (induction i acc avail s rule: list_loop.induct)
  case (1 i acc avail s)
  show ?case
  proof (cases "i < MAX_ROOMS")
    case False
    with 1(3) show ?thesis by (subst (asm) list_loop.simps) (simp add: structs.keep_refl)
  next
    case True
    with 1(3) "1.IH" show ?thesis
      by (subst (asm) list_loop.simps)
        (auto simp: Let_def res_bind_eq_Inr structs.keep_refl split: if_splits)
  qed
qed

lemma send_avail_rooms_structs: "send_avail_rooms p s = Inr t \<Longrightarrow> same_structs s t"
  unfolding send_avail_rooms_def
  by (auto simp: res_bind_eq_Inr intro: structs.keep_trans
      dest!: list_loop_structs send_InrD same_structs_sends)

subsection \<open>Leaving and joining\<close>

lemma remove_member_structs:
  "same_structs s t \<Longrightarrow> same_structs (remove_member p i s) (remove_member p i t)"
  by (auto simp: remove_member_def same_structs_state same_structs_upd split: option.splits)

lemma clear_if_empty_structs:
  "same_structs s t \<Longrightarrow> same_structs (clear_if_empty i s) (clear_if_empty i t)"
  by (auto simp: clear_if_empty_def same_structs_state same_structs_upd)

lemma leave_structs:
  assumes "leave_room p (int i) s = Inr t"
  shows "same_structs (clear_if_empty i (remove_member p i s)) t"
proof -
  let ?s1 = "emit (Lock (Room_lock i)) s"
  from assms obtain m u where
    u: "broadcast_message_in_room m i p (remove_member p i ?s1) = Inr u" and
    t: "t = emit (Unlock (Room_lock i)) (clear_if_empty i u)"
    by (auto simp: leave_room_def Let_def res_bind_eq_Inr split: if_splits)
  have "same_structs (remove_member p i s) (remove_member p i ?s1)"
    by (rule remove_member_structs) (simp add: structs.keep_refl)
  moreover have "same_structs (remove_member p i ?s1) u"
    by (rule same_structs_sends [OF broadcast_InrD [OF u]])
  ultimately have "same_structs (remove_member p i s) u" by (rule structs.keep_trans)
  then show ?thesis by (simp add: t clear_if_empty_structs)
qed

lemma leave_index: "leave_room p ri s = Inr t \<Longrightarrow> 0 \<le> ri \<and> ri < int MAX_ROOMS"
  by (auto simp: leave_room_def split: if_splits)

lemma enter_structs:
  assumes "enter_room p m i s = Inr t"
  shows "case first_index (\<lambda>k. r_clients (room_at s i) k = None) 0 MAX_CLIENTS_ROOM of
      None \<Rightarrow> t = s | Some k \<Rightarrow> same_structs (move_into p i (add_member p k i s)) t"
proof (cases "first_index (\<lambda>k. r_clients (room_at s i) k = None) 0 MAX_CLIENTS_ROOM")
  case None
  with assms show ?thesis by (simp add: enter_room_def)
next
  case (Some k)
  with assms obtain u v where
    u: "broadcast_message_in_room m i p (add_member p k i s) = Inr u" and
    v: "send_message_to_client (client_fd (client_at u p)) CMD_ROOM_JOIN_OK joined_text u = Inr v" and t: "t = move_into p i v"
    by (auto simp: enter_room_def res_bind_eq_Inr)
  have "same_structs (add_member p k i s) v"
    using broadcast_InrD [OF u] send_InrD [OF v]
    by (blast intro: structs.keep_trans same_structs_sends)
  with Some t show ?thesis by (simp add: move_into_def same_structs_upd)
qed

lemma join_structs:
  assumes "join_chat_room p s = Inr t"
  shows "same_structs s t \<or>
    (\<exists>i k. parse_room_number (current_msg (client_at s p)) = int i \<and> i < MAX_ROOMS \<and>
      r_in_use (room_at s i) \<and> num_clients (room_at s i) \<noteq> int MAX_CLIENTS_ROOM \<and>
      first_index (\<lambda>k. r_clients (room_at s i) k = None) 0 MAX_CLIENTS_ROOM = Some k \<and>
      same_structs (move_into p i (add_member p k i s)) t)"
proof -
  let ?ri = "parse_room_number (current_msg (client_at s p))"
  let ?i = "nat ?ri" and ?s1 = "emit (Lock (Room_lock (nat ?ri))) s"
  from assms consider
      (bad) "send_message_to_client (client_fd (client_at s p)) ERR_ROOM_NOT_FOUND
          bad_number_text s = Inr t"
    | (none) u where "send_message_to_client (client_fd (client_at s p)) ERR_ROOM_NOT_FOUND
          no_room_text ?s1 = Inr u" "t = emit (Unlock (Room_lock ?i)) u"
    | (full) u where "send_message_to_client (client_fd (client_at s p)) ERR_ROOM_CAPACITY_FULL
          room_full_text ?s1 = Inr u" "t = emit (Unlock (Room_lock ?i)) u"
    | (enter) m u where "0 \<le> ?ri" "?ri < int MAX_ROOMS" "r_in_use (room_at s ?i)"
        "num_clients (room_at s ?i) \<noteq> int MAX_CLIENTS_ROOM"
        "enter_room p m ?i ?s1 = Inr u" "t = emit (Unlock (Room_lock ?i)) u"
    unfolding join_chat_room_def Let_def res_bind_eq_Inr
    by (auto simp: res_bind_eq_Inr split: if_split_asm)
  then show ?thesis
  proof cases
    case bad
    then show ?thesis by (auto dest!: send_InrD same_structs_sends)
  next
    case none
    then show ?thesis by (auto dest!: send_InrD same_structs_sends)
  next
    case full
    then show ?thesis by (auto dest!: send_InrD same_structs_sends)
  next
    case enter
    note e = enter_structs [OF enter(5)]
    show ?thesis
    proof (cases "first_index (\<lambda>k. r_clients (room_at s ?i) k = None) 0 MAX_CLIENTS_ROOM")
      case None
      with e enter(6) show ?thesis by (simp add: structs.keep_refl)
    next
      case (Some k)
      with e have "same_structs (move_into p ?i (add_member p k ?i ?s1)) u" by simp
      moreover have "same_structs (move_into p ?i (add_member p k ?i s))
          (move_into p ?i (add_member p k ?i ?s1))"
        unfolding move_into_def add_member_def
        by (intro same_structs_upd) (simp add: structs.keep_refl)
      ultimately have "same_structs (move_into p ?i (add_member p k ?i s)) t"
        using enter(6) by (auto intro: structs.keep_trans)
      with Some enter(1-4) show ?thesis
        by (intro disjI2 exI [of _ ?i] exI [of _ k]) auto
    qed
  qed
qed

end
