(* ===== verification/Room_Invariant.thy ===== *)
theory Room_Invariant
  imports Room_Manager
begin

text \<open>
  The invariants of the room table. \<open>rooms_ok\<close> is about each room alone: its count is the number
  of its members, it is in use exactly while it has any, its name fits. \<open>linked\<close> ties the rooms to
  the clients: a stored pointer leads to a client that is in that very room, no client is stored
  twice, and every client that believes to be in a room is stored there. \<open>rooms_ok\<close> survives
  every operation; \<open>linked\<close> survives what the state machine of a client lets it do.
\<close>

section \<open>Each room alone\<close>

definition room_ok :: "room \<Rightarrow> bool" where
  "room_ok r \<longleftrightarrow>
     num_clients r = int (member_count r) \<and>
     r_in_use r = (0 < member_count r) \<and>
     length (room_name r) \<le> MAX_ROOM_NAME_LEN"

definition rooms_ok :: "server \<Rightarrow> bool" where
  "rooms_ok s \<longleftrightarrow> (\<forall>i. i < MAX_ROOMS \<longrightarrow> room_ok (room_at s i))"

definition keeps_rooms :: "server \<Rightarrow> server \<Rightarrow> bool" where
  "keeps_rooms s t \<longleftrightarrow> (rooms_ok s \<longrightarrow> rooms_ok t)"

interpretation rooms: effect_preorder keeps_rooms
  by unfold_locales (simp_all add: keeps_rooms_def)

lemma rooms_okD: "rooms_ok s \<Longrightarrow> i < MAX_ROOMS \<Longrightarrow> room_ok (room_at s i)"
  by (simp add: rooms_ok_def)

lemma rooms_ok_upd_room:
  "rooms_ok s \<Longrightarrow> room_ok (f (room_at s i)) \<Longrightarrow> rooms_ok (upd_room i f s)"
  by (simp add: rooms_ok_def)

lemma rooms_ok_upd_client [simp]: "rooms_ok (upd_client p f s) = rooms_ok s"
  by (simp add: rooms_ok_def)

lemma rooms_ok_upd_worker [simp]: "rooms_ok (upd_worker w f s) = rooms_ok s"
  by (simp add: rooms_ok_def)

lemma rooms_ok_emit [simp]: "rooms_ok (emit a s) = rooms_ok s"
  by (simp add: rooms_ok_def)

lemma rooms_ok_structs: "same_structs s t \<Longrightarrow> rooms_ok t = rooms_ok s"
  by (simp add: rooms_ok_def same_structs_state)

lemma room_ok_zero: "room_ok zero_room"
  by (simp add: room_ok_def member_slots.count_blank)

lemma room_ok_opened:
  assumes "room_ok r" and "\<not> r_in_use r" and "length n \<le> MAX_ROOM_NAME_LEN"
  shows "room_ok (r\<lparr>r_in_use := True, num_clients := 1, room_name := n,
    r_clients := (r_clients r)(0 := Some p)\<rparr>)"
proof -
  from assms(1,2) have zero: "member_count r = 0" by (simp add: room_ok_def)
  then have "r_clients r 0 = None"
    using member_slots.count_zero [of "r_clients r"] sizes_pos(3) by (auto simp: not_non_null)
  then have "slot_count non_null MAX_CLIENTS_ROOM ((r_clients r)(0 := Some p)) = 1"
    using zero member_slots.count_occupy [of 0 "r_clients r" "Some p"] by simp
  with assms(3) show ?thesis by (simp add: room_ok_def)
qed

lemma room_ok_entered:
  assumes "room_ok r" and "r_in_use r" and "k < MAX_CLIENTS_ROOM" and "r_clients r k = None"
  shows "room_ok (r\<lparr>r_clients := (r_clients r)(k := Some p), num_clients := num_clients r + 1\<rparr>)"
proof -
  have "slot_count non_null MAX_CLIENTS_ROOM ((r_clients r)(k := Some p)) =
      Suc (member_count r)"
    using assms(3,4) by (intro member_slots.count_occupy) simp_all
  with assms(1,2) show ?thesis by (simp add: room_ok_def)
qed

text \<open>A room after its member \<open>p\<close> has left: without the pointer, and reset when it was the last.\<close>

definition room_left :: "cptr \<Rightarrow> room \<Rightarrow> room" where
  "room_left p r =
     (let r' = (case first_index (\<lambda>k. r_clients r k = Some p) 0 MAX_CLIENTS_ROOM of
                  None \<Rightarrow> r
                | Some k \<Rightarrow> r\<lparr>r_clients := (r_clients r)(k := None), num_clients := num_clients r - 1\<rparr>)
      in if num_clients r' = 0
         then r'\<lparr>room_name := [], r_clients := (\<lambda>_. None), r_in_use := False\<rparr> else r')"

lemma upd_room_id: "upd_room i (\<lambda>r. r) s = s"
  by (simp add: upd_room_def)

lemma upd_room_upd_room: "upd_room i g (upd_room i f s) = upd_room i (\<lambda>r. g (f r)) s"
  by (simp add: upd_room_def)

lemma upd_room_cong: "f (room_at s i) = g (room_at s i) \<Longrightarrow> upd_room i f s = upd_room i g s"
  by (simp add: upd_room_def room_at_def)

lemma leave_as_update: "clear_if_empty i (remove_member p i s) = upd_room i (room_left p) s"
proof -
  have rm: "remove_member p i s = upd_room i (\<lambda>r.
      case first_index (\<lambda>k. r_clients r k = Some p) 0 MAX_CLIENTS_ROOM of
        None \<Rightarrow> r
      | Some k \<Rightarrow> r\<lparr>r_clients := (r_clients r)(k := None), num_clients := num_clients r - 1\<rparr>) s"
    unfolding remove_member_def
    by (cases "first_index (\<lambda>k. r_clients (room_at s i) k = Some p) 0 MAX_CLIENTS_ROOM")
      (auto simp: upd_room_id intro!: upd_room_cong [of "\<lambda>r. r", unfolded upd_room_id] upd_room_cong)
  have cl: "clear_if_empty i u = upd_room i (\<lambda>r. if num_clients r = 0
      then r\<lparr>room_name := [], r_clients := (\<lambda>_. None), r_in_use := False\<rparr> else r) u" for u
    unfolding clear_if_empty_def
    by (auto intro!: upd_room_cong upd_room_cong [of "\<lambda>r. r", unfolded upd_room_id])
  show ?thesis
    unfolding rm cl upd_room_upd_room by (intro upd_room_cong) (simp only: room_left_def Let_def)
qed

lemma room_ok_left:
  assumes "room_ok r"
  shows "room_ok (room_left p r)"
proof (cases "first_index (\<lambda>k. r_clients r k = Some p) 0 MAX_CLIENTS_ROOM")
  case None
  with assms show ?thesis
    by (auto simp: room_left_def room_ok_def member_slots.count_blank)
next
  case (Some k)
  let ?f = "(r_clients r)(k := None)"
  from Some have k: "k < MAX_CLIENTS_ROOM" "r_clients r k = Some p"
    using first_index_bound by fastforce+
  have c: "Suc (slot_count non_null MAX_CLIENTS_ROOM ?f) = member_count r"
    using k by (intro member_slots.count_release) simp_all
  with assms have n: "num_clients r - 1 = int (slot_count non_null MAX_CLIENTS_ROOM ?f)"
    by (simp add: room_ok_def)
  show ?thesis
  proof (cases "slot_count non_null MAX_CLIENTS_ROOM ?f = 0")
    case True
    with n Some show ?thesis
      by (simp add: room_left_def room_ok_def member_slots.count_blank)
  next
    case False
    with n c Some assms show ?thesis by (simp add: room_left_def room_ok_def)
  qed
qed

lemma create_keeps_rooms: "res_all (keeps_rooms s) (create_chat_room p s)"
proof (rule res_allI)
  fix t assume "create_chat_room p s = Inr t"
  from create_structs [OF this] show "keeps_rooms s t"
  proof (elim disjE exE conjE)
    fix i
    assume i: "first_index (\<lambda>j. \<not> r_in_use (room_at s j)) 0 MAX_ROOMS = Some i"
      and n: "length (drop 2 (current_msg (client_at s p))) \<le> MAX_ROOM_NAME_LEN"
      and t: "same_structs (open_room p (drop 2 (current_msg (client_at s p))) i s) t"
    from first_index_bound [OF i] n show ?thesis
      unfolding keeps_rooms_def rooms_ok_structs [OF t] open_room_def
      by (auto intro!: rooms_ok_upd_room room_ok_opened simp: rooms_okD)
  qed (simp add: keeps_rooms_def rooms_ok_structs)
qed

lemma join_keeps_rooms: "res_all (keeps_rooms s) (join_chat_room p s)"
proof (rule res_allI)
  fix t assume "join_chat_room p s = Inr t"
  from join_structs [OF this] show "keeps_rooms s t"
  proof (elim disjE exE conjE)
    fix i k
    assume i: "i < MAX_ROOMS" "r_in_use (room_at s i)"
      and k: "first_index (\<lambda>k. r_clients (room_at s i) k = None) 0 MAX_CLIENTS_ROOM = Some k"
      and t: "same_structs (move_into p i (add_member p k i s)) t"
    from first_index_bound [OF k] i show ?thesis
      unfolding keeps_rooms_def rooms_ok_structs [OF t] move_into_def add_member_def
      by (auto intro!: rooms_ok_upd_room room_ok_entered simp: rooms_okD)
  qed (simp add: keeps_rooms_def rooms_ok_structs)
qed

lemma leave_keeps_rooms: "res_all (keeps_rooms s) (leave_room p ri s)"
proof (rule res_allI)
  fix t assume t: "leave_room p ri s = Inr t"
  from leave_index [OF t] obtain i where ri: "ri = int i" "i < MAX_ROOMS"
    by (metis nat_0_le of_nat_less_iff)
  have "same_structs (upd_room i (room_left p) s) t"
    using leave_structs [of p i s t] t ri by (simp add: leave_as_update)
  then show "keeps_rooms s t"
    using ri by (auto simp: keeps_rooms_def rooms_ok_structs rooms_okD
        intro!: rooms_ok_upd_room room_ok_left)
qed

lemma list_keeps_rooms: "res_all (keeps_rooms s) (send_avail_rooms p s)"
  by (rule res_allI) (auto simp: keeps_rooms_def dest: rooms_ok_structs [OF send_avail_rooms_structs])

section \<open>Rooms and clients\<close>

definition sits :: "server \<Rightarrow> nat \<Rightarrow> nat \<Rightarrow> cptr \<Rightarrow> bool" where
  "sits s i k p \<longleftrightarrow> i < MAX_ROOMS \<and> k < MAX_CLIENTS_ROOM \<and> r_clients (room_at s i) k = Some p"

definition linked :: "server \<Rightarrow> bool" where
  "linked s \<longleftrightarrow>
     (\<forall>i k p. sits s i k p \<longrightarrow>
        c_in_use (client_at s p) \<and> cstate (client_at s p) = IN_CHAT_ROOM \<and>
        room_index (client_at s p) = int i) \<and>
     (\<forall>i k k' p. sits s i k p \<longrightarrow> sits s i k' p \<longrightarrow> k = k') \<and>
     (\<forall>p. cstate (client_at s p) = IN_CHAT_ROOM \<longrightarrow> (\<exists>i k. sits s i k p))"

lemma linked_sits:
  assumes "linked s" and "sits s i k p"
  shows "c_in_use (client_at s p)" "cstate (client_at s p) = IN_CHAT_ROOM"
    "room_index (client_at s p) = int i"
  using assms by (auto simp: linked_def)

lemma linked_slot: "linked s \<Longrightarrow> sits s i k p \<Longrightarrow> sits s i k' p \<Longrightarrow> k = k'"
  unfolding linked_def by blast

lemma linked_stored: "linked s \<Longrightarrow> cstate (client_at s p) = IN_CHAT_ROOM \<Longrightarrow> \<exists>i k. sits s i k p"
  unfolding linked_def by blast

lemma linkedI:
  assumes "\<And>i k p. sits s i k p \<Longrightarrow> c_in_use (client_at s p) \<and>
      cstate (client_at s p) = IN_CHAT_ROOM \<and> room_index (client_at s p) = int i"
    and "\<And>i k k' p. sits s i k p \<Longrightarrow> sits s i k' p \<Longrightarrow> k = k'"
    and "\<And>p. cstate (client_at s p) = IN_CHAT_ROOM \<Longrightarrow> \<exists>i k. sits s i k p"
  shows "linked s"
  using assms unfolding linked_def by blast

lemma linked_unique: "linked s \<Longrightarrow> sits s i k p \<Longrightarrow> sits s j l p \<Longrightarrow> i = j \<and> k = l"
proof -
  assume l: "linked s" and ik: "sits s i k p" and jl: "sits s j l p"
  have "int i = int j" using linked_sits(3) [OF l ik] linked_sits(3) [OF l jl] by simp
  then have "i = j" by simp
  moreover from l ik jl have "k = l" unfolding linked_def \<open>i = j\<close> by blast
  ultimately show ?thesis by simp
qed

lemma linked_in_room:
  assumes "linked s" and "cstate (client_at s p) = IN_CHAT_ROOM"
  obtains i k where "sits s i k p" "room_index (client_at s p) = int i" "i < MAX_ROOMS"
proof -
  from linked_stored [OF assms] obtain i k where ik: "sits s i k p" by blast
  then have "i < MAX_ROOMS" by (simp add: sits_def)
  with ik linked_sits(3) [OF assms(1) ik] show thesis by (rule that)
qed

lemma sits_structs: "same_structs s t \<Longrightarrow> sits t = sits s"
  by (intro ext) (simp add: sits_def same_structs_state)

lemma linked_structs: "same_structs s t \<Longrightarrow> linked t = linked s"
  by (simp add: linked_def sits_structs same_structs_state)

lemma sits_upd_client [simp]: "sits (upd_client q f s) i k p = sits s i k p"
  by (simp add: sits_def)

lemma sits_upd_room:
  "sits (upd_room j f s) i k p =
     (if i = j then j < MAX_ROOMS \<and> k < MAX_CLIENTS_ROOM \<and> r_clients (f (room_at s j)) k = Some p
      else sits s i k p)"
  by (auto simp: sits_def)

text \<open>A client that is in no room can be changed freely while it stays out of rooms.\<close>

lemma linked_upd_client:
  assumes "linked s" and "cstate (client_at s p) \<noteq> IN_CHAT_ROOM"
    and "cstate (f (client_at s p)) \<noteq> IN_CHAT_ROOM"
  shows "linked (upd_client p f s)"
  using assms unfolding linked_def by (auto; blast)

text \<open>A change that touches neither the state, the room, nor the use of a client.\<close>

lemma linked_upd_fields:
  assumes "linked s" and "cstate (f (client_at s p)) = cstate (client_at s p)"
    and "room_index (f (client_at s p)) = room_index (client_at s p)"
    and "c_in_use (f (client_at s p)) = c_in_use (client_at s p)"
  shows "linked (upd_client p f s)"
  using assms unfolding linked_def by (simp split: if_splits)

lemma linked_enter:
  assumes "linked s" and i: "i < MAX_ROOMS" and k: "k < MAX_CLIENTS_ROOM"
    and free: "r_clients (room_at s i) k = None"
    and out: "cstate (client_at s p) \<noteq> IN_CHAT_ROOM" and used: "c_in_use (client_at s p)"
    and r: "r_clients (g (room_at s i)) = (r_clients (room_at s i))(k := Some p)"
    and c: "cstate (f (client_at s p)) = IN_CHAT_ROOM" "room_index (f (client_at s p)) = int i"
      "c_in_use (f (client_at s p)) = c_in_use (client_at s p)"
  shows "linked (upd_client p f (upd_room i g s))"
proof -
  let ?t = "upd_client p f (upd_room i g s)"
  have "\<not> sits s i k q" for q using free by (simp add: sits_def)
  then have sits: "sits ?t j l q \<longleftrightarrow> (j = i \<and> l = k \<and> q = p) \<or> sits s j l q" for j l q
    using i k r by (auto simp: sits_upd_room sits_def)
  have new: "\<not> sits s j l p" for j l
    using linked_sits(2) [OF assms(1)] out by blast
  show ?thesis
  proof (rule linkedI)
    fix j l q assume "sits ?t j l q"
    then consider "j = i" "q = p" | "sits s j l q" "q \<noteq> p" using sits new by blast
    then show "c_in_use (client_at ?t q) \<and> cstate (client_at ?t q) = IN_CHAT_ROOM \<and>
        room_index (client_at ?t q) = int j"
    proof cases
      case 1
      with c used show ?thesis by simp
    next
      case 2
      with linked_sits [OF assms(1) 2(1)] show ?thesis by simp
    qed
  next
    fix j l l' q assume "sits ?t j l q" "sits ?t j l' q"
    then show "l = l'"
      using sits [of j l q] sits [of j l' q] new [of j l] new [of j l']
        linked_slot [OF assms(1), of j l q l'] by auto
  next
    fix q assume "cstate (client_at ?t q) = IN_CHAT_ROOM"
    then show "\<exists>j l. sits ?t j l q"
      using sits linked_stored [OF assms(1), of q] by (cases "q = p") auto
  qed
qed

text \<open>Leaving takes \<open>p\<close> out of its place and nobody else.\<close>

lemma sits_left:
  assumes l: "linked s" and ok: "rooms_ok s" and s: "sits s i k p"
  shows "sits (upd_room i (room_left p) s) j m q \<longleftrightarrow> sits s j m q \<and> q \<noteq> p"
proof -
  let ?r = "room_at s i" and ?t = "upd_room i (room_left p) s"
  from s have i: "i < MAX_ROOMS" and k: "k < MAX_CLIENTS_ROOM" "r_clients ?r k = Some p"
    by (simp_all add: sits_def)
  have fi: "first_index (\<lambda>k. r_clients ?r k = Some p) 0 MAX_CLIENTS_ROOM = Some k"
    unfolding first_index_Some
  proof (intro conjI allI impI notI)
    fix m assume "m < k" "r_clients ?r m = Some p"
    then have "sits s i m p" using i k by (simp add: sits_def)
    then show False using linked_unique [OF l s, of i m] \<open>m < k\<close> by simp
  qed (use k in simp_all)
  let ?f = "(r_clients ?r)(k := None)"
  have cnt: "Suc (slot_count non_null MAX_CLIENTS_ROOM ?f) = member_count ?r"
    using k by (intro member_slots.count_release) simp_all
  have n: "num_clients ?r - 1 = int (slot_count non_null MAX_CLIENTS_ROOM ?f)"
    using rooms_okD [OF ok i] cnt by (simp add: room_ok_def)
  have members: "r_clients (room_left p ?r) m = ?f m" if "m < MAX_CLIENTS_ROOM" for m
  proof (cases "slot_count non_null MAX_CLIENTS_ROOM ?f = 0")
    case True
    with that have "\<not> non_null (?f m)" using member_slots.count_zero [of ?f] by blast
    then have "?f m = None" by (simp only: not_non_null)
    moreover have "r_clients (room_left p ?r) m = None" using True n fi by (simp add: room_left_def)
    ultimately show ?thesis by (simp only:)
  next
    case False
    with n fi show ?thesis by (simp add: room_left_def)
  qed
  show ?thesis
  proof (cases "j = i")
    case False
    then have "\<not> sits s j m p" using linked_unique [OF l s, of j m] by auto
    with False show ?thesis by (auto simp: sits_upd_room)
  next
    case True
    have "sits s i m p \<Longrightarrow> m = k" using linked_unique [OF l s, of i m] by simp
    moreover have "sits s i k q \<Longrightarrow> q = p" using k by (simp add: sits_def)
    moreover have "sits ?t i m q \<longleftrightarrow> sits s i m q \<and> m \<noteq> k"
      using i members [of m] by (simp add: sits_upd_room sits_def) auto
    ultimately show ?thesis using True by blast
  qed
qed

lemma linked_leave:
  assumes l: "linked s" and ok: "rooms_ok s" and s: "sits s i k p"
    and c: "cstate (f (client_at s p)) \<noteq> IN_CHAT_ROOM"
  shows "linked (upd_client p f (upd_room i (room_left p) s))"
proof -
  let ?t = "upd_client p f (upd_room i (room_left p) s)"
  have sits: "sits ?t j m q \<longleftrightarrow> sits s j m q \<and> q \<noteq> p" for j m q
    using sits_left [OF l ok s] by simp
  show ?thesis
  proof (rule linkedI)
    fix j m q assume "sits ?t j m q"
    then have "sits s j m q" "q \<noteq> p" using sits by simp_all
    then show "c_in_use (client_at ?t q) \<and> cstate (client_at ?t q) = IN_CHAT_ROOM \<and>
        room_index (client_at ?t q) = int j"
      using linked_sits [OF l] by simp
  next
    fix j m m' q assume "sits ?t j m q" "sits ?t j m' q"
    then show "m = m'" using sits linked_slot [OF l, of j m q m'] by simp
  next
    fix q assume q: "cstate (client_at ?t q) = IN_CHAT_ROOM"
    with c have "q \<noteq> p" by auto
    with q show "\<exists>j m. sits ?t j m q" using sits linked_stored [OF l, of q] by auto
  qed
qed

end
