(* ===== verification/Room_Locks.thy ===== *)
theory Room_Locks
  imports Room_Invariant
begin

text \<open>
  The room operations keep the lock discipline: each starts and ends without a lock, holds one
  room's mutex at a time, and sends everything that concerns a room while it holds that mutex.
\<close>

lemma remove_member_trace [simp]: "trace (remove_member p i s) = trace s"
  by (simp add: remove_member_def split: option.splits)

lemma clear_if_empty_trace [simp]: "trace (clear_if_empty i s) = trace s"
  by (simp add: clear_if_empty_def)

lemma room_update_trace [simp]:
  "trace (open_room p n i s) = trace s" "trace (add_member p k i s) = trace s"
  "trace (move_into p i s) = trace s"
  by (simp_all add: open_room_def add_member_def move_into_def)

lemma create_loop_balanced: "create_loop p name success i s = Inr t \<Longrightarrow> balanced s t"
proof (induction p name success i s rule: create_loop.induct)
  case (1 p name success i s)
  show ?case
  proof (cases "i < MAX_ROOMS")
    case False
    with 1(2) show ?thesis
      by (subst (asm) create_loop.simps) (auto dest: send_InrD balanced_sends)
  next
    case lt: True
    let ?s1 = "emit (Lock (Room_lock i)) s"
    show ?thesis
    proof (cases "r_in_use (room_at s i)")
      case False
      with 1(2) lt obtain n u where
        "send_message_to_client (client_fd (client_at ?s1 p)) CMD_ROOM_CREATE_OK success
          (open_room p n i ?s1) = Inr u" "t = emit (Unlock (Room_lock i)) u"
        by (subst (asm) create_loop.simps) (auto simp: Let_def found_room_def res_bind_eq_Inr)
      then show ?thesis by (simp add: section_send)
    next
      case True
      let ?s2 = "emit (Unlock (Room_lock i)) ?s1"
      from 1(2) lt True have "create_loop p name success (Suc i) ?s2 = Inr t"
        by (subst (asm) create_loop.simps) (simp add: Let_def)
      with 1(1) [OF lt refl] True have "balanced ?s2 t" by simp
      with section_empty show ?thesis by (rule locks.keep_trans)
    qed
  qed
qed

lemma create_balanced: "res_all (balanced s) (create_chat_room p s)"
  by (rule res_allI)
    (auto simp: create_chat_room_def Let_def res_bind_eq_Inr split: if_splits
      dest: create_loop_balanced send_InrD balanced_sends)

lemma list_loop_balanced: "list_loop i acc avail s = Inr (acc', avail', t) \<Longrightarrow> balanced s t"
proof (induction i acc avail s rule: list_loop.induct)
  case (1 i acc avail s)
  show ?case
  proof (cases "i < MAX_ROOMS")
    case False
    with 1(3) show ?thesis by (subst (asm) list_loop.simps) (simp add: locks.keep_refl)
  next
    case True
    let ?s2 = "emit (Unlock (Room_lock i)) (emit (Lock (Room_lock i)) s)"
    from 1(3) True "1.IH" have "balanced ?s2 t"
      by (subst (asm) list_loop.simps) (auto simp: Let_def res_bind_eq_Inr split: if_splits)
    with section_empty show ?thesis by (rule locks.keep_trans)
  qed
qed

lemma send_avail_rooms_balanced: "res_all (balanced s) (send_avail_rooms p s)"
  unfolding send_avail_rooms_def
  by (rule res_allI) (auto simp: res_bind_eq_Inr intro: locks.keep_trans
      dest!: list_loop_balanced send_InrD balanced_sends)

lemma leave_balanced: "res_all (balanced s) (leave_room p ri s)"
proof (rule res_allI)
  fix t assume t: "leave_room p ri s = Inr t"
  let ?s1 = "emit (Lock (Room_lock (nat ri))) s"
  from t obtain m u where
    b: "broadcast_message_in_room m (nat ri) p (remove_member p (nat ri) ?s1) = Inr u" and
    u: "t = emit (Unlock (Room_lock (nat ri))) (clear_if_empty (nat ri) u)"
    by (auto simp: leave_room_def Let_def res_bind_eq_Inr split: if_splits)
  show "balanced s t"
    unfolding u by (rule section_sends [OF _ broadcast_InrD [OF b]]) simp_all
qed

lemma enter_sends:
  assumes "enter_room p m i s = Inr t"
  shows "\<exists>u v. trace u = trace s \<and> only_sends u v \<and> trace t = trace v"
proof (cases "first_index (\<lambda>k. r_clients (room_at s i) k = None) 0 MAX_CLIENTS_ROOM")
  case None
  with assms show ?thesis by (auto simp: enter_room_def intro: only_sends_refl)
next
  case (Some k)
  with assms obtain u v where
    u: "broadcast_message_in_room m i p (add_member p k i s) = Inr u" and
    v: "send_message_to_client (client_fd (client_at u p)) CMD_ROOM_JOIN_OK joined_text u = Inr v"
    and t: "t = move_into p i v"
    by (auto simp: enter_room_def res_bind_eq_Inr)
  from broadcast_InrD [OF u] send_InrD [OF v] have "only_sends (add_member p k i s) v"
    by (rule sends.keep_trans)
  with t show ?thesis by (metis room_update_trace(2,3))
qed

lemma join_balanced: "res_all (balanced s) (join_chat_room p s)"
proof (rule res_allI)
  fix t assume t: "join_chat_room p s = Inr t"
  let ?ri = "parse_room_number (current_msg (client_at s p))"
  let ?i = "nat ?ri"
  let ?s1 = "emit (Lock (Room_lock ?i)) s"
  from t consider
      (bad) "send_message_to_client (client_fd (client_at s p)) ERR_ROOM_NOT_FOUND
          bad_number_text s = Inr t"
    | (reply) code msg u where "send_message_to_client (client_fd (client_at s p)) code msg ?s1 = Inr u"
        "t = emit (Unlock (Room_lock ?i)) u"
    | (enter) m u where "enter_room p m ?i ?s1 = Inr u" "t = emit (Unlock (Room_lock ?i)) u"
    unfolding join_chat_room_def Let_def res_bind_eq_Inr
    by (auto simp: res_bind_eq_Inr split: if_split_asm)
  then show "balanced s t"
  proof cases
    case bad
    then show ?thesis by (auto dest: send_InrD balanced_sends)
  next
    case reply
    then show ?thesis by (simp add: section_send)
  next
    case enter
    from enter_sends [OF enter(1)] obtain v w where
      "trace v = trace s @ [Lock (Room_lock ?i)]" "only_sends v w" "trace u = trace w" by auto
    from section_sends [OF this] enter(2) show ?thesis by simp
  qed
qed

end
