(* ===== verification/Client_State.thy ===== *)
theory Client_State
  imports Room_Locks
begin

text \<open>
  \<open>server/client_state_manager.c\<close>: the bytes of a client are cut into messages, each message is
  checked against the format and against the client's state, and dispatched to a handler. The
  thread that runs these functions for a client is the one that owns its slot, so the
  \<open>thread_context\<close> argument of the sources is \<open>owner p\<close>.
\<close>

section \<open>The texts\<close>

definition format_text :: string where
  "format_text = ''[command char][space][message content][MSG_TERMINATOR]'' @ [LF]"

definition too_short_text :: string where
  "too_short_text = ''Message too short'' @ [LF] @ ''Correct format:'' @ format_text"
definition too_long_text :: string where
  "too_long_text = ''Invalid Foramt: Message too long'' @ [LF] @ ''Correct format:'' @ format_text"
definition no_space_text :: string where
  "no_space_text = ''Missing space after command.'' @ [LF] @ ''Correct format: '' @ format_text"
definition bad_command_text :: string where
  "bad_command_text = ''Command not found'' @ [LF] @ ''Correct format: '' @ format_text"
definition empty_text :: string where
  "empty_text = ''Content is Empty'' @ [LF] @ ''Correct format: '' @ format_text"

definition awaiting_error_text :: string where
  "awaiting_error_text = ''CMD not correct for client in awaiting username state'' @ [LF]"
definition lobby_error_text :: string where
  "lobby_error_text = ''Invalid command for lobby state'' @ [LF]"
definition room_error_text :: string where
  "room_error_text = ''Invalid command for in chat room state'' @ [LF]"

definition username_long_text :: string where
  "username_long_text = CHR 0x1B # ''[32mUser name too long, must be less than 32'' @ [LF]"
definition left_ok_text :: string where
  "left_ok_text = ''You have left the room'' @ [LF]"

lemma reply_text_lengths:
  "length too_short_text \<le> 150" "length too_long_text \<le> 150" "length no_space_text \<le> 150"
  "length bad_command_text \<le> 150" "length empty_text \<le> 150" "length awaiting_error_text \<le> 150"
  "length lobby_error_text \<le> 150" "length room_error_text \<le> 150"
  "length username_long_text \<le> 150" "length left_ok_text \<le> 150"
  by (simp_all add: format_text_def too_short_text_def too_long_text_def no_space_text_def
      bad_command_text_def empty_text_def awaiting_error_text_def lobby_error_text_def
      room_error_text_def username_long_text_def left_ok_text_def)

section \<open>Checking a message\<close>

text \<open>The tests of \<open>validate_msg_format\<close> in their order: the code and the text of the first that
  fails.\<close>

definition format_error :: "string \<Rightarrow> (char \<times> string) option" where
  "format_error msg =
     (if length msg < 3 then Some (ERR_PROTOCOL_INVALID_FORMAT, too_short_text)
      else if MAX_CONTENT_LEN < length (drop 2 msg) then
        Some (ERR_PROTOCOL_INVALID_FORMAT, too_long_text)
      else if char_at msg 1 \<noteq> SPACE then Some (ERR_PROTOCOL_INVALID_FORMAT, no_space_text)
      else if char_val (char_at msg 0) < char_val CMD_EXIT \<or>
              char_val CMD_ROOM_MESSAGE_SEND < char_val (char_at msg 0) then
        Some (ERR_PROTOCOL_INVALID_FORMAT, bad_command_text)
      else if dropWhile (\<lambda>c. c = SPACE) (drop 2 msg) = [] then
        Some (ERR_MSG_EMPTY_CONTENT, empty_text)
      else None)"

definition validate_msg_format :: "cptr \<Rightarrow> server \<Rightarrow> (bool \<times> server) res" where
  "validate_msg_format p s =
     (case format_error (current_msg (client_at s p)) of
        None \<Rightarrow> Inr (True, s)
      | Some (code, text) \<Rightarrow>
          res_bind (send_message_to_client (client_fd (client_at s p)) code text s)
            (\<lambda>t. Inr (False, t)))"

definition state_error :: "client_state \<Rightarrow> char \<Rightarrow> string option" where
  "state_error st command =
     (if command = CMD_EXIT then None
      else if st = AWAITING_USERNAME \<and> command \<noteq> CMD_USERNAME_SUBMIT then Some awaiting_error_text
      else if st = IN_CHAT_LOBBY \<and> (command \<noteq> CMD_ROOM_CREATE_REQUEST \<and>
          command \<noteq> CMD_ROOM_JOIN_REQUEST \<and> command \<noteq> CMD_ROOM_LIST_REQUEST) then
        Some lobby_error_text
      else if st = IN_CHAT_ROOM \<and> (command \<noteq> CMD_ROOM_MESSAGE_SEND \<and> command \<noteq> CMD_LEAVE_ROOM) then
        Some room_error_text
      else None)"

definition command_valid_for_state :: "cptr \<Rightarrow> server \<Rightarrow> (bool \<times> server) res" where
  "command_valid_for_state p s =
     (let c = client_at s p in
      case state_error (cstate c) (char_at (current_msg c) 0) of
        None \<Rightarrow> Inr (True, s)
      | Some text \<Rightarrow>
          res_bind (send_message_to_client (client_fd c) ERR_PROTOCOL_INVALID_STATE_CMD text s)
            (\<lambda>t. Inr (False, t)))"

section \<open>Handlers\<close>

definition handle_awaiting_username :: "cptr \<Rightarrow> server \<Rightarrow> server res" where
  "handle_awaiting_username p s =
     (let c = client_at s p; name = drop 2 (current_msg c) in
      if MAX_USERNAME_LEN < length name then
        send_message_to_client (client_fd c) ERR_USERNAME_LENGTH username_long_text s
      else
        res_bind (c_store Client_name (MAX_USERNAME_LEN + 1) name) (\<lambda>stored.
          send_avail_rooms p
            (upd_client p (\<lambda>c. c\<lparr>cname := stored, cstate := IN_CHAT_LOBBY\<rparr>) s)))"

definition handle_in_chat_lobby :: "cptr \<Rightarrow> server \<Rightarrow> server res" where
  "handle_in_chat_lobby p s =
     (let command = char_at (current_msg (client_at s p)) 0 in
      if command = CMD_ROOM_CREATE_REQUEST then create_chat_room p s
      else if command = CMD_ROOM_JOIN_REQUEST then join_chat_room p s
      else if command = CMD_ROOM_LIST_REQUEST then send_avail_rooms p s
      else Inr s)"

text \<open>The index a client carries is used on \<open>SERVER_ROOMS\<close> without a test.\<close>

definition handle_in_chat_room :: "cptr \<Rightarrow> server \<Rightarrow> server res" where
  "handle_in_chat_room p s =
     (let c = client_at s p; ri = room_index c; i = nat ri in
      if char_at (current_msg c) 0 = CMD_ROOM_MESSAGE_SEND then
        res_bind
          (c_store Chat_msg MAX_MESSAGE_LEN_FROM_SERVER
            (cname c @ '': '' @ drop 2 (current_msg c)))
          (\<lambda>msg.
            if 0 \<le> ri \<and> ri < int MAX_ROOMS then
              res_bind (broadcast_message_in_room msg i p (emit (Lock (Room_lock i)) s))
                (\<lambda>t. Inr (emit (Unlock (Room_lock i)) t))
            else Inl (Bad_index ri))
      else
        res_bind
          (c_store Chat_msg MAX_MESSAGE_LEN_FROM_SERVER (cname c @ '' has left the room''))
          (\<lambda>_. res_bind (leave_room p ri s) (\<lambda>t.
        res_bind
          (send_message_to_client (client_fd (client_at t p)) CMD_ROOM_LEAVE_OK left_ok_text
            (emit (Lock (Room_lock i)) t))
          (\<lambda>u. Inr (upd_client p (\<lambda>c. c\<lparr>cstate := IN_CHAT_LOBBY\<rparr>)
            (emit (Unlock (Room_lock i)) u))))))"

section \<open>Disconnection\<close>

text \<open>The critical section that takes one off the client count, as three functions contain it.\<close>

definition decrement_clients :: "nat \<Rightarrow> server \<Rightarrow> server" where
  "decrement_clients w s =
     emit (Unlock (Count_lock w))
       (upd_worker w (\<lambda>t. t\<lparr>num_of_clients := num_of_clients t - 1\<rparr>)
         (emit (Lock (Count_lock w)) s))"

definition cleanup_client :: "cptr \<Rightarrow> server \<Rightarrow> server" where
  "cleanup_client p s =
     (let w = owner p; fd = client_fd (client_at s p);
          s1 = emit (Epoll_del (epoll_fd (worker_at s w)) fd)
                 (upd_worker w (\<lambda>t. t\<lparr>epoll_set := epoll_set t - {fd}\<rparr>) s);
          s2 = upd_client p (\<lambda>_. zero_client) (emit (Close fd) s1)
      in decrement_clients w s2)"

lemmas cleanup_unfold = cleanup_client_def decrement_clients_def Let_def

definition handle_client_disconnection :: "cptr \<Rightarrow> server \<Rightarrow> server res" where
  "handle_client_disconnection p s =
     (if cstate (client_at s p) = IN_CHAT_ROOM then
        res_bind (leave_room p (room_index (client_at s p)) s) (\<lambda>t. Inr (cleanup_client p t))
      else Inr (cleanup_client p s))"

section \<open>Routing and reading\<close>

definition dispatch :: "cptr \<Rightarrow> server \<Rightarrow> server res" where
  "dispatch p s =
     (if char_at (current_msg (client_at s p)) 0 = CMD_EXIT then handle_client_disconnection p s
      else (case cstate (client_at s p) of
              AWAITING_USERNAME \<Rightarrow> handle_awaiting_username p s
            | IN_CHAT_LOBBY \<Rightarrow> handle_in_chat_lobby p s
            | IN_CHAT_ROOM \<Rightarrow> handle_in_chat_room p s))"

definition route_client_command :: "cptr \<Rightarrow> server \<Rightarrow> server res" where
  "route_client_command p s =
     res_bind (validate_msg_format p s) (\<lambda>(valid, t).
       if \<not> valid then Inr t
       else res_bind (command_valid_for_state p t) (\<lambda>(allowed, u).
         if \<not> allowed then Inr u else dispatch p u))"

definition append_msg :: "cptr \<Rightarrow> string \<Rightarrow> server \<Rightarrow> server res" where
  "append_msg p str s =
     res_bind
       (c_store Current_msg (MAX_MESSAGE_LEN_TO_SERVER * 3) (current_msg (client_at s p) @ str))
       (\<lambda>m. Inr (upd_client p (\<lambda>c. c\<lparr>current_msg := m\<rparr>) s))"

definition clear_msg :: "cptr \<Rightarrow> server \<Rightarrow> server" where
  "clear_msg p s = upd_client p (\<lambda>c. c\<lparr>current_msg := []\<rparr>) s"

text \<open>The \<open>while\<close> loop over the read buffer, and the partial message that is left.\<close>

function process_messages :: "cptr \<Rightarrow> string \<Rightarrow> server \<Rightarrow> server res" where
  "process_messages p temp s =
     (case split_crlf temp of
        None \<Rightarrow> if temp \<noteq> [] then append_msg p temp s else Inr s
      | Some (seg, rest) \<Rightarrow>
          res_bind (append_msg p seg s) (\<lambda>s1.
          res_bind (route_client_command p s1) (\<lambda>s2.
            process_messages p rest (clear_msg p s2))))"
  by pat_completeness auto
termination
  by (relation "measure (\<lambda>(p, temp, s). length temp)") (auto dest: split_crlf_length)

declare process_messages.simps [simp del]

text \<open>
  What \<open>recv\<close> returns: bytes, at most the 132 asked for, or a value that is not positive. In the
  second case the code looks at \<open>errno\<close>, also when the value is 0 (the peer closed the
  connection) and \<open>errno\<close> is a leftover of an earlier call; the flag says whether it reads
  \<open>EAGAIN\<close> or \<open>EWOULDBLOCK\<close>.
\<close>

datatype recv_result = Received string | Recv_nonpositive bool

definition read_and_process_client_message :: "cptr \<Rightarrow> recv_result \<Rightarrow> server \<Rightarrow> server res" where
  "read_and_process_client_message p r s =
     (case r of
        Recv_nonpositive again \<Rightarrow> if again then Inr s else handle_client_disconnection p s
      | Received bytes \<Rightarrow> process_messages p (cstr (take MAX_MESSAGE_LEN_TO_SERVER bytes)) s)"

end
