(* ===== verification/Room_Listing.thy ===== *)
theory Room_Listing
  imports Room_Invariant
begin

text \<open>
  The room list of \<open>send_avail_rooms\<close> and the buffers it passes through. The list is what the
  header announces, one line per room in use in index order; the two 1456-byte buffers hold it as
  long as it has at most 1451 characters, which the limits of the protocol do not guarantee.
\<close>

definition room_line :: "server \<Rightarrow> nat \<Rightarrow> string" where
  "room_line s i = (if r_in_use (room_at s i) then room_entry i (room_at s i) else [])"

definition room_lines :: "server \<Rightarrow> nat \<Rightarrow> string" where
  "room_lines s i = concat (map (room_line s) [i..<MAX_ROOMS])"

definition rooms_open :: "server \<Rightarrow> nat \<Rightarrow> bool" where
  "rooms_open s i \<longleftrightarrow> (\<exists>j. i \<le> j \<and> j < MAX_ROOMS \<and> r_in_use (room_at s j))"

definition room_list_text :: "server \<Rightarrow> string" where
  "room_list_text s =
     (if rooms_open s 0 then list_header @ room_lines s 0 else list_header @ no_rooms_text)"

lemma room_lines_step:
  "i < MAX_ROOMS \<Longrightarrow> room_lines s i = room_line s i @ room_lines s (Suc i)"
  by (simp add: room_lines_def upt_conv_Cons)

lemma rooms_open_step:
  "i < MAX_ROOMS \<Longrightarrow> rooms_open s i \<longleftrightarrow> r_in_use (room_at s i) \<or> rooms_open s (Suc i)"
proof -
  assume i: "i < MAX_ROOMS"
  have "i \<le> j \<longleftrightarrow> j = i \<or> Suc i \<le> j" for j by auto
  with i show ?thesis unfolding rooms_open_def by auto
qed

lemma room_lines_end [simp]: "room_lines s MAX_ROOMS = []"
  by (simp add: room_lines_def)

lemma rooms_open_end [simp]: "\<not> rooms_open s MAX_ROOMS"
  by (simp add: rooms_open_def)

lemma room_lines_state:
  "(\<And>j. room_at t j = room_at s j) \<Longrightarrow> room_lines t i = room_lines s i \<and> rooms_open t i = rooms_open s i"
proof -
  assume *: "\<And>j. room_at t j = room_at s j"
  then have "room_line t = room_line s" by (intro ext) (simp add: room_line_def)
  with * show ?thesis by (simp add: room_lines_def rooms_open_def)
qed

lemma length_room_entry:
  "i < MAX_ROOMS \<Longrightarrow> length (room_entry i r) = length (room_name r) + (if i < 10 then 9 else 10)"
  by (simp add: room_entry_def length_dec_digits limits)

lemma list_loop_result:
  assumes "rooms_ok s" and "i \<le> MAX_ROOMS"
  shows "list_loop i acc avail s = Inr (acc', avail', t) \<Longrightarrow>
    acc' = acc @ room_lines s i \<and> avail' = (avail \<or> rooms_open s i)"
  using assms
proof (induction i acc avail s rule: list_loop.induct)
  case (1 i acc avail s)
  show ?case
  proof (cases "i < MAX_ROOMS")
    case False
    with 1(5) have "i = MAX_ROOMS" by simp
    with 1(3) show ?thesis
      by (subst (asm) list_loop.simps) (auto simp: le_antisym)
  next
    case True
    let ?s2 = "emit (Unlock (Room_lock i)) (emit (Lock (Room_lock i)) s)"
    have st: "room_lines ?s2 (Suc i) = room_lines s (Suc i)" "rooms_open ?s2 (Suc i) = rooms_open s (Suc i)"
      using room_lines_state [of ?s2 s] by simp_all
    from 1(3) True "1.IH" "1.prems"(2) show ?thesis
      by (subst (asm) list_loop.simps)
        (auto simp: Let_def res_bind_eq_Inr c_store_eq_Inr st room_lines_step rooms_open_step
          room_line_def split: if_splits)
  qed
qed

lemma list_loop_quiet:
  "list_loop i acc avail s = Inr (acc', avail', t) \<Longrightarrow> sent_frames (trace t) = sent_frames (trace s)"
proof (induction i acc avail s rule: list_loop.induct)
  case (1 i acc avail s)
  show ?case
  proof (cases "i < MAX_ROOMS")
    case False
    with 1(3) show ?thesis by (subst (asm) list_loop.simps) simp
  next
    case True
    with 1(3) "1.IH" show ?thesis
      by (subst (asm) list_loop.simps)
        (auto simp: Let_def res_bind_eq_Inr split: if_splits)
  qed
qed

text \<open>The accumulating buffer: the loop gets through exactly when the whole list fits.\<close>

lemma list_loop_fits:
  assumes "rooms_ok s" and "i \<le> MAX_ROOMS" and "length acc < MAX_MESSAGE_LEN_FROM_SERVER"
  shows "if length (acc @ room_lines s i) < MAX_MESSAGE_LEN_FROM_SERVER
    then returns (list_loop i acc avail s)
    else list_loop i acc avail s = Inl (Overflow Room_list_msg)"
  using assms
proof (induction i acc avail s rule: list_loop.induct)
  case (1 i acc avail s)
  show ?case
  proof (cases "i < MAX_ROOMS")
    case False
    with "1.prems" show ?thesis by (subst list_loop.simps, subst list_loop.simps) simp
  next
    case True
    let ?s1 = "emit (Lock (Room_lock i)) s"
    let ?s2 = "emit (Unlock (Room_lock i)) ?s1"
    have st: "room_lines ?s2 (Suc i) = room_lines s (Suc i)"
      using room_lines_state [of ?s2 s] by simp
    have step: "room_lines s i = room_line s i @ room_lines s (Suc i)"
      by (rule room_lines_step [OF True])
    show ?thesis
    proof (cases "r_in_use (room_at s i)")
      case False
      have eq: "list_loop i acc avail s = list_loop (Suc i) acc avail ?s2"
        using True False by (subst list_loop.simps) (simp add: Let_def)
      from "1.IH"(2) [OF True refl] False True "1.prems" show ?thesis
        unfolding eq by (simp add: step st room_line_def)
    next
      case used: True
      let ?e = "room_entry i (room_at s i)"
      have "length (room_name (room_at s i)) \<le> MAX_ROOM_NAME_LEN"
        using rooms_okD [OF "1.prems"(1) True] by (simp add: room_ok_def)
      then have e: "length ?e < 100" using True by (simp add: length_room_entry limits)
      show ?thesis
      proof (cases "length (acc @ ?e) < MAX_MESSAGE_LEN_FROM_SERVER")
        case False
        then have "list_loop i acc avail s = Inl (Overflow Room_list_msg)"
          using True used e
          by (subst list_loop.simps) (simp add: Let_def c_store_def)
        with False used show ?thesis by (simp add: step room_line_def)
      next
        case fits: True
        have eq: "list_loop i acc avail s = list_loop (Suc i) (acc @ ?e) True ?s2"
          using True used e fits by (subst list_loop.simps) (simp add: Let_def)
        from "1.IH"(1) [OF True refl, of ?e "acc @ ?e"] used True "1.prems" e fits show ?thesis
          unfolding eq by (simp add: step st room_line_def)
      qed
    qed
  qed
qed

text \<open>What the client is sent, and exactly when the operation gets that far.\<close>

lemma send_avail_rooms_frame:
  assumes "rooms_ok s" and "send_avail_rooms p s = Inr t"
  shows "sent_frames (trace t) = sent_frames (trace s) @
      [(client_fd (client_at s p), frame CMD_ROOM_LIST_RESPONSE (room_list_text s))]"
proof -
  from assms(2) obtain acc avail u body where
    u: "list_loop 0 list_header False s = Inr (acc, avail, u)" and
    body: "(if avail then Inr acc
      else c_store Room_list_msg MAX_MESSAGE_LEN_FROM_SERVER (acc @ no_rooms_text)) = Inr body" and
    t: "send_message_to_client (client_fd (client_at u p)) CMD_ROOM_LIST_RESPONSE body u = Inr t"
    by (auto simp: send_avail_rooms_def res_bind_eq_Inr)
  note r = list_loop_result [OF assms(1) _ u, simplified]
  have "room_lines s 0 = []" if "\<not> rooms_open s 0"
    using that by (auto simp: room_lines_def rooms_open_def room_line_def)
  with r body have "body = room_list_text s"
    by (auto simp: room_list_text_def c_store_eq_Inr split: if_splits)
  moreover have "sent_frames (trace u) = sent_frames (trace s)"
    by (rule list_loop_quiet [OF u])
  ultimately show ?thesis
    using res_allD [OF send_frames t] same_structs_state(1) [OF list_loop_structs [OF u]] by simp
qed

lemma send_avail_rooms_returns:
  assumes "rooms_ok s"
  shows "returns (send_avail_rooms p s) \<longleftrightarrow>
    length (room_list_text s) + 4 < MAX_MESSAGE_LEN_FROM_SERVER"
proof (cases "length (list_header @ room_lines s 0) < MAX_MESSAGE_LEN_FROM_SERVER")
  case False
  with list_loop_fits [OF assms, of 0 list_header False] have
    "send_avail_rooms p s = Inl (Overflow Room_list_msg)"
    by (simp add: send_avail_rooms_def text_lengths limits)
  moreover have "rooms_open s 0"
  proof (rule ccontr)
    assume "\<not> rooms_open s 0"
    then have "room_lines s 0 = []"
      by (auto simp: room_lines_def rooms_open_def room_line_def)
    with False show False by (simp add: text_lengths limits)
  qed
  ultimately show ?thesis using False by (simp add: room_list_text_def)
next
  case True
  with list_loop_fits [OF assms, of 0 list_header False] have
    "returns (list_loop 0 list_header False s)"
    by (simp add: text_lengths limits)
  then obtain acc avail u where u: "list_loop 0 list_header False s = Inr (acc, avail, u)"
    by (auto simp: returns_iff)
  have r: "acc = list_header @ room_lines s 0" "avail = rooms_open s 0"
    using list_loop_result [OF assms _ u] by simp_all
  show ?thesis
  proof (cases "rooms_open s 0")
    case True
    with u r show ?thesis
      by (simp add: send_avail_rooms_def send_returns room_list_text_def)
  next
    case False
    then have "room_lines s 0 = []"
      by (auto simp: room_lines_def rooms_open_def room_line_def)
    with u r False show ?thesis
      by (simp add: send_avail_rooms_def send_returns room_list_text_def returns_bind
          c_store_eq_Inr text_lengths limits)
  qed
qed

lemma send_avail_rooms_overflow:
  assumes "rooms_ok s" and "MAX_MESSAGE_LEN_FROM_SERVER \<le> length (list_header @ room_lines s 0)"
  shows "send_avail_rooms p s = Inl (Overflow Room_list_msg)"
  using list_loop_fits [OF assms(1), of 0 list_header False] assms(2)
  by (simp add: send_avail_rooms_def text_lengths limits)

lemma length_room_line:
  "i < MAX_ROOMS \<Longrightarrow> length (room_line s i) =
     (if r_in_use (room_at s i) then length (room_name (room_at s i)) + (if i < 10 then 9 else 10)
      else 0)"
  by (simp add: room_line_def length_room_entry)

lemma length_room_lines:
  "length (room_lines s i) = (\<Sum>j \<leftarrow> [i..<MAX_ROOMS]. length (room_line s j))"
  by (simp add: room_lines_def length_concat comp_def)

lemma line_widths: "(\<Sum>j \<leftarrow> [0..<MAX_ROOMS]. n + (if j < 10 then 9 else 10)) = MAX_ROOMS * n + 490"
proof -
  have "(\<Sum>j \<leftarrow> [0..<MAX_ROOMS]. n + (if j < 10 then 9 else 10)) =
      (\<Sum>j \<leftarrow> [0..<MAX_ROOMS]. n) + (\<Sum>j \<leftarrow> [0..<MAX_ROOMS]. if j < 10 then 9 else 10)"
    by (rule sum_list_addf)
  also have "(\<Sum>j \<leftarrow> [0..<MAX_ROOMS]. if j < 10 then 9 else 10) = (490 :: nat)"
    unfolding limits by (simp add: upt_conv_Cons)
  finally show ?thesis by (simp add: sum_list_triv)
qed

text \<open>With names of at most 18 characters the list always fits; with fifty rooms of the longest
  admissible names it never does.\<close>

lemma short_names_fit:
  assumes "\<And>i. i < MAX_ROOMS \<Longrightarrow> length (room_name (room_at s i)) \<le> 18"
  shows "length (room_list_text s) + 4 < MAX_MESSAGE_LEN_FROM_SERVER"
proof -
  have "length (room_lines s 0) \<le> (\<Sum>j \<leftarrow> [0..<MAX_ROOMS]. 18 + (if j < 10 then 9 else 10))"
    unfolding length_room_lines
    by (rule sum_list_mono) (use assms in \<open>auto simp: length_room_line\<close>)
  then have "length (room_lines s 0) \<le> MAX_ROOMS * 18 + 490" by (simp only: line_widths)
  then show ?thesis by (simp add: room_list_text_def text_lengths limits)
qed

lemma long_names_overflow:
  assumes "rooms_ok s"
    and "\<And>i. i < MAX_ROOMS \<Longrightarrow> r_in_use (room_at s i) \<and> length (room_name (room_at s i)) = MAX_ROOM_NAME_LEN"
  shows "send_avail_rooms p s = Inl (Overflow Room_list_msg)"
proof -
  have "length (room_lines s 0) =
      (\<Sum>j \<leftarrow> [0..<MAX_ROOMS]. MAX_ROOM_NAME_LEN + (if j < 10 then 9 else 10))"
    unfolding length_room_lines
    by (rule arg_cong [where f = sum_list], rule map_cong) (use assms(2) in \<open>auto simp: length_room_line\<close>)
  then have "length (room_lines s 0) = MAX_ROOMS * MAX_ROOM_NAME_LEN + 490"
    by (simp only: line_widths)
  then show ?thesis
    by (intro send_avail_rooms_overflow assms(1)) (simp add: text_lengths limits)
qed

end
