(* ===== verification/Client_Facts.thy ===== *)
theory Client_Facts
  imports Client_State Room_Listing
begin

text \<open>
  What handling a message and reading from a client keep: the lock discipline and \<open>rooms_ok\<close>
  always, the other clients always, and \<open>linked\<close> as long as no message of a client is handled
  after its EXIT, when its slot is already free.
\<close>

section \<open>One message\<close>

lemma validate_cases:
  "validate_msg_format p s = Inr (b, t) \<Longrightarrow>
   (b \<and> t = s \<and> format_error (current_msg (client_at s p)) = None) \<or>
   (\<not> b \<and> only_sends s t \<and> format_error (current_msg (client_at s p)) \<noteq> None)"
  by (auto simp: validate_msg_format_def res_bind_eq_Inr split: option.splits dest: send_InrD)

lemma state_valid_cases:
  "command_valid_for_state p s = Inr (b, t) \<Longrightarrow>
   (b \<and> t = s \<and> state_error (cstate (client_at s p)) (char_at (current_msg (client_at s p)) 0) = None) \<or>
   (\<not> b \<and> only_sends s t \<and>
     state_error (cstate (client_at s p)) (char_at (current_msg (client_at s p)) 0) \<noteq> None)"
  by (auto simp: command_valid_for_state_def Let_def res_bind_eq_Inr split: option.splits dest: send_InrD)

text \<open>A message is acceptable when it has the format and its command is allowed.\<close>

definition acceptable :: "client \<Rightarrow> bool" where
  "acceptable c \<longleftrightarrow> format_error (current_msg c) = None \<and>
     state_error (cstate c) (char_at (current_msg c) 0) = None"

lemma route_cases:
  assumes "route_client_command p s = Inr t"
  obtains (rejected) "\<not> acceptable (client_at s p)" "only_sends s t"
    | (accepted) "acceptable (client_at s p)" "dispatch p s = Inr t"
proof -
  from assms obtain b u where v: "validate_msg_format p s = Inr (b, u)" and
    rest: "(if \<not> b then Inr u else res_bind (command_valid_for_state p u)
      (\<lambda>(allowed, u). if \<not> allowed then Inr u else dispatch p u)) = Inr t"
    by (auto simp: route_client_command_def res_bind_eq_Inr)
  show thesis
  proof (cases b)
    case False
    with validate_cases [OF v] rest show thesis by (auto simp: acceptable_def intro: rejected)
  next
    case True
    with validate_cases [OF v] have u: "u = s" "format_error (current_msg (client_at s p)) = None"
      by auto
    from rest True u obtain a w where w: "command_valid_for_state p s = Inr (a, w)" and
      d: "(if \<not> a then Inr w else dispatch p w) = Inr t"
      by (auto simp: res_bind_eq_Inr)
    show thesis
    proof (cases a)
      case False
      with state_valid_cases [OF w] d show thesis by (auto simp: acceptable_def intro: rejected)
    next
      case True
      with state_valid_cases [OF w] d u show thesis by (auto simp: acceptable_def intro: accepted)
    qed
  qed
qed

subsection \<open>Locks\<close>

lemma cleanup_balanced: "balanced s (cleanup_client p s)"
  by (simp add: cleanup_unfold balanced_def lock_path_def)

lemma disconnect_balanced: "res_all (balanced s) (handle_client_disconnection p s)"
  by (rule res_allI) (auto simp: handle_client_disconnection_def res_bind_eq_Inr cleanup_balanced
      split: if_splits intro: locks.keep_trans dest: res_allD [OF leave_balanced])

lemma awaiting_balanced: "res_all (balanced s) (handle_awaiting_username p s)"
proof (rule res_allI)
  fix t assume "handle_awaiting_username p s = Inr t"
  then consider (long) fd where "send_message_to_client fd ERR_USERNAME_LENGTH username_long_text s = Inr t"
    | (named) f where "send_avail_rooms p (upd_client p f s) = Inr t"
    by (auto simp: handle_awaiting_username_def Let_def res_bind_eq_Inr split: if_splits)
  then show "balanced s t"
  proof cases
    case long
    then show ?thesis by (rule balanced_sends [OF send_InrD])
  next
    case named
    then have "balanced (upd_client p f s) t" by (rule res_allD [OF send_avail_rooms_balanced])
    moreover have "balanced s (upd_client p f s)" by (simp add: balanced_eq)
    ultimately show ?thesis by (blast intro: locks.keep_trans)
  qed
qed

lemma lobby_balanced: "res_all (balanced s) (handle_in_chat_lobby p s)"
  by (simp add: handle_in_chat_lobby_def Let_def create_balanced join_balanced
      send_avail_rooms_balanced locks.keep_refl)

lemma in_room_balanced: "res_all (balanced s) (handle_in_chat_room p s)"
proof (rule res_allI)
  fix t assume t: "handle_in_chat_room p s = Inr t"
  let ?l = "Room_lock (nat (room_index (client_at s p)))"
  from t consider
      (send) m i u where "broadcast_message_in_room m i p (emit (Lock ?l) s) = Inr u"
        "t = emit (Unlock ?l) u"
    | (leave) ri fd u v where "leave_room p ri s = Inr u"
        "send_message_to_client fd CMD_ROOM_LEAVE_OK left_ok_text (emit (Lock ?l) u) = Inr v"
        "trace t = trace (emit (Unlock ?l) v)"
    by (auto simp: handle_in_chat_room_def Let_def res_bind_eq_Inr split: if_splits)
  then show "balanced s t"
  proof cases
    case send
    show ?thesis unfolding send(2) by (rule section_sends [OF _ broadcast_InrD [OF send(1)]]) simp_all
  next
    case leave
    have "balanced s u" by (rule res_allD [OF leave_balanced leave(1)])
    moreover have "balanced u (emit (Unlock ?l) v)" by (rule section_send [OF leave(2)]) simp
    moreover have "balanced (emit (Unlock ?l) v) t" using leave(3) by (simp add: balanced_eq)
    ultimately show ?thesis by (blast intro: locks.keep_trans)
  qed
qed

lemma dispatch_balanced: "res_all (balanced s) (dispatch p s)"
  by (auto simp: dispatch_def disconnect_balanced awaiting_balanced lobby_balanced in_room_balanced
      split: client_state.splits)

lemma route_balanced: "res_all (balanced s) (route_client_command p s)"
  by (rule res_allI) (auto elim!: route_cases intro: balanced_sends res_allD [OF dispatch_balanced])

subsection \<open>Rooms\<close>

lemma keeps_rooms_structs: "same_structs s t \<Longrightarrow> keeps_rooms s t"
  by (simp add: keeps_rooms_def rooms_ok_structs)

lemma cleanup_structs_rooms: "room_at (cleanup_client p s) i = room_at s i"
  by (simp add: cleanup_unfold)

lemma cleanup_keeps_rooms: "keeps_rooms s (cleanup_client p s)"
  by (simp add: keeps_rooms_def rooms_ok_def cleanup_structs_rooms)

lemma disconnect_keeps_rooms: "res_all (keeps_rooms s) (handle_client_disconnection p s)"
  by (rule res_allI) (auto simp: handle_client_disconnection_def res_bind_eq_Inr cleanup_keeps_rooms
      split: if_splits intro: rooms.keep_trans dest: res_allD [OF leave_keeps_rooms])

text \<open>What the two handlers of this component do to the structs.\<close>

lemma awaiting_structs:
  assumes "handle_awaiting_username p s = Inr t"
  shows "same_structs s t \<or>
    (length (drop 2 (current_msg (client_at s p))) \<le> MAX_USERNAME_LEN \<and>
     same_structs (upd_client p (\<lambda>c. c\<lparr>cname := drop 2 (current_msg (client_at s p)),
       cstate := IN_CHAT_LOBBY\<rparr>) s) t)"
  using assms
  by (auto simp: handle_awaiting_username_def Let_def res_bind_eq_Inr c_store_eq_Inr split: if_splits
      dest: send_InrD same_structs_sends send_avail_rooms_structs)

lemma in_room_structs:
  assumes "handle_in_chat_room p s = Inr t"
  shows "same_structs s t \<or>
    (\<exists>u. leave_room p (room_index (client_at s p)) s = Inr u \<and>
      same_structs (upd_client p (\<lambda>c. c\<lparr>cstate := IN_CHAT_LOBBY\<rparr>) u) t)"
proof (cases "char_at (current_msg (client_at s p)) 0 = CMD_ROOM_MESSAGE_SEND")
  case True
  let ?i = "nat (room_index (client_at s p))"
  from assms True obtain m u where
    u: "broadcast_message_in_room m ?i p (emit (Lock (Room_lock ?i)) s) = Inr u" and
    t: "t = emit (Unlock (Room_lock ?i)) u"
    by (auto simp: handle_in_chat_room_def Let_def res_bind_eq_Inr split: if_splits)
  from same_structs_sends [OF broadcast_InrD [OF u]] show ?thesis by (simp add: t)
next
  case False
  with assms obtain u v where u: "leave_room p (room_index (client_at s p)) s = Inr u" and
    v: "send_message_to_client (client_fd (client_at u p)) CMD_ROOM_LEAVE_OK left_ok_text
      (emit (Lock (Room_lock (nat (room_index (client_at s p))))) u) = Inr v" and
    t: "t = upd_client p (\<lambda>c. c\<lparr>cstate := IN_CHAT_LOBBY\<rparr>)
      (emit (Unlock (Room_lock (nat (room_index (client_at s p))))) v)"
    by (auto simp: handle_in_chat_room_def Let_def res_bind_eq_Inr)
  have "same_structs u (emit (Unlock (Room_lock (nat (room_index (client_at s p))))) v)"
    using same_structs_sends [OF send_InrD [OF v]] by simp
  with u t show ?thesis by (auto intro: same_structs_upd)
qed

lemma dispatch_keeps_rooms: "res_all (keeps_rooms s) (dispatch p s)"
proof (rule res_allI)
  fix t assume t: "dispatch p s = Inr t"
  then consider "handle_client_disconnection p s = Inr t" | "handle_awaiting_username p s = Inr t"
    | "handle_in_chat_lobby p s = Inr t" | "handle_in_chat_room p s = Inr t"
    by (auto simp: dispatch_def split: if_splits client_state.splits)
  then show "keeps_rooms s t"
  proof cases
    case 1
    then show ?thesis by (rule res_allD [OF disconnect_keeps_rooms])
  next
    case 2
    from awaiting_structs [OF this] show ?thesis
      by (auto simp: keeps_rooms_def rooms_ok_structs)
  next
    case 3
    then show ?thesis
      by (auto simp: handle_in_chat_lobby_def Let_def rooms.keep_refl split: if_splits
          dest: res_allD [OF create_keeps_rooms] res_allD [OF join_keeps_rooms]
            res_allD [OF list_keeps_rooms])
  next
    case 4
    from in_room_structs [OF this] show ?thesis
      by (auto simp: keeps_rooms_def rooms_ok_structs dest: res_allD [OF leave_keeps_rooms])
  qed
qed

lemma route_keeps_rooms: "res_all (keeps_rooms s) (route_client_command p s)"
  by (rule res_allI) (auto elim!: route_cases intro: keeps_rooms_structs same_structs_sends
      res_allD [OF dispatch_keeps_rooms])

subsection \<open>The other clients\<close>

text \<open>Working for \<open>p\<close> leaves every other client and every other worker as it was.\<close>

definition only_own :: "cptr \<Rightarrow> server \<Rightarrow> server \<Rightarrow> bool" where
  "only_own p s t \<longleftrightarrow>
     (\<forall>q. q \<noteq> p \<longrightarrow> client_at t q = client_at s q) \<and>
     (\<forall>w. w \<noteq> owner p \<longrightarrow> worker_at t w = worker_at s w) \<and>
     (\<forall>w. notification_fd (worker_at t w) = notification_fd (worker_at s w) \<and>
        epoll_fd (worker_at t w) = epoll_fd (worker_at s w) \<and>
        new_client (worker_at t w) = new_client (worker_at s w) \<and>
        efd_counter (worker_at t w) = efd_counter (worker_at s w)) \<and>
     worker_index t = worker_index s"

interpretation own: effect_preorder "only_own p" for p
  by unfold_locales (auto simp: only_own_def)

lemma own_structs: "same_structs s t \<Longrightarrow> only_own p s t"
  by (simp add: only_own_def same_structs_state)

lemma own_upd_client: "only_own p s (upd_client p f s)"
  by (simp add: only_own_def worker_at_upd_client)

lemma own_upd_room: "only_own p s (upd_room i g s)"
  by (simp add: only_own_def)

lemma own_cleanup: "only_own p s (cleanup_client p s)"
  by (simp add: only_own_def cleanup_unfold worker_at_upd_client)

lemma leave_own: "res_all (only_own p s) (leave_room p ri s)"
proof (rule res_allI)
  fix t assume t: "leave_room p ri s = Inr t"
  from leave_index [OF t] obtain i where ri: "ri = int i" by (metis nat_0_le)
  from leave_structs [OF t [unfolded ri]] show "only_own p s t"
    unfolding leave_as_update by (blast intro: own.keep_trans own_upd_room own_structs)
qed

lemma create_own: "res_all (only_own p s) (create_chat_room p s)"
proof (rule res_allI)
  fix t assume "create_chat_room p s = Inr t"
  from create_structs [OF this] show "only_own p s t"
    unfolding open_room_def
    by (blast intro: own.keep_trans own_upd_room own_upd_client own_structs)
qed

lemma join_own: "res_all (only_own p s) (join_chat_room p s)"
proof (rule res_allI)
  fix t assume "join_chat_room p s = Inr t"
  from join_structs [OF this] show "only_own p s t"
    unfolding move_into_def add_member_def
    by (blast intro: own.keep_trans own_upd_room own_upd_client own_structs)
qed

lemma disconnect_own: "res_all (only_own p s) (handle_client_disconnection p s)"
  by (rule res_allI) (auto simp: handle_client_disconnection_def res_bind_eq_Inr own_cleanup
      split: if_splits intro: own.keep_trans dest: res_allD [OF leave_own])

lemma dispatch_own: "res_all (only_own p s) (dispatch p s)"
proof (rule res_allI)
  fix t assume t: "dispatch p s = Inr t"
  then consider "handle_client_disconnection p s = Inr t" | "handle_awaiting_username p s = Inr t"
    | "handle_in_chat_lobby p s = Inr t" | "handle_in_chat_room p s = Inr t"
    by (auto simp: dispatch_def split: if_splits client_state.splits)
  then show "only_own p s t"
  proof cases
    case 1
    then show ?thesis by (rule res_allD [OF disconnect_own])
  next
    case 2
    from awaiting_structs [OF this] show ?thesis
      by (blast intro: own.keep_trans own_upd_client own_structs)
  next
    case 3
    then show ?thesis
      by (auto simp: handle_in_chat_lobby_def Let_def own.keep_refl split: if_splits
          dest: res_allD [OF create_own] res_allD [OF join_own] send_avail_rooms_structs
          intro: own_structs)
  next
    case 4
    from in_room_structs [OF this] show ?thesis
      by (blast intro: own.keep_trans own_upd_client own_structs res_allD [OF leave_own])
  qed
qed

lemma route_own: "res_all (only_own p s) (route_client_command p s)"
  by (rule res_allI) (auto elim!: route_cases intro: own_structs same_structs_sends
      res_allD [OF dispatch_own])

section \<open>Reading\<close>

text \<open>
  What reading needs from the handling of one message: a relation that the handling keeps, and
  that does not see the message buffer, is kept by reading any bytes.
\<close>

locale message_contract = effect_preorder R for R :: "server \<Rightarrow> server \<Rightarrow> bool" +
  fixes p :: cptr
  assumes route_keeps: "res_all (R s) (route_client_command p s)"
    and disconnect_keeps: "res_all (R s) (handle_client_disconnection p s)"
    and buffer_keeps: "R s (upd_client p (\<lambda>c. c\<lparr>current_msg := m\<rparr>) s)"
begin

lemma append_keeps: "res_all (R s) (append_msg p str s)"
  unfolding append_msg_def by (rule keep_bind_value) (simp add: buffer_keeps)

lemma process_keeps: "res_all (R s) (process_messages p temp s)"
proof (induction "length temp" arbitrary: temp s rule: less_induct)
  case less
  show ?case
  proof (cases "split_crlf temp")
    case None
    then show ?thesis
      by (subst process_messages.simps) (simp add: append_keeps keep_refl)
  next
    case (Some x)
    obtain seg rest where x: "x = (seg, rest)" by (cases x)
    have IH: "res_all (R u) (process_messages p rest u)" for u
      using less split_crlf_length Some x by blast
    have "res_all (R u) (process_messages p rest (clear_msg p u))" for u
      by (rule keep_after [OF _ IH]) (simp add: clear_msg_def buffer_keeps)
    then show ?thesis
      using Some x
      by (subst process_messages.simps)
        (auto intro!: keep_bind append_keeps route_keeps)
  qed
qed

lemma read_keeps: "res_all (R s) (read_and_process_client_message p r s)"
  by (auto simp: read_and_process_client_message_def process_keeps disconnect_keeps keep_refl
      split: recv_result.splits)

end

interpretation read_locks: message_contract balanced p for p
  by unfold_locales (simp_all add: route_balanced disconnect_balanced balanced_eq)

interpretation read_rooms: message_contract keeps_rooms p for p
  by unfold_locales (simp_all add: route_keeps_rooms disconnect_keeps_rooms keeps_rooms_def)

interpretation read_own: message_contract "only_own p" p for p
  by unfold_locales (simp_all add: route_own disconnect_own own_upd_client)

section \<open>The link between clients and rooms\<close>

definition table_inv :: "server \<Rightarrow> bool" where
  "table_inv s \<longleftrightarrow> rooms_ok s \<and> linked s"

lemma table_inv_structs: "same_structs s t \<Longrightarrow> table_inv t = table_inv s"
  by (simp add: table_inv_def rooms_ok_structs linked_structs)

lemma table_inv_buffer [simp]:
  "table_inv (upd_client p (\<lambda>c. c\<lparr>current_msg := m\<rparr>) s) = table_inv s"
proof -
  let ?t = "upd_client p (\<lambda>c. c\<lparr>current_msg := m\<rparr>) s"
  have "cstate (client_at ?t q) = cstate (client_at s q)"
    "room_index (client_at ?t q) = room_index (client_at s q)"
    "c_in_use (client_at ?t q) = c_in_use (client_at s q)" for q
    by simp_all
  then have "linked ?t = linked s" unfolding linked_def by (simp only: sits_upd_client)
  then show ?thesis by (simp add: table_inv_def)
qed

text \<open>Leaving, with whatever is then done to the struct of the client that has left.\<close>

lemma leave_inv:
  assumes inv: "table_inv s" and room: "cstate (client_at s p) = IN_CHAT_ROOM"
    and t: "leave_room p (room_index (client_at s p)) s = Inr t"
    and f: "cstate (f (client_at s p)) \<noteq> IN_CHAT_ROOM"
  shows "table_inv (upd_client p f t)" "client_at t p = client_at s p"
proof -
  from inv room obtain i k where ik: "sits s i k p" "room_index (client_at s p) = int i"
    by (auto simp: table_inv_def elim: linked_in_room)
  have st: "same_structs (upd_room i (room_left p) s) t"
    using leave_structs [OF t [unfolded ik(2)]] by (simp only: leave_as_update)
  have "table_inv (upd_client p f (upd_room i (room_left p) s))"
    using inv linked_leave [where f = f, OF _ _ ik(1) f] ik(1)
    by (auto simp: table_inv_def sits_def rooms_okD intro!: rooms_ok_upd_room room_ok_left)
  then show "table_inv (upd_client p f t)"
    using table_inv_structs [OF same_structs_upd(1) [OF st]] by simp
  show "client_at t p = client_at s p" using same_structs_state(1) [OF st] by simp
qed

text \<open>Clean-up as an update of the struct, then of the fields the tables do not see.\<close>

lemma cleanup_inv: "table_inv (cleanup_client p s) = table_inv (upd_client p (\<lambda>_. zero_client) s)"
  by (simp add: table_inv_def rooms_ok_def linked_def sits_def cleanup_unfold)

lemma disconnect_inv:
  assumes "table_inv s" and t: "handle_client_disconnection p s = Inr t"
  shows "table_inv t"
proof (cases "cstate (client_at s p) = IN_CHAT_ROOM")
  case True
  with t obtain u where u: "leave_room p (room_index (client_at s p)) s = Inr u"
    "t = cleanup_client p u"
    by (auto simp: handle_client_disconnection_def res_bind_eq_Inr)
  from leave_inv(1) [OF assms(1) True u(1), of "\<lambda>_. zero_client"] show ?thesis
    by (simp add: u(2) cleanup_inv)
next
  case False
  with assms(1) have "table_inv (upd_client p (\<lambda>_. zero_client) s)"
    by (auto simp: table_inv_def intro: linked_upd_client)
  with False t show ?thesis by (auto simp: handle_client_disconnection_def cleanup_inv)
qed

text \<open>A free room opened by a client that is in none; a client that takes a free place in a room.\<close>

lemma open_room_inv:
  assumes inv: "table_inv s" and used: "c_in_use (client_at s p)"
    and out: "cstate (client_at s p) \<noteq> IN_CHAT_ROOM"
    and i: "i < MAX_ROOMS" "\<not> r_in_use (room_at s i)" and n: "length n \<le> MAX_ROOM_NAME_LEN"
  shows "table_inv (open_room p n i s)"
proof -
  from inv i have "member_count (room_at s i) = 0"
    using rooms_okD [of s i] by (simp add: table_inv_def room_ok_def)
  then have "\<not> non_null (r_clients (room_at s i) 0)"
    using member_slots.count_zero sizes_pos(3) by blast
  then have free: "r_clients (room_at s i) 0 = None" by (simp add: not_non_null)
  have "linked (open_room p n i s)"
    unfolding open_room_def
    by (rule linked_enter [where k = 0, OF _ i(1) sizes_pos(3) free out used])
      (use inv used in \<open>simp_all add: table_inv_def\<close>)
  moreover have "rooms_ok (open_room p n i s)"
    using inv i n unfolding open_room_def
    by (auto simp: table_inv_def rooms_okD intro!: rooms_ok_upd_room room_ok_opened)
  ultimately show ?thesis by (simp add: table_inv_def)
qed

lemma enter_inv:
  assumes inv: "table_inv s" and used: "c_in_use (client_at s p)"
    and out: "cstate (client_at s p) \<noteq> IN_CHAT_ROOM"
    and i: "i < MAX_ROOMS" "r_in_use (room_at s i)"
    and k: "first_index (\<lambda>k. r_clients (room_at s i) k = None) 0 MAX_CLIENTS_ROOM = Some k"
  shows "table_inv (move_into p i (add_member p k i s))"
proof -
  from first_index_bound [OF k] have k': "k < MAX_CLIENTS_ROOM" "r_clients (room_at s i) k = None"
    by simp_all
  have "linked (move_into p i (add_member p k i s))"
    unfolding move_into_def add_member_def
    by (rule linked_enter [OF _ i(1) k' out used]) (use inv used in \<open>simp_all add: table_inv_def\<close>)
  moreover have "rooms_ok (move_into p i (add_member p k i s))"
    using inv i k' unfolding move_into_def add_member_def
    by (auto simp: table_inv_def rooms_okD intro!: rooms_ok_upd_room room_ok_entered)
  ultimately show ?thesis by (simp add: table_inv_def)
qed

lemma open_room_client [simp]:
  "client_at (open_room p n i s) q =
     (if q = p then (client_at s p)\<lparr>room_index := int i, cstate := IN_CHAT_ROOM\<rparr> else client_at s q)"
  by (simp add: open_room_def)

lemma enter_client [simp]:
  "client_at (move_into p i s) q =
     (if q = p then (client_at s p)\<lparr>cstate := IN_CHAT_ROOM, room_index := int i\<rparr> else client_at s q)"
  "client_at (add_member p k i s) q = client_at s q"
  by (simp_all add: move_into_def add_member_def)

lemma create_inv:
  assumes inv: "table_inv s" and used: "c_in_use (client_at s p)"
    and out: "cstate (client_at s p) \<noteq> IN_CHAT_ROOM" and t: "create_chat_room p s = Inr t"
  shows "table_inv t \<and> c_in_use (client_at t p)"
  using create_structs [OF t]
proof (elim disjE exE conjE)
  fix i
  let ?n = "drop 2 (current_msg (client_at s p))"
  assume i: "first_index (\<lambda>j. \<not> r_in_use (room_at s j)) 0 MAX_ROOMS = Some i"
    and n: "length ?n \<le> MAX_ROOM_NAME_LEN" and st: "same_structs (open_room p ?n i s) t"
  from first_index_bound [OF i] n have "table_inv (open_room p ?n i s)"
    by (intro open_room_inv [OF inv used out]) simp_all
  with used st show ?thesis by (simp add: table_inv_structs same_structs_state)
qed (use inv used in \<open>simp add: table_inv_structs same_structs_state\<close>)

lemma join_inv:
  assumes inv: "table_inv s" and used: "c_in_use (client_at s p)"
    and out: "cstate (client_at s p) \<noteq> IN_CHAT_ROOM" and t: "join_chat_room p s = Inr t"
  shows "table_inv t \<and> c_in_use (client_at t p)"
  using join_structs [OF t]
proof (elim disjE exE conjE)
  fix i k
  assume i: "i < MAX_ROOMS" "r_in_use (room_at s i)"
    and k: "first_index (\<lambda>k. r_clients (room_at s i) k = None) 0 MAX_CLIENTS_ROOM = Some k"
    and st: "same_structs (move_into p i (add_member p k i s)) t"
  from enter_inv [OF inv used out i k] used st show ?thesis
    by (simp add: table_inv_structs same_structs_state)
qed (use inv used in \<open>simp add: table_inv_structs same_structs_state\<close>)

text \<open>The message a client stops with.\<close>

definition is_exit :: "string \<Rightarrow> bool" where
  "is_exit m \<longleftrightarrow> format_error m = None \<and> char_at m 0 = CMD_EXIT"

lemma dispatch_inv:
  assumes inv: "table_inv s" and used: "c_in_use (client_at s p)"
    and acc: "acceptable (client_at s p)" and t: "dispatch p s = Inr t"
  shows "table_inv t \<and> (\<not> is_exit (current_msg (client_at s p)) \<longrightarrow> c_in_use (client_at t p))"
proof (cases "char_at (current_msg (client_at s p)) 0 = CMD_EXIT")
  case True
  with acc have "is_exit (current_msg (client_at s p))" by (simp add: is_exit_def acceptable_def)
  with True t disconnect_inv [OF inv] show ?thesis by (simp add: dispatch_def)
next
  case not_exit: False
  show ?thesis
  proof (cases "cstate (client_at s p)")
    case AWAITING_USERNAME
    with t not_exit have "handle_awaiting_username p s = Inr t" by (simp add: dispatch_def)
    from awaiting_structs [OF this] show ?thesis
    proof (elim disjE conjE)
      let ?u = "upd_client p (\<lambda>c. c\<lparr>cname := drop 2 (current_msg (client_at s p)),
         cstate := IN_CHAT_LOBBY\<rparr>) s"
      assume st: "same_structs ?u t"
      have "table_inv ?u"
        using inv AWAITING_USERNAME by (auto simp: table_inv_def intro: linked_upd_client)
      with used st show ?thesis by (simp add: table_inv_structs same_structs_state)
    qed (use inv used in \<open>simp add: table_inv_structs same_structs_state\<close>)
  next
    case IN_CHAT_LOBBY
    with t not_exit have "handle_in_chat_lobby p s = Inr t" by (simp add: dispatch_def)
    with IN_CHAT_LOBBY inv used create_inv [OF inv used] join_inv [OF inv used] show ?thesis
      by (auto simp: handle_in_chat_lobby_def Let_def table_inv_structs same_structs_state
          split: if_splits dest!: send_avail_rooms_structs)
  next
    case IN_CHAT_ROOM
    with t not_exit have "handle_in_chat_room p s = Inr t" by (simp add: dispatch_def)
    from in_room_structs [OF this] show ?thesis
    proof (elim disjE exE conjE)
      fix u
      assume u: "leave_room p (room_index (client_at s p)) s = Inr u"
        and st: "same_structs (upd_client p (\<lambda>c. c\<lparr>cstate := IN_CHAT_LOBBY\<rparr>) u) t"
      note l = leave_inv [OF inv IN_CHAT_ROOM u, of "\<lambda>c. c\<lparr>cstate := IN_CHAT_LOBBY\<rparr>"]
      from l st used show ?thesis by (simp add: table_inv_structs same_structs_state)
    qed (use inv used in \<open>simp add: table_inv_structs same_structs_state\<close>)
  qed
qed

lemma route_inv:
  assumes inv: "table_inv s" and used: "c_in_use (client_at s p)"
    and t: "route_client_command p s = Inr t"
  shows "table_inv t \<and> (\<not> is_exit (current_msg (client_at s p)) \<longrightarrow> c_in_use (client_at t p))"
  using t
proof (cases rule: route_cases)
  case rejected
  with inv used show ?thesis
    by (simp add: table_inv_structs [OF same_structs_sends] only_sends_state)
next
  case accepted
  with dispatch_inv [OF inv used] show ?thesis by blast
qed

text \<open>\<open>exit_last pending temp\<close>: of the messages that \<open>pending\<close> and the bytes \<open>temp\<close> make up,
  none comes after an EXIT.\<close>

function exit_last :: "string \<Rightarrow> string \<Rightarrow> bool" where
  "exit_last pending temp =
     (case split_crlf temp of
        None \<Rightarrow> True
      | Some (seg, rest) \<Rightarrow> (if is_exit (pending @ seg) then rest = [] else exit_last [] rest))"
  by pat_completeness auto
termination
  by (relation "measure (\<lambda>(pending, temp). length temp)") (auto dest: split_crlf_length)

declare exit_last.simps [simp del]

lemma process_inv:
  assumes "table_inv s" and "c_in_use (client_at s p)"
    and "exit_last (current_msg (client_at s p)) temp" and "process_messages p temp s = Inr t"
  shows "table_inv t"
  using assms
proof (induction "length temp" arbitrary: temp s rule: less_induct)
  case less
  show ?case
  proof (cases "split_crlf temp")
    case None
    with less.prems show ?thesis
      by (subst (asm) process_messages.simps)
        (auto simp: append_msg_def res_bind_eq_Inr split: if_splits)
  next
    case (Some x)
    obtain seg rest where x: "x = (seg, rest)" by (cases x)
    let ?m = "current_msg (client_at s p) @ seg"
    let ?s1 = "upd_client p (\<lambda>c. c\<lparr>current_msg := ?m\<rparr>) s"
    from less.prems(4) Some x obtain s2 where
      s2: "route_client_command p ?s1 = Inr s2" and
      t: "process_messages p rest (clear_msg p s2) = Inr t"
      by (subst (asm) process_messages.simps)
        (auto simp: append_msg_def res_bind_eq_Inr c_store_eq_Inr)
    have inv2: "table_inv s2" "\<not> is_exit ?m \<Longrightarrow> c_in_use (client_at s2 p)"
      using route_inv [OF _ _ s2] less.prems(1,2) by simp_all
    show ?thesis
    proof (cases "is_exit ?m")
      case True
      with less.prems(3) Some x have "rest = []"
        by (subst (asm) exit_last.simps) simp
      with t have "t = clear_msg p s2" by (subst (asm) process_messages.simps) simp
      with inv2 show ?thesis by (simp add: clear_msg_def)
    next
      case False
      with less.prems(3) Some x have "exit_last [] rest" by (subst (asm) exit_last.simps) simp
      with False inv2 t show ?thesis
        using less.hyps [of rest "clear_msg p s2"] split_crlf_length Some x
        by (simp add: clear_msg_def)
    qed
  qed
qed

lemma read_inv:
  assumes "table_inv s" and "c_in_use (client_at s p)"
    and "\<And>bs. r = Received bs \<Longrightarrow>
      exit_last (current_msg (client_at s p)) (cstr (take MAX_MESSAGE_LEN_TO_SERVER bs))"
    and "read_and_process_client_message p r s = Inr t"
  shows "table_inv t"
  using assms
  by (auto simp: read_and_process_client_message_def split: recv_result.splits if_splits
      intro: process_inv disconnect_inv)

end
