(* ===== verification/Connection_Handler.thy ===== *)
theory Connection_Handler
  imports Client_Facts "HOL-Library.Word"
begin

unbundle bit_operations_syntax

text \<open>
  \<open>server/connection_handler.c\<close>: the event loop of a worker thread. A worker learns of a new
  client through its eventfd, takes it into a free slot and into its epoll set, and from then on
  serves the events of that client. What the kernel answers to a call that can fail is an
  argument of the operation that makes the call.
\<close>

section \<open>epoll\<close>

definition EPOLLERR :: "32 word" where "EPOLLERR = 0x008"
definition EPOLLHUP :: "32 word" where "EPOLLHUP = 0x010"
definition EPOLLRDHUP :: "32 word" where "EPOLLRDHUP = 0x2000"

text \<open>\<open>register_with_epoll\<close>; \<open>add_ok\<close> is the kernel's answer, which is an error in any case for
  a descriptor that is already registered.\<close>

definition register_with_epoll :: "nat \<Rightarrow> int \<Rightarrow> bool \<Rightarrow> server \<Rightarrow> bool \<times> server" where
  "register_with_epoll w target_fd add_ok s =
     (let efd = epoll_fd (worker_at s w) in
      if efd < 0 \<or> target_fd < 0 then (False, s)
      else
        let s1 = emit (Epoll_add efd target_fd) s in
        if \<not> add_ok \<or> target_fd \<in> epoll_set (worker_at s w) then (False, s1)
        else (True, upd_worker w (\<lambda>t. t\<lparr>epoll_set := insert target_fd (epoll_set t)\<rparr>) s1))"

section \<open>Slots\<close>

definition new_client_in_slot :: "int \<Rightarrow> client" where
  "new_client_in_slot fd =
     zero_client\<lparr>c_in_use := True, cstate := AWAITING_USERNAME, client_fd := fd\<rparr>"

definition allocate_client_slot :: "nat \<Rightarrow> int \<Rightarrow> server \<Rightarrow> bool \<times> server" where
  "allocate_client_slot w fd s =
     (case first_index (\<lambda>i. \<not> c_in_use (client_at s (Cptr w i))) 0 MAX_CLIENTS_PER_THREAD of
        Some i \<Rightarrow> (True, upd_client (Cptr w i) (\<lambda>_. new_client_in_slot fd) s)
      | None \<Rightarrow> (False, emit (Close fd) (decrement_clients w s)))"

definition find_client_by_fd :: "nat \<Rightarrow> int \<Rightarrow> server \<Rightarrow> cptr option" where
  "find_client_by_fd w fd s =
     map_option (Cptr w)
       (first_index (\<lambda>i. client_fd (client_at s (Cptr w i)) = fd) 0 MAX_CLIENTS_PER_THREAD)"

section \<open>New clients\<close>

definition welcome_text :: string where
  "welcome_text = ''WELCOME TO THE SERVER: THIS IS A FAMILY FRIENDLY SPACE, NO CURSING'' @ [LF] @
     ''Please enter Your User Name''"

text \<open>The descriptor travels through the eventfd as an unsigned 64-bit value: the casts
  \<open>(uint64_t)client_fd\<close> of the main thread and \<open>(int)value\<close> of the worker.\<close>

definition fd_to_efd :: "int \<Rightarrow> nat" where
  "fd_to_efd fd = unat (word_of_int fd :: 64 word)"

definition efd_to_fd :: "nat \<Rightarrow> int" where
  "efd_to_fd v = sint (word_of_nat v :: 32 word)"

text \<open>\<open>register_new_client\<close>. A read of the eventfd fails when its counter is 0; otherwise it
  returns the counter and resets it.\<close>

definition register_new_client :: "nat \<Rightarrow> bool \<Rightarrow> server \<Rightarrow> server res" where
  "register_new_client w add_ok s =
     (let value = efd_counter (worker_at s w);
          post = (\<lambda>s. emit (Sem_post w) (upd_worker w (\<lambda>t. t\<lparr>new_client := new_client t + 1\<rparr>) s)) in
      if value = 0 then Inr (post (decrement_clients w s))
      else
        let s1 = post (upd_worker w (\<lambda>t. t\<lparr>efd_counter := 0\<rparr>) s);
            fd = efd_to_fd value;
            (registered, s2) = register_with_epoll w fd add_ok s1 in
        if \<not> registered then Inr (emit (Close fd) (decrement_clients w s2))
        else
          let (allocated, s3) = allocate_client_slot w fd s2 in
          if allocated then send_message_to_client fd CMD_WELCOME_REQUEST welcome_text s3
          else Inr s3)"

section \<open>Events\<close>

text \<open>
  An event as \<open>epoll_wait\<close> reports it (descriptor and flags), with the answers the kernel will
  give to the \<open>recv\<close> and to the \<open>epoll_ctl\<close> that handling it may lead to.
\<close>

record epoll_event =
  ev_fd :: int
  ev_events :: "32 word"
  ev_recv :: recv_result
  ev_add_ok :: bool

definition handle_event :: "nat \<Rightarrow> epoll_event \<Rightarrow> server \<Rightarrow> server res" where
  "handle_event w e s =
     (if ev_fd e = notification_fd (worker_at s w) then register_new_client w (ev_add_ok e) s
      else (case find_client_by_fd w (ev_fd e) s of
              None \<Rightarrow> Inr s
            | Some p \<Rightarrow>
                if ev_events e AND (EPOLLRDHUP OR EPOLLERR OR EPOLLHUP) \<noteq> 0 then
                  handle_client_disconnection p s
                else read_and_process_client_message p (ev_recv e) s))"

fun process_epoll_events :: "nat \<Rightarrow> epoll_event list \<Rightarrow> server \<Rightarrow> server res" where
  "process_epoll_events w [] s = Inr s"
| "process_epoll_events w (e # es) s = res_bind (handle_event w e s) (process_epoll_events w es)"

text \<open>
  \<open>process_client_connections\<close>: the set-up of a worker (\<open>None\<close> is the exit of the process), and
  its loop over what the successive calls of \<open>epoll_wait\<close> return; an error or an empty answer
  sends the loop round again.
\<close>

definition worker_start :: "nat \<Rightarrow> int \<Rightarrow> bool \<Rightarrow> server \<Rightarrow> server option" where
  "worker_start w efd add_ok s =
     (let s1 = upd_worker w (\<lambda>t. t\<lparr>epoll_fd := efd\<rparr>) s in
      if efd = -1 then None
      else
        let (registered, s2) = register_with_epoll w (notification_fd (worker_at s1 w)) add_ok s1 in
        if registered then Some s2 else None)"

fun worker_loop :: "nat \<Rightarrow> epoll_event list option list \<Rightarrow> server \<Rightarrow> server res" where
  "worker_loop w [] s = Inr s"
| "worker_loop w (None # waits) s = worker_loop w waits s"
| "worker_loop w (Some events # waits) s =
     (if events = [] then worker_loop w waits s
      else res_bind (process_epoll_events w events s) (worker_loop w waits))"

end
