(* ===== verification/Client_Distributor.thy ===== *)
theory Client_Distributor
  imports Connection_Handler
begin

text \<open>
  \<open>server/client_distributor.c\<close> and the part of \<open>server/main.c\<close> that surrounds it: the main
  thread accepts connections and gives each to a worker, round robin among those below capacity.
  The hand-over goes through the worker's semaphore, which the worker posts when it has read the
  eventfd, so the main thread can have to wait between choosing a worker and notifying it. The two
  halves are \<open>pick_worker\<close> and \<open>hand_over\<close>.
\<close>

section \<open>Choosing a worker\<close>

text \<open>
  The \<open>while\<close> loop of \<open>find_worker_not_at_capacity\<close>. \<open>left\<close> is \<open>MAX_THREADS - num_attempts\<close>:
  the test \<open>num_attempts++ == MAX_THREADS\<close> succeeds when none is left. The static
  \<open>worker_index\<close> moves on with every worker that is looked at.
\<close>

definition next_index :: "server \<Rightarrow> server" where
  "next_index s = s\<lparr>worker_index := (worker_index s + 1) mod MAX_THREADS\<rparr>"

fun find_worker_loop :: "nat \<Rightarrow> server \<Rightarrow> nat option \<times> server" where
  "find_worker_loop left s =
     (let w = worker_index s; s1 = emit (Lock (Count_lock w)) s in
      if int MAX_CLIENTS_PER_THREAD \<le> num_of_clients (worker_at s1 w) then
        let s2 = next_index (emit (Unlock (Count_lock w)) s1) in
        (case left of 0 \<Rightarrow> (None, s2) | Suc left' \<Rightarrow> find_worker_loop left' s2)
      else
        (Some w,
         next_index (emit (Unlock (Count_lock w))
           (upd_worker w (\<lambda>t. t\<lparr>num_of_clients := num_of_clients t + 1\<rparr>) s1))))"

declare find_worker_loop.simps [simp del]

definition find_worker_not_at_capacity :: "server \<Rightarrow> nat option \<times> server" where
  "find_worker_not_at_capacity s = find_worker_loop MAX_THREADS s"

section \<open>Handing a client over\<close>

definition capacity_text :: string where
  "capacity_text =
     ''Sorry, the server is currently at full capacity. Please try again later!'' @ [CR, LF]"

definition connection_text :: string where
  "connection_text =
     ''Sorry, there was an error connecting to the server. Please try again!'' @ [CR, LF]"

definition handle_write_error :: "nat \<Rightarrow> int \<Rightarrow> server \<Rightarrow> server res" where
  "handle_write_error w fd s =
     res_bind
       (send_message_to_client fd ERR_CONNECTING connection_text
         (emit (Sem_post w) (upd_worker w (\<lambda>t. t\<lparr>new_client := new_client t + 1\<rparr>) s)))
       (\<lambda>t. Inr (decrement_clients w (emit (Close fd) t)))"

text \<open>Adding to an eventfd: the value \<open>2^64 - 1\<close> and a sum beyond \<open>2^64 - 2\<close> are refused.\<close>

definition efd_accepts :: "nat \<Rightarrow> nat \<Rightarrow> bool" where
  "efd_accepts counter value \<longleftrightarrow> value \<noteq> 2 ^ 64 - 1 \<and> counter + value \<le> 2 ^ 64 - 2"

definition pick_worker :: "int \<Rightarrow> server \<Rightarrow> (nat option \<times> server) res" where
  "pick_worker fd s =
     (case find_worker_not_at_capacity s of
        (None, s1) \<Rightarrow>
          res_bind (send_message_to_client fd ERR_SERVER_FULL capacity_text s1)
            (\<lambda>t. Inr (None, emit (Close fd) t))
      | (Some w, s1) \<Rightarrow> Inr (Some w, s1))"

text \<open>After \<open>sem_wait\<close> has returned; \<open>write_ok\<close> says whether \<open>write\<close> finds another reason to fail.\<close>

definition hand_over :: "int \<Rightarrow> nat \<Rightarrow> bool \<Rightarrow> server \<Rightarrow> server res" where
  "hand_over fd w write_ok s =
     (let s1 = emit (Sem_wait w) (upd_worker w (\<lambda>t. t\<lparr>new_client := new_client t - 1\<rparr>) s);
          value = fd_to_efd fd in
      if \<not> write_ok \<or> \<not> efd_accepts (efd_counter (worker_at s1 w)) value then
        handle_write_error w fd s1
      else Inr (upd_worker w (\<lambda>t. t\<lparr>efd_counter := efd_counter t + value\<rparr>) s1))"

text \<open>Where the main thread stands: in \<open>accept4\<close>, or in \<open>sem_wait\<close> with a client in its hands.\<close>

datatype main_state = Main_accepting | Main_waiting int nat

definition distribute_client :: "int \<Rightarrow> bool \<Rightarrow> server \<Rightarrow> (main_state \<times> server) res" where
  "distribute_client fd write_ok s =
     res_bind (pick_worker fd s) (\<lambda>(choice, t).
       case choice of
         None \<Rightarrow> Inr (Main_accepting, t)
       | Some w \<Rightarrow>
           if new_client (worker_at t w) = 0 then Inr (Main_waiting fd w, t)
           else res_bind (hand_over fd w write_ok t) (\<lambda>u. Inr (Main_accepting, u)))"

section \<open>Start-up and accepting\<close>

text \<open>
  \<open>init_server_rooms\<close> and \<open>setup_threads\<close>. \<open>fds w\<close> is the descriptor \<open>eventfd\<close> returns for
  worker \<open>w\<close> (-1 for a failure, which ends the process); the semaphore starts at 1. The failures
  of the mutex, semaphore and thread calls end the process too (\<open>inits_ok\<close>).
\<close>

definition init_server_rooms :: "server \<Rightarrow> server" where
  "init_server_rooms s = s\<lparr>server_rooms := (\<lambda>_. zero_room)\<rparr>"

fun setup_loop :: "(nat \<Rightarrow> int) \<Rightarrow> (nat \<Rightarrow> bool) \<Rightarrow> nat list \<Rightarrow> server \<Rightarrow> server option" where
  "setup_loop fds inits_ok [] s = Some s"
| "setup_loop fds inits_ok (w # ws) s =
     (if fds w = -1 \<or> \<not> inits_ok w then None
      else setup_loop fds inits_ok ws
        (upd_worker w (\<lambda>t. t\<lparr>notification_fd := fds w, new_client := 1\<rparr>) s))"

definition setup_threads :: "(nat \<Rightarrow> int) \<Rightarrow> (nat \<Rightarrow> bool) \<Rightarrow> server \<Rightarrow> server option" where
  "setup_threads fds inits_ok s =
     setup_loop fds inits_ok [0..<MAX_THREADS] (s\<lparr>worker_threads := (\<lambda>_. zero_worker)\<rparr>)"

text \<open>\<open>set_socket_keep_alive\<close>: four calls of \<open>setsockopt\<close>, the first failure stops.\<close>

definition set_socket_keep_alive :: "bool list \<Rightarrow> int" where
  "set_socket_keep_alive setsockopt_ok = (if list_all id (take 4 setsockopt_ok) then 0 else -1)"

text \<open>One round of the loop of \<open>main\<close>: what \<open>accept4\<close> returned, and what happens to it.\<close>

definition accept_round :: "int \<Rightarrow> bool list \<Rightarrow> bool \<Rightarrow> server \<Rightarrow> (main_state \<times> server) res" where
  "accept_round fd setsockopt_ok write_ok s =
     (if fd = -1 then Inr (Main_accepting, s)
      else if set_socket_keep_alive setsockopt_ok = -1 then Inr (Main_accepting, s)
      else distribute_client fd write_ok s)"

end
