(* ===== verification/Client_Accounts.thy ===== *)
theory Client_Accounts
  imports Client_Distributor
begin

text \<open>
  Which slots are in use, which descriptors they hold and how many clients a worker counts:
  serving a client changes none of this until the client is disconnected, and disconnecting
  changes all of it at once.
\<close>

definition ids_kept :: "server \<Rightarrow> server \<Rightarrow> bool" where
  "ids_kept s t \<longleftrightarrow>
     (\<forall>p. c_in_use (client_at t p) = c_in_use (client_at s p) \<and>
        client_fd (client_at t p) = client_fd (client_at s p)) \<and>
     (\<forall>w. num_of_clients (worker_at t w) = num_of_clients (worker_at s w) \<and>
        epoll_set (worker_at t w) = epoll_set (worker_at s w))"

interpretation ids: effect_preorder ids_kept
  by unfold_locales (auto simp: ids_kept_def)

lemma ids_structs: "same_structs s t \<Longrightarrow> ids_kept s t"
  by (simp add: ids_kept_def same_structs_state)

lemma ids_upd_room: "ids_kept s (upd_room i g s)"
  by (simp add: ids_kept_def)

lemma ids_upd_client:
  "(\<And>c. c_in_use (f c) = c_in_use c \<and> client_fd (f c) = client_fd c) \<Longrightarrow> ids_kept s (upd_client p f s)"
  by (simp add: ids_kept_def)

lemma ids_rooms:
  "ids_kept s (open_room p n i s)" "ids_kept s (move_into p i (add_member p k i s))"
  by (simp_all add: ids_kept_def open_room_def move_into_def add_member_def)

lemma leave_ids: "leave_room p ri s = Inr t \<Longrightarrow> ids_kept s t"
proof -
  assume t: "leave_room p ri s = Inr t"
  from leave_index [OF t] obtain i where ri: "ri = int i" by (metis nat_0_le)
  from leave_structs [OF t [unfolded ri]] show ?thesis
    unfolding leave_as_update by (blast intro: ids.keep_trans ids_upd_room ids_structs)
qed

lemma disconnect_ids:
  "handle_client_disconnection p s = Inr t \<Longrightarrow> \<exists>u. ids_kept s u \<and> t = cleanup_client p u"
  unfolding handle_client_disconnection_def
  by (auto simp: res_bind_eq_Inr split: if_splits intro: leave_ids ids.keep_refl)

lemma dispatch_ids:
  assumes t: "dispatch p s = Inr t" and c: "char_at (current_msg (client_at s p)) 0 \<noteq> CMD_EXIT"
  shows "ids_kept s t"
proof -
  from t c consider "handle_awaiting_username p s = Inr t"
    | "handle_in_chat_lobby p s = Inr t" | "handle_in_chat_room p s = Inr t"
    by (auto simp: dispatch_def split: if_splits client_state.splits)
  then show ?thesis
  proof cases
    case 1
    have "ids_kept s (upd_client p (\<lambda>c. c\<lparr>cname := n, cstate := IN_CHAT_LOBBY\<rparr>) s)" for n
      by (rule ids_upd_client) simp
    with awaiting_structs [OF 1] show ?thesis by (blast intro: ids.keep_trans ids_structs)
  next
    case 2
    then show ?thesis
      by (auto simp: handle_in_chat_lobby_def Let_def ids.keep_refl split: if_splits
          dest!: create_structs join_structs send_avail_rooms_structs
          intro: ids_structs ids.keep_trans [OF ids_rooms(1) ids_structs]
            ids.keep_trans [OF ids_rooms(2) ids_structs])
  next
    case 3
    have "ids_kept u (upd_client p (\<lambda>c. c\<lparr>cstate := IN_CHAT_LOBBY\<rparr>) u)" for u
      by (rule ids_upd_client) simp
    with in_room_structs [OF 3] show ?thesis
      by (blast intro: ids.keep_trans ids_structs leave_ids)
  qed
qed

lemma route_ids:
  assumes "route_client_command p s = Inr t"
  shows "ids_kept s t \<or>
    (is_exit (current_msg (client_at s p)) \<and> (\<exists>u. ids_kept s u \<and> t = cleanup_client p u))"
  using assms
proof (cases rule: route_cases)
  case rejected
  then show ?thesis by (simp add: ids_structs same_structs_sends)
next
  case accepted
  show ?thesis
  proof (cases "char_at (current_msg (client_at s p)) 0 = CMD_EXIT")
    case True
    with accepted disconnect_ids [of p s t] show ?thesis
      by (auto simp: dispatch_def is_exit_def acceptable_def)
  next
    case False
    with accepted dispatch_ids show ?thesis by blast
  qed
qed

text \<open>The outcome of serving a client: its slot is kept as it is, or cleared.\<close>

definition served :: "cptr \<Rightarrow> server \<Rightarrow> server \<Rightarrow> bool" where
  "served p s t \<longleftrightarrow> ids_kept s t \<or> (\<exists>u. ids_kept s u \<and> same_structs (cleanup_client p u) t)"

lemma cleanup_client_self: "client_at (cleanup_client p u) p = zero_client"
  by (simp add: cleanup_unfold)

lemma clear_cleared: "same_structs (cleanup_client p u) (clear_msg p (cleanup_client p u))"
proof -
  have "(worker_threads (clear_msg p (cleanup_client p u))) = worker_threads (cleanup_client p u)"
    using cleanup_client_self [of p u]
    by (auto simp: clear_msg_def upd_client_def upd_worker_def client_at_def zero_client_def
        intro!: ext) (auto simp: fun_upd_idem)
  then show ?thesis
    by (simp add: same_structs_def clear_msg_def upd_client_def upd_worker_def)
qed

lemma ids_buffer: "ids_kept s (upd_client p (\<lambda>c. c\<lparr>current_msg := m\<rparr>) s)"
  by (rule ids_upd_client) simp

lemma process_served:
  assumes "exit_last (current_msg (client_at s p)) temp" and "process_messages p temp s = Inr t"
  shows "served p s t"
  using assms
proof (induction "length temp" arbitrary: temp s rule: less_induct)
  case less
  show ?case
  proof (cases "split_crlf temp")
    case None
    with less.prems show ?thesis
      by (subst (asm) process_messages.simps)
        (auto simp: append_msg_def res_bind_eq_Inr served_def ids.keep_refl ids_buffer split: if_splits)
  next
    case (Some x)
    obtain seg rest where x: "x = (seg, rest)" by (cases x)
    let ?m = "current_msg (client_at s p) @ seg"
    let ?s1 = "upd_client p (\<lambda>c. c\<lparr>current_msg := ?m\<rparr>) s"
    from less.prems(2) Some x obtain s2 where
      s2: "route_client_command p ?s1 = Inr s2" and
      t: "process_messages p rest (clear_msg p s2) = Inr t"
      by (subst (asm) process_messages.simps)
        (auto simp: append_msg_def res_bind_eq_Inr c_store_eq_Inr)
    from route_ids [OF s2] consider
        (on) "ids_kept ?s1 s2" "\<not> is_exit ?m" | (on_exit) "ids_kept ?s1 s2" "is_exit ?m"
      | (off) u where "is_exit ?m" "ids_kept ?s1 u" "s2 = cleanup_client p u"
      by auto
    then show ?thesis
    proof cases
      case on
      with less.prems(1) Some x have "exit_last [] rest" by (subst (asm) exit_last.simps) simp
      then have "served p (clear_msg p s2) t"
        using less.hyps [of rest "clear_msg p s2"] split_crlf_length Some x t
        by (simp add: clear_msg_def)
      moreover have "ids_kept s (clear_msg p s2)"
        using on(1) unfolding clear_msg_def by (blast intro: ids.keep_trans ids_buffer)
      ultimately show ?thesis unfolding served_def by (blast intro: ids.keep_trans)
    next
      case on_exit
      with less.prems(1) Some x have "rest = []" by (subst (asm) exit_last.simps) simp
      with t have "t = clear_msg p s2" by (subst (asm) process_messages.simps) simp
      with on_exit(1) show ?thesis
        unfolding served_def clear_msg_def by (blast intro: ids.keep_trans ids_buffer)
    next
      case off
      with less.prems(1) Some x have "rest = []" by (subst (asm) exit_last.simps) simp
      with t have "t = clear_msg p s2" by (subst (asm) process_messages.simps) simp
      with off clear_cleared [of p u] show ?thesis
        unfolding served_def by (blast intro: ids.keep_trans ids_buffer)
    qed
  qed
qed

lemma disconnect_served: "handle_client_disconnection p s = Inr t \<Longrightarrow> served p s t"
  using disconnect_ids structs.keep_refl unfolding served_def by blast

lemma read_served:
  assumes "\<And>bs. r = Received bs \<Longrightarrow>
      exit_last (current_msg (client_at s p)) (cstr (take MAX_MESSAGE_LEN_TO_SERVER bs))"
    and "read_and_process_client_message p r s = Inr t"
  shows "served p s t"
  using assms
  by (auto simp: read_and_process_client_message_def split: recv_result.splits if_splits
      intro: process_served disconnect_served) (simp add: served_def ids.keep_refl)

end
