(* ===== verification/Server_System.thy ===== *)
theory Server_System
  imports Client_Accounts Room_Listing
begin

text \<open>
  The threads of the server together: the main thread and the workers take turns, one accepted
  connection, one hand-over or one epoll event at a time. Reachable states satisfy an invariant
  that accounts for every client from \<open>accept4\<close> to the clean-up of its slot. The assumptions about
  the kernel stand in the rules: \<open>accept4\<close> returns a descriptor nobody holds, epoll reports the
  eventfd only when its counter is positive. One assumption is about the clients: no client sends
  anything in the same segment after its EXIT (\<open>exit_last\<close>); \<open>exit_is_not_the_end\<close> shows what happens
  otherwise.
\<close>

section \<open>Descriptors and their holders\<close>

text \<open>An accepted descriptor is with the main thread, in an eventfd, or in a slot.\<close>

datatype holder = In_main | In_eventfd nat | In_slot cptr

fun fd_of :: "main_state \<Rightarrow> server \<Rightarrow> holder \<Rightarrow> int option" where
  "fd_of m s In_main = (case m of Main_waiting fd w \<Rightarrow> Some fd | Main_accepting \<Rightarrow> None)"
| "fd_of m s (In_eventfd w) =
     (if efd_counter (worker_at s w) = 0 then None else Some (efd_to_fd (efd_counter (worker_at s w))))"
| "fd_of m s (In_slot p) =
     (if c_in_use (client_at s p) then Some (client_fd (client_at s p)) else None)"

definition valid_fd :: "int \<Rightarrow> bool" where
  "valid_fd fd \<longleftrightarrow> 0 < fd \<and> fd < 2 ^ 31"

definition fds_ok :: "main_state \<Rightarrow> server \<Rightarrow> bool" where
  "fds_ok m s \<longleftrightarrow>
     (\<forall>h fd. fd_of m s h = Some fd \<longrightarrow> valid_fd fd) \<and>
     (\<forall>h h' fd. fd_of m s h = Some fd \<longrightarrow> fd_of m s h' = Some fd \<longrightarrow> h = h')"

definition fresh_fd :: "main_state \<Rightarrow> server \<Rightarrow> int \<Rightarrow> bool" where
  "fresh_fd m s fd \<longleftrightarrow> valid_fd fd \<and> (\<forall>h. fd_of m s h \<noteq> Some fd)"

text \<open>The casts lose nothing for the descriptors the kernel hands out.\<close>

lemma fd_round_trip: "valid_fd fd \<Longrightarrow> efd_to_fd (fd_to_efd fd) = fd"
proof -
  assume "valid_fd fd"
  then have fd: "0 < fd" "fd < 2 ^ 31" by (simp_all add: valid_fd_def)
  then have "fd_to_efd fd = nat fd"
    by (simp add: fd_to_efd_def unat_eq_nat_uint uint_word_of_int)
  with fd show ?thesis
    by (simp add: efd_to_fd_def sint_sbintrunc' signed_take_bit_int_eq_self)
qed

lemma fd_to_efd_valid: "valid_fd fd \<Longrightarrow> fd_to_efd fd \<noteq> 0 \<and> efd_accepts 0 (fd_to_efd fd)"
proof -
  assume "valid_fd fd"
  then have fd: "0 < fd" "fd < 2 ^ 31" by (simp_all add: valid_fd_def)
  then have "fd_to_efd fd = nat fd"
    by (simp add: fd_to_efd_def unat_eq_nat_uint uint_word_of_int)
  moreover have "0 < nat fd" "nat fd < 2 ^ 31" using fd by simp_all
  ultimately show ?thesis by (simp add: efd_accepts_def)
qed

section \<open>Accounts\<close>

definition pending_main :: "main_state \<Rightarrow> nat \<Rightarrow> nat" where
  "pending_main m w = (case m of Main_waiting fd v \<Rightarrow> if v = w then 1 else 0 | Main_accepting \<Rightarrow> 0)"

definition pending_efd :: "server \<Rightarrow> nat \<Rightarrow> nat" where
  "pending_efd s w = (if efd_counter (worker_at s w) = 0 then 0 else 1)"

text \<open>A worker counts the clients in its slots and those on their way to it, at most 1500; its
  semaphore is free exactly while its eventfd is empty.\<close>

definition worker_ok :: "main_state \<Rightarrow> server \<Rightarrow> nat \<Rightarrow> bool" where
  "worker_ok m s w \<longleftrightarrow>
     num_of_clients (worker_at s w) =
       int (client_count (worker_at s w) + pending_main m w + pending_efd s w) \<and>
     num_of_clients (worker_at s w) \<le> int MAX_CLIENTS_PER_THREAD \<and>
     new_client (worker_at s w) + pending_efd s w = 1"

definition slots_ok :: "server \<Rightarrow> bool" where
  "slots_ok s \<longleftrightarrow> (\<forall>p. if c_in_use (client_at s p)
     then owner p < MAX_THREADS \<and> slot p < MAX_CLIENTS_PER_THREAD
     else client_at s p = zero_client)"

definition main_ok :: "main_state \<Rightarrow> bool" where
  "main_ok m \<longleftrightarrow> (case m of Main_waiting fd w \<Rightarrow> w < MAX_THREADS | Main_accepting \<Rightarrow> True)"

type_synonym system = "main_state \<times> server"

definition sys_inv :: "system \<Rightarrow> bool" where
  "sys_inv = (\<lambda>(m, s). table_inv s \<and> slots_ok s \<and> fds_ok m s \<and> main_ok m \<and>
     worker_index s < MAX_THREADS \<and> (\<forall>w. w < MAX_THREADS \<longrightarrow> worker_ok m s w))"

section \<open>Steps\<close>

text \<open>What a worker can be told by epoll, and what its clients may send.\<close>

definition event_ok :: "nat \<Rightarrow> epoll_event \<Rightarrow> server \<Rightarrow> bool" where
  "event_ok w e s \<longleftrightarrow>
     (if ev_fd e = notification_fd (worker_at s w) then efd_counter (worker_at s w) \<noteq> 0
      else 0 < ev_fd e \<and>
        (case find_client_by_fd w (ev_fd e) s of
           None \<Rightarrow> True
         | Some p \<Rightarrow>
             (case ev_recv e of
                Recv_nonpositive again \<Rightarrow> True
              | Received bs \<Rightarrow>
                  exit_last (current_msg (client_at s p))
                    (cstr (take MAX_MESSAGE_LEN_TO_SERVER bs)))))"

inductive sys_step :: "system \<Rightarrow> system \<Rightarrow> bool" where
  starts: "w < MAX_THREADS \<Longrightarrow> epoll_fd (worker_at s w) = 0 \<Longrightarrow>
    worker_start w efd add_ok s = Some t \<Longrightarrow> sys_step (m, s) (m, t)"
| accepts: "fd = -1 \<or> fresh_fd Main_accepting s fd \<Longrightarrow>
    accept_round fd opts write_ok s = Inr (m, t) \<Longrightarrow> sys_step (Main_accepting, s) (m, t)"
| resumes: "0 < new_client (worker_at s w) \<Longrightarrow> hand_over fd w write_ok s = Inr t \<Longrightarrow>
    sys_step (Main_waiting fd w, s) (Main_accepting, t)"
| serves: "w < MAX_THREADS \<Longrightarrow> epoll_fd (worker_at s w) \<noteq> 0 \<Longrightarrow> event_ok w e s \<Longrightarrow>
    handle_event w e s = Inr t \<Longrightarrow> sys_step (m, s) (m, t)"

text \<open>The process starts with its static data zero.\<close>

definition zero_server :: "send_reply list \<Rightarrow> server" where
  "zero_server rs = \<lparr>server_rooms = (\<lambda>_. zero_room), worker_threads = (\<lambda>_. zero_worker),
     worker_index = 0, replies = rs, trace = []\<rparr>"

inductive reachable :: "system \<Rightarrow> bool" where
  boots: "setup_threads fds inits_ok (init_server_rooms (zero_server rs)) = Some s \<Longrightarrow>
    reachable (Main_accepting, s)"
| steps: "reachable x \<Longrightarrow> sys_step x y \<Longrightarrow> reachable y"

inductive_cases sys_stepE: "sys_step x y"

section \<open>Counting\<close>

lemma client_count_alt:
  "client_count (worker_at s w) = card {k. k < MAX_CLIENTS_PER_THREAD \<and> c_in_use (client_at s (Cptr w k))}"
  by (simp add: slot_count_def occupied_def client_at_worker)

lemma count_ids: "ids_kept s t \<Longrightarrow> client_count (worker_at t w) = client_count (worker_at s w)"
  unfolding client_count_alt by (simp add: ids_kept_def)

lemma structs_fd_of: "same_structs s t \<Longrightarrow> fd_of m t h = fd_of m s h"
  by (cases h) (simp_all add: same_structs_state)

lemma structs_worker_ok: "same_structs s t \<Longrightarrow> worker_ok m t w = worker_ok m s w"
  by (simp add: worker_ok_def pending_efd_def same_structs_state)

lemma structs_sys_inv: "same_structs s t \<Longrightarrow> sys_inv (m, t) = sys_inv (m, s)"
  by (simp add: sys_inv_def fds_ok_def slots_ok_def structs_fd_of structs_worker_ok
      same_structs_state table_inv_structs)

text \<open>A clean-up frees one slot and takes one off the count of its worker.\<close>

lemma cleanup_client_at:
  "client_at (cleanup_client p s) q = (if q = p then zero_client else client_at s q)"
  by (simp add: cleanup_unfold)

lemma cleanup_num:
  "num_of_clients (worker_at (cleanup_client p s) w) =
     (if w = owner p then num_of_clients (worker_at s w) - 1 else num_of_clients (worker_at s w))"
  by (simp add: cleanup_unfold)

lemma cleanup_count:
  assumes "c_in_use (client_at s p)" and "slot p < MAX_CLIENTS_PER_THREAD"
  shows "Suc (client_count (worker_at (cleanup_client p s) (owner p))) =
    client_count (worker_at s (owner p))"
proof -
  let ?A = "\<lambda>s. {k. k < MAX_CLIENTS_PER_THREAD \<and> c_in_use (client_at s (Cptr (owner p) k))}"
  have "?A s = insert (slot p) (?A (cleanup_client p s))"
    using assms by (cases p) (auto simp: cleanup_client_at)
  moreover have "slot p \<notin> ?A (cleanup_client p s)" by (cases p) (simp add: cleanup_client_at)
  ultimately show ?thesis unfolding client_count_alt by simp
qed

section \<open>Serving a client\<close>

lemma find_client_Some:
  assumes "find_client_by_fd w fd s = Some p" and "0 < fd" and "slots_ok s"
  shows "c_in_use (client_at s p)" "client_fd (client_at s p) = fd" "owner p = w"
    "slot p < MAX_CLIENTS_PER_THREAD"
proof -
  from assms(1) obtain i where i: "p = Cptr w i" "i < MAX_CLIENTS_PER_THREAD"
      "client_fd (client_at s p) = fd"
    by (auto simp: find_client_by_fd_def first_index_Some)
  then show "client_fd (client_at s p) = fd" "owner p = w" "slot p < MAX_CLIENTS_PER_THREAD"
    by simp_all
  show "c_in_use (client_at s p)"
  proof (rule ccontr)
    assume "\<not> c_in_use (client_at s p)"
    then have "client_at s p = zero_client" using assms(3) by (auto simp: slots_ok_def)
    with i assms(2) show False by simp
  qed
qed

text \<open>A change of a client in use that keeps its descriptor and its use, and the tables.\<close>

lemma kept_inv:
  assumes inv: "sys_inv (m, s)" and p: "c_in_use (client_at s p)"
    and others: "\<And>q. q \<noteq> p \<Longrightarrow> client_at t q = client_at s q"
    and self: "c_in_use (client_at t p)" "client_fd (client_at t p) = client_fd (client_at s p)"
    and workers: "\<And>v. num_of_clients (worker_at t v) = num_of_clients (worker_at s v) \<and>
      new_client (worker_at t v) = new_client (worker_at s v) \<and>
      efd_counter (worker_at t v) = efd_counter (worker_at s v)"
    and index: "worker_index t = worker_index s" and tab: "table_inv t"
  shows "sys_inv (m, t)"
proof -
  from inv p have bounds: "owner p < MAX_THREADS" "slot p < MAX_CLIENTS_PER_THREAD"
    by (auto simp: sys_inv_def slots_ok_def split: if_splits)
  have used: "c_in_use (client_at t q) = c_in_use (client_at s q)"
    "client_fd (client_at t q) = client_fd (client_at s q)" for q
    using p self others [of q] by (cases "q = p"; simp)+
  have "fd_of m t h = fd_of m s h" for h
    by (cases h) (simp_all add: used workers)
  moreover have "slots_ok t"
    unfolding slots_ok_def
  proof
    fix q
    show "if c_in_use (client_at t q) then owner q < MAX_THREADS \<and> slot q < MAX_CLIENTS_PER_THREAD
      else client_at t q = zero_client"
      using self(1) bounds inv others [of q] by (cases "q = p") (auto simp: sys_inv_def slots_ok_def)
  qed
  moreover have "client_count (worker_at t w) = client_count (worker_at s w)" for w
    unfolding client_count_alt by (simp add: used)
  then have "worker_ok m t w = worker_ok m s w" for w
    by (simp add: worker_ok_def pending_efd_def workers)
  ultimately show ?thesis using inv tab index by (simp add: sys_inv_def fds_ok_def)
qed

lemma served_inv:
  assumes inv: "sys_inv (m, s)" and p: "c_in_use (client_at s p)"
    and srv: "served p s t" and own: "only_own p s t" and tab: "table_inv t"
  shows "sys_inv (m, t)"
proof -
  from inv p have bounds: "owner p < MAX_THREADS" "slot p < MAX_CLIENTS_PER_THREAD"
    by (auto simp: sys_inv_def slots_ok_def split: if_splits)
  have efd: "efd_counter (worker_at t w) = efd_counter (worker_at s w)"
    "new_client (worker_at t w) = new_client (worker_at s w)" for w
    using own by (simp_all add: only_own_def)
  have others: "q \<noteq> p \<Longrightarrow> client_at t q = client_at s q" for q
    using own by (simp add: only_own_def)
  have index: "worker_index t = worker_index s" using own by (simp add: only_own_def)
  from srv consider (kept) "ids_kept s t"
    | (cleaned) u where "ids_kept s u" "same_structs (cleanup_client p u) t"
    by (auto simp: served_def)
  then show ?thesis
  proof cases
    case kept
    then show ?thesis
      by (intro kept_inv [OF inv p others _ _ _ index tab]) (use p in \<open>simp_all add: ids_kept_def efd\<close>)
  next
    case cleaned
    note st = same_structs_state [OF cleaned(2)]
    have tp: "client_at t p = zero_client" by (simp add: st cleanup_client_at)
    have fd: "fd_of m t h = (if h = In_slot p then None else fd_of m s h)" for h
    proof (cases h)
      case (In_slot q)
      then show ?thesis using tp others [of q] by auto
    qed (simp_all add: efd)
    have up: "c_in_use (client_at u p)" using cleaned(1) p by (simp add: ids_kept_def)
    have "worker_ok m t w" if w: "w < MAX_THREADS" for w
    proof (cases "w = owner p")
      case True
      have "num_of_clients (worker_at t w) = num_of_clients (worker_at s w) - 1"
        using True cleaned(1) by (simp add: st cleanup_num ids_kept_def)
      moreover have "Suc (client_count (worker_at t w)) = client_count (worker_at s w)"
        using cleanup_count [OF up bounds(2)] count_ids [OF cleaned(1)] True by (simp add: st)
      moreover have "worker_ok m s w" using inv w by (simp add: sys_inv_def)
      ultimately show ?thesis by (simp add: worker_ok_def pending_efd_def efd)
    next
      case False
      then have "worker_at t w = worker_at s w" using own by (simp add: only_own_def)
      moreover have "worker_ok m s w" using inv w by (simp add: sys_inv_def)
      ultimately show ?thesis by (simp add: worker_ok_def pending_efd_def)
    qed
    moreover have "slots_ok t"
      unfolding slots_ok_def
    proof
      fix q
      show "if c_in_use (client_at t q) then owner q < MAX_THREADS \<and> slot q < MAX_CLIENTS_PER_THREAD
        else client_at t q = zero_client"
        using tp inv others [of q] by (cases "q = p") (auto simp: sys_inv_def slots_ok_def)
    qed
    moreover have "fds_ok m t"
      using inv unfolding sys_inv_def fds_ok_def fd by (auto split: if_splits)
    ultimately show ?thesis using inv tab index by (simp add: sys_inv_def)
  qed
qed

section \<open>Taking in a new client\<close>

lemma decrement_simps [simp]:
  "client_at (decrement_clients w s) p = client_at s p"
  "room_at (decrement_clients w s) i = room_at s i"
  "worker_index (decrement_clients w s) = worker_index s"
  "worker_at (decrement_clients w s) v =
     (if v = w then (worker_at s w)\<lparr>num_of_clients := num_of_clients (worker_at s w) - 1\<rparr>
      else worker_at s v)"
  by (simp_all add: decrement_clients_def)

text \<open>The tables see neither the worker's own fields nor the trace.\<close>

lemma table_inv_cong:
  assumes "\<And>p. client_at t p = client_at s p" and "\<And>i. room_at t i = room_at s i"
  shows "table_inv t = table_inv s"
  by (simp add: table_inv_def rooms_ok_def linked_def sits_def assms)

lemma slots_ok_cong: "(\<And>p. client_at t p = client_at s p) \<Longrightarrow> slots_ok t = slots_ok s"
  by (simp add: slots_ok_def)

lemma count_cong:
  "(\<And>p. client_at t p = client_at s p) \<Longrightarrow> client_count (worker_at t w) = client_count (worker_at s w)"
  by (simp add: client_count_alt)

text \<open>One holder less: a descriptor that nobody keeps any more.\<close>

lemma fds_ok_drop:
  assumes "fds_ok m s" and "\<And>h'. fd_of m' t h' = (if h' = h then None else fd_of m s h')"
  shows "fds_ok m' t"
  using assms(1) unfolding fds_ok_def assms(2) by (auto split: if_splits)

text \<open>The same descriptors, one of them with another holder.\<close>

lemma fds_ok_move:
  assumes ok: "fds_ok m s" and src: "fd_of m s h = Some fd" and to: "fd_of m s g = None"
    and new: "\<And>h'. fd_of m' t h' = (if h' = g then Some fd else if h' = h then None else fd_of m s h')"
  shows "fds_ok m' t"
proof -
  have "valid_fd fd" using ok src by (simp add: fds_ok_def)
  moreover have "fd_of m s h' = Some fd \<Longrightarrow> h' = h" for h'
    using ok src unfolding fds_ok_def by blast
  ultimately show ?thesis
    using ok src unfolding fds_ok_def new by (auto split: if_splits)
qed

text \<open>A new descriptor for a holder that had none.\<close>

lemma fds_ok_new:
  assumes ok: "fds_ok m s" and fresh: "fresh_fd m s fd"
    and new: "\<And>h'. fd_of m' t h' = (if h' = g then Some fd else fd_of m s h')"
  shows "fds_ok m' t"
  using ok fresh unfolding fds_ok_def fresh_fd_def new by (auto split: if_splits)

lemma allocate_cases:
  assumes "allocate_client_slot w fd s = (b, t)"
  obtains (full) "\<not> b" "slot_count c_in_use MAX_CLIENTS_PER_THREAD (clients (worker_at s w)) = MAX_CLIENTS_PER_THREAD"
    | (free) i where "b" "i < MAX_CLIENTS_PER_THREAD" "\<not> c_in_use (client_at s (Cptr w i))"
        "t = upd_client (Cptr w i) (\<lambda>_. new_client_in_slot fd) s"
proof (cases "first_index (\<lambda>i. \<not> c_in_use (client_at s (Cptr w i))) 0 MAX_CLIENTS_PER_THREAD")
  case None
  then have "client_count (worker_at s w) = MAX_CLIENTS_PER_THREAD"
    by (simp add: client_slots.first_free_None client_at_worker)
  with None assms full show thesis by (simp add: allocate_client_slot_def)
next
  case (Some i)
  with assms have "b" "t = upd_client (Cptr w i) (\<lambda>_. new_client_in_slot fd) s"
    by (simp_all add: allocate_client_slot_def)
  with free first_index_bound [OF Some] show thesis by blast
qed

lemma new_client_fields [simp]:
  "c_in_use (new_client_in_slot fd)" "client_fd (new_client_in_slot fd) = fd"
  "cstate (new_client_in_slot fd) = AWAITING_USERNAME"
  by (simp_all add: new_client_in_slot_def)

lemma fill_count:
  assumes "i < MAX_CLIENTS_PER_THREAD" and "\<not> c_in_use (client_at s (Cptr w i))"
  shows "client_count (worker_at (upd_client (Cptr w i) (\<lambda>_. new_client_in_slot fd) s) w) =
    Suc (client_count (worker_at s w))"
proof -
  let ?t = "upd_client (Cptr w i) (\<lambda>_. new_client_in_slot fd) s"
  let ?A = "\<lambda>s. {k. k < MAX_CLIENTS_PER_THREAD \<and> c_in_use (client_at s (Cptr w k))}"
  have "?A ?t = insert i (?A s)" using assms(1) by auto
  moreover have "i \<notin> ?A s" using assms(2) by simp
  ultimately show ?thesis unfolding client_count_alt by simp
qed

text \<open>
  The state \<open>s\<close> after the eventfd of \<open>w\<close> was read: the semaphore posted, the descriptor in the
  hands of the worker. Either it gets a slot, or it is closed and no longer counted.
\<close>

definition read_efd :: "nat \<Rightarrow> server \<Rightarrow> server" where
  "read_efd w s =
     emit (Sem_post w) (upd_worker w (\<lambda>t. t\<lparr>new_client := new_client t + 1\<rparr>)
       (upd_worker w (\<lambda>t. t\<lparr>efd_counter := 0\<rparr>) s))"

lemma register_structs:
  assumes t: "register_new_client w add_ok s = Inr t" and v: "efd_counter (worker_at s w) \<noteq> 0"
  obtains (refused) "same_structs (decrement_clients w (read_efd w s)) t"
    | (full) u where "clients (worker_at u w) = clients (worker_at s w)"
        "client_count (worker_at u w) = MAX_CLIENTS_PER_THREAD"
    | (taken) u i where "i < MAX_CLIENTS_PER_THREAD" "\<not> c_in_use (client_at s (Cptr w i))"
        "\<And>v. worker_at u v = (if v = w then (worker_at (read_efd w s) w)\<lparr>epoll_set :=
            insert (efd_to_fd (efd_counter (worker_at s w))) (epoll_set (worker_at s w))\<rparr>
          else worker_at s v)"
        "\<And>p. client_at u p = client_at s p" "\<And>i. room_at u i = room_at s i"
        "worker_index u = worker_index s"
        "same_structs (upd_client (Cptr w i)
          (\<lambda>_. new_client_in_slot (efd_to_fd (efd_counter (worker_at s w)))) u) t"
proof -
  let ?fd = "efd_to_fd (efd_counter (worker_at s w))"
  obtain b u where u: "register_with_epoll w ?fd add_ok (read_efd w s) = (b, u)" by fastforce
  show thesis
  proof (cases b)
    case False
    with u have "same_structs (read_efd w s) u"
      by (auto simp: register_with_epoll_def Let_def structs.keep_refl split: if_splits)
    then have "same_structs (decrement_clients w (read_efd w s)) (decrement_clients w u)"
      by (simp add: decrement_clients_def same_structs_upd)
    moreover from t v u False have "t = emit (Close ?fd) (decrement_clients w u)"
      by (simp add: register_new_client_def read_efd_def)
    ultimately show thesis using refused by simp
  next
    case True
    with u have u': "u = upd_worker w (\<lambda>t. t\<lparr>epoll_set := insert ?fd (epoll_set t)\<rparr>)
        (emit (Epoll_add (epoll_fd (worker_at (read_efd w s) w)) ?fd) (read_efd w s))"
      by (auto simp: register_with_epoll_def Let_def split: if_splits)
    then have same: "client_at u p = client_at s p" "room_at u i = room_at s i"
      "worker_index u = worker_index s" for p i
      by (simp_all add: read_efd_def)
    obtain a x where x: "allocate_client_slot w ?fd u = (a, x)" by fastforce
    show thesis
    proof (rule allocate_cases [OF x])
      assume "\<not> a" "client_count (worker_at u w) = MAX_CLIENTS_PER_THREAD"
      moreover have "clients (worker_at u w) = clients (worker_at s w)"
        by (simp add: u' read_efd_def)
      ultimately show thesis using full by blast
    next
      fix i assume i: "a" "i < MAX_CLIENTS_PER_THREAD" "\<not> c_in_use (client_at u (Cptr w i))"
        "x = upd_client (Cptr w i) (\<lambda>_. new_client_in_slot ?fd) u"
      from t v u True x i(1) have "send_message_to_client ?fd CMD_WELCOME_REQUEST welcome_text x = Inr t"
        by (simp add: register_new_client_def read_efd_def)
      from same_structs_sends [OF send_InrD [OF this]] i show thesis
        by (intro taken [of i u]) (simp_all add: same u' read_efd_def)
    qed
  qed
qed

end
