(* ===== verification/Fine_Steps.thy ===== *)
theory Fine_Steps
  imports Server_System
begin

text \<open>
  The server at the grain of its critical sections. A worker thread that handles an event is at one
  of the points of \<open>pc\<close>, and one step takes it to the next: code that only its own thread can see,
  and at most one critical section (or one send outside of the locks, which the trace shows as a
  whole). Between two steps of a worker the other threads may do anything. The functions are those of
  \<open>Client_State\<close>, \<open>Room_Manager\<close> and \<open>Connection_Handler\<close>, cut where a lock is given back.
\<close>

section \<open>Points of a worker\<close>

text \<open>
  \<^item> \<open>Chunk p temp\<close>: in \<open>read_and_process_client_message\<close>, with \<open>temp\<close> of the read buffer to go.
  \<^item> \<open>Creating p name success i rest\<close>: in the loop of \<open>create_chat_room\<close>, about to lock room \<open>i\<close>.
  \<^item> \<open>Listing p i acc avail rest\<close>: in the loop of \<open>send_avail_rooms\<close>, about to lock room \<open>i\<close>.
  \<^item> \<open>Left p ri rest\<close>: in \<open>handle_in_chat_room\<close>, back from \<open>leave_room\<close>, the answer not yet sent.
  \<^item> \<open>Closing p after\<close>: in \<open>handle_client_disconnection\<close>, about to call \<open>cleanup_client\<close>.
  \<^item> \<open>Uncounting p after\<close>: in \<open>cleanup_client\<close>, the slot cleared, about to lock the client count.
  \<^item> \<open>Greeting fd\<close>, \<open>Refusing fd\<close>: at the end of \<open>register_new_client\<close>.

  \<open>rest\<close> is what the read buffer still holds; \<open>after\<close> is \<open>None\<close> when the disconnection was reported by
  epoll or \<open>recv\<close>, and no message is being handled.
\<close>

datatype pc =
    Ready
  | Chunk cptr string
  | Creating cptr string string nat string
  | Listing cptr nat string bool string
  | Left cptr int string
  | Closing cptr "string option"
  | Uncounting cptr "string option"
  | Greeting int
  | Refusing int

text \<open>The end of the loop body: the message buffer is cleared, the rest of the chunk follows.\<close>

definition next_message :: "cptr \<Rightarrow> string \<Rightarrow> server \<Rightarrow> pc \<times> server" where
  "next_message p rest s = (Chunk p rest, clear_msg p s)"

definition then_next :: "cptr \<Rightarrow> string \<Rightarrow> server res \<Rightarrow> (pc \<times> server) res" where
  "then_next p rest m = res_bind m (\<lambda>t. Inr (next_message p rest t))"

definition after_cleanup :: "cptr \<Rightarrow> string option \<Rightarrow> server \<Rightarrow> pc \<times> server" where
  "after_cleanup p after s = (case after of None \<Rightarrow> (Ready, s) | Some rest \<Rightarrow> next_message p rest s)"

section \<open>One step\<close>

definition begin_disconnect :: "cptr \<Rightarrow> string option \<Rightarrow> server \<Rightarrow> (pc \<times> server) res" where
  "begin_disconnect p after s =
     (if cstate (client_at s p) = IN_CHAT_ROOM then
        res_bind (leave_room p (room_index (client_at s p)) s) (\<lambda>t. Inr (Closing p after, t))
      else Inr (Closing p after, s))"

definition begin_create :: "cptr \<Rightarrow> string \<Rightarrow> server \<Rightarrow> (pc \<times> server) res" where
  "begin_create p rest s =
     (let name = drop 2 (current_msg (client_at s p)) in
      res_bind
        (c_store Success_msg MAX_MESSAGE_LEN_FROM_SERVER (created_prefix @ name @ [LF]))
        (\<lambda>success.
          if MAX_ROOM_NAME_LEN < length name then
            then_next p rest
              (send_message_to_client (client_fd (client_at s p)) ERR_ROOM_NAME_INVALID
                name_invalid_text s)
          else Inr (Creating p name success 0 rest, s)))"

definition begin_awaiting :: "cptr \<Rightarrow> string \<Rightarrow> server \<Rightarrow> (pc \<times> server) res" where
  "begin_awaiting p rest s =
     (let c = client_at s p; name = drop 2 (current_msg c) in
      if MAX_USERNAME_LEN < length name then
        then_next p rest
          (send_message_to_client (client_fd c) ERR_USERNAME_LENGTH username_long_text s)
      else
        res_bind (c_store Client_name (MAX_USERNAME_LEN + 1) name) (\<lambda>stored.
          Inr (Listing p 0 list_header False rest,
            upd_client p (\<lambda>c. c\<lparr>cname := stored, cstate := IN_CHAT_LOBBY\<rparr>) s)))"

definition begin_lobby :: "cptr \<Rightarrow> string \<Rightarrow> server \<Rightarrow> (pc \<times> server) res" where
  "begin_lobby p rest s =
     (let command = char_at (current_msg (client_at s p)) 0 in
      if command = CMD_ROOM_CREATE_REQUEST then begin_create p rest s
      else if command = CMD_ROOM_JOIN_REQUEST then then_next p rest (join_chat_room p s)
      else if command = CMD_ROOM_LIST_REQUEST then Inr (Listing p 0 list_header False rest, s)
      else Inr (next_message p rest s))"

definition begin_in_room :: "cptr \<Rightarrow> string \<Rightarrow> server \<Rightarrow> (pc \<times> server) res" where
  "begin_in_room p rest s =
     (let c = client_at s p; ri = room_index c in
      if char_at (current_msg c) 0 = CMD_ROOM_MESSAGE_SEND then
        then_next p rest (handle_in_chat_room p s)
      else
        res_bind
          (c_store Chat_msg MAX_MESSAGE_LEN_FROM_SERVER (cname c @ '' has left the room''))
          (\<lambda>_. res_bind (leave_room p ri s) (\<lambda>t. Inr (Left p ri rest, t))))"

definition begin_dispatch :: "cptr \<Rightarrow> string \<Rightarrow> server \<Rightarrow> (pc \<times> server) res" where
  "begin_dispatch p rest s =
     (if char_at (current_msg (client_at s p)) 0 = CMD_EXIT then begin_disconnect p (Some rest) s
      else (case cstate (client_at s p) of
              AWAITING_USERNAME \<Rightarrow> begin_awaiting p rest s
            | IN_CHAT_LOBBY \<Rightarrow> begin_lobby p rest s
            | IN_CHAT_ROOM \<Rightarrow> begin_in_room p rest s))"

definition begin_route :: "cptr \<Rightarrow> string \<Rightarrow> server \<Rightarrow> (pc \<times> server) res" where
  "begin_route p rest s =
     res_bind (validate_msg_format p s) (\<lambda>(valid, t).
       if \<not> valid then Inr (next_message p rest t)
       else res_bind (command_valid_for_state p t) (\<lambda>(allowed, u).
         if \<not> allowed then Inr (next_message p rest u) else begin_dispatch p rest u))"

definition create_step :: "cptr \<Rightarrow> string \<Rightarrow> string \<Rightarrow> nat \<Rightarrow> string \<Rightarrow> server \<Rightarrow> (pc \<times> server) res" where
  "create_step p name success i rest s =
     (if i < MAX_ROOMS then
        (let s1 = emit (Lock (Room_lock i)) s in
         if \<not> r_in_use (room_at s1 i) then then_next p rest (found_room p name success i s1)
         else Inr (Creating p name success (Suc i) rest, emit (Unlock (Room_lock i)) s1))
      else
        then_next p rest
          (send_message_to_client (client_fd (client_at s p)) ERR_ROOM_CAPACITY_FULL
            rooms_full_text s))"

definition list_step :: "cptr \<Rightarrow> nat \<Rightarrow> string \<Rightarrow> bool \<Rightarrow> string \<Rightarrow> server \<Rightarrow> (pc \<times> server) res" where
  "list_step p i acc avail rest s =
     (if i < MAX_ROOMS then
        (let s1 = emit (Lock (Room_lock i)) s in
         if r_in_use (room_at s1 i) then
           res_bind (c_store Room_entry 100 (room_entry i (room_at s1 i))) (\<lambda>entry.
           res_bind (c_store Room_list_msg MAX_MESSAGE_LEN_FROM_SERVER (acc @ entry)) (\<lambda>acc'.
             Inr (Listing p (Suc i) acc' True rest, emit (Unlock (Room_lock i)) s1)))
         else Inr (Listing p (Suc i) acc avail rest, emit (Unlock (Room_lock i)) s1))
      else
        then_next p rest (res_bind
          (if avail then Inr acc
           else c_store Room_list_msg MAX_MESSAGE_LEN_FROM_SERVER (acc @ no_rooms_text))
          (\<lambda>body. send_message_to_client (client_fd (client_at s p)) CMD_ROOM_LIST_RESPONSE body s)))"

definition left_step :: "cptr \<Rightarrow> int \<Rightarrow> string \<Rightarrow> server \<Rightarrow> (pc \<times> server) res" where
  "left_step p ri rest s =
     (let i = nat ri in
      then_next p rest (res_bind
        (send_message_to_client (client_fd (client_at s p)) CMD_ROOM_LEAVE_OK left_ok_text
          (emit (Lock (Room_lock i)) s))
        (\<lambda>u. Inr (upd_client p (\<lambda>c. c\<lparr>cstate := IN_CHAT_LOBBY\<rparr>)
          (emit (Unlock (Room_lock i)) u)))))"

text \<open>\<open>cleanup_client\<close> up to the lock of the count: epoll, \<open>close\<close>, \<open>memset\<close>.\<close>

definition clear_slot :: "cptr \<Rightarrow> server \<Rightarrow> server" where
  "clear_slot p s =
     (let w = owner p; fd = client_fd (client_at s p);
          s1 = emit (Epoll_del (epoll_fd (worker_at s w)) fd)
                 (upd_worker w (\<lambda>t. t\<lparr>epoll_set := epoll_set t - {fd}\<rparr>) s)
      in upd_client p (\<lambda>_. zero_client) (emit (Close fd) s1))"

fun micro :: "nat \<Rightarrow> pc \<Rightarrow> server \<Rightarrow> (pc \<times> server) res" where
  "micro w Ready s = Inr (Ready, s)"
| "micro w (Chunk p temp) s =
     (case split_crlf temp of
        None \<Rightarrow> res_bind (if temp \<noteq> [] then append_msg p temp s else Inr s) (\<lambda>t. Inr (Ready, t))
      | Some (seg, rest) \<Rightarrow> res_bind (append_msg p seg s) (begin_route p rest))"
| "micro w (Creating p name success i rest) s = create_step p name success i rest s"
| "micro w (Listing p i acc avail rest) s = list_step p i acc avail rest s"
| "micro w (Left p ri rest) s = left_step p ri rest s"
| "micro w (Closing p after) s = Inr (Uncounting p after, clear_slot p s)"
| "micro w (Uncounting p after) s = Inr (after_cleanup p after (decrement_clients (owner p) s))"
| "micro w (Greeting fd) s =
     res_bind (send_message_to_client fd CMD_WELCOME_REQUEST welcome_text s) (\<lambda>t. Inr (Ready, t))"
| "micro w (Refusing fd) s = Inr (Ready, emit (Close fd) (decrement_clients w s))"

section \<open>The first step of an event\<close>

text \<open>\<open>register_new_client\<close> up to the slot of the client: the eventfd read and the semaphore posted,
  the descriptor in epoll and in a free slot.\<close>

definition begin_register :: "nat \<Rightarrow> bool \<Rightarrow> server \<Rightarrow> (pc \<times> server) res" where
  "begin_register w add_ok s =
     (let value = efd_counter (worker_at s w) in
      if value = 0 then
        Inr (Ready, emit (Sem_post w) (upd_worker w (\<lambda>t. t\<lparr>new_client := new_client t + 1\<rparr>)
          (decrement_clients w s)))
      else
        let fd = efd_to_fd value;
            (registered, s2) = register_with_epoll w fd add_ok (read_efd w s) in
        if \<not> registered then Inr (Refusing fd, s2)
        else
          (case first_index (\<lambda>i. \<not> c_in_use (client_at s2 (Cptr w i))) 0 MAX_CLIENTS_PER_THREAD of
             Some i \<Rightarrow> Inr (Greeting fd, upd_client (Cptr w i) (\<lambda>_. new_client_in_slot fd) s2)
           | None \<Rightarrow> Inr (Refusing fd, s2)))"

definition begin_read :: "cptr \<Rightarrow> recv_result \<Rightarrow> server \<Rightarrow> (pc \<times> server) res" where
  "begin_read p r s =
     (case r of
        Recv_nonpositive again \<Rightarrow> if again then Inr (Ready, s) else begin_disconnect p None s
      | Received bytes \<Rightarrow> Inr (Chunk p (cstr (take MAX_MESSAGE_LEN_TO_SERVER bytes)), s))"

definition begin_event :: "nat \<Rightarrow> epoll_event \<Rightarrow> server \<Rightarrow> (pc \<times> server) res" where
  "begin_event w e s =
     (if ev_fd e = notification_fd (worker_at s w) then begin_register w (ev_add_ok e) s
      else (case find_client_by_fd w (ev_fd e) s of
              None \<Rightarrow> Inr (Ready, s)
            | Some p \<Rightarrow>
                if ev_events e AND (EPOLLRDHUP OR EPOLLERR OR EPOLLHUP) \<noteq> 0 then
                  begin_disconnect p None s
                else begin_read p (ev_recv e) s))"

section \<open>Every event ends\<close>

text \<open>\<open>work c\<close>: more than the number of steps a worker at \<open>c\<close> can still make.\<close>

definition chunk_work :: "string \<Rightarrow> nat" where
  "chunk_work temp = 1 + 60 * length temp"

fun work :: "pc \<Rightarrow> nat" where
  "work Ready = 0"
| "work (Chunk p temp) = chunk_work temp"
| "work (Creating p name success i rest) = Suc (MAX_ROOMS - i) + chunk_work rest"
| "work (Listing p i acc avail rest) = Suc (MAX_ROOMS - i) + chunk_work rest"
| "work (Left p ri rest) = 1 + chunk_work rest"
| "work (Closing p after) = (case after of None \<Rightarrow> 2 | Some rest \<Rightarrow> 2 + chunk_work rest)"
| "work (Uncounting p after) = (case after of None \<Rightarrow> 1 | Some rest \<Rightarrow> 1 + chunk_work rest)"
| "work (Greeting fd) = 1"
| "work (Refusing fd) = 1"

lemma then_next_eq: "then_next p rest m = Inr (c, t) \<longleftrightarrow> (\<exists>u. m = Inr u \<and> c = Chunk p rest \<and> t = clear_msg p u)"
  by (auto simp: then_next_def next_message_def res_bind_eq_Inr)

lemma chunk_work_rest:
  assumes "split_crlf temp = Some (seg, rest)"
  shows "chunk_work rest + 120 \<le> chunk_work temp"
  using split_crlf_eq [OF assms] by (simp add: chunk_work_def)

lemma disconnect_work: "begin_disconnect p after s = Inr (c, t) \<Longrightarrow> c = Closing p after"
  by (auto simp: begin_disconnect_def res_bind_eq_Inr split: if_splits)

lemma create_work: "begin_create p rest s = Inr (c, t) \<Longrightarrow> work c \<le> 60 + chunk_work rest"
  by (auto simp: begin_create_def Let_def res_bind_eq_Inr then_next_eq limits MAX_ROOMS_def
      split: if_splits)

lemma awaiting_work: "begin_awaiting p rest s = Inr (c, t) \<Longrightarrow> work c \<le> 60 + chunk_work rest"
  by (auto simp: begin_awaiting_def Let_def res_bind_eq_Inr then_next_eq MAX_ROOMS_def split: if_splits)

lemma lobby_work: "begin_lobby p rest s = Inr (c, t) \<Longrightarrow> work c \<le> 60 + chunk_work rest"
  by (auto simp: begin_lobby_def Let_def then_next_eq next_message_def MAX_ROOMS_def
      dest: create_work split: if_splits)

lemma in_room_work: "begin_in_room p rest s = Inr (c, t) \<Longrightarrow> work c \<le> 60 + chunk_work rest"
  by (auto simp: begin_in_room_def Let_def then_next_eq res_bind_eq_Inr split: if_splits)

lemma dispatch_work: "begin_dispatch p rest s = Inr (c, t) \<Longrightarrow> work c \<le> 60 + chunk_work rest"
  by (auto simp: begin_dispatch_def split: if_splits client_state.splits
      dest: disconnect_work awaiting_work lobby_work in_room_work)

lemma route_work: "begin_route p rest s = Inr (c, t) \<Longrightarrow> work c \<le> 60 + chunk_work rest"
  by (auto simp: begin_route_def res_bind_eq_Inr next_message_def dest: dispatch_work split: if_splits)

lemma micro_work: "micro w c s = Inr (c', t) \<Longrightarrow> c \<noteq> Ready \<Longrightarrow> work c' < work c"
proof (cases c)
  case (Chunk p temp)
  assume m: "micro w c s = Inr (c', t)"
  show ?thesis
  proof (cases "split_crlf temp")
    case None
    with m Chunk show ?thesis by (auto simp: res_bind_eq_Inr chunk_work_def)
  next
    case (Some x)
    obtain seg rest where x: "x = (seg, rest)" by (cases x)
    with m Chunk Some have "work c' \<le> 60 + chunk_work rest"
      by (auto simp: res_bind_eq_Inr dest: route_work)
    with chunk_work_rest [of temp seg rest] Some x Chunk show ?thesis by simp
  qed
qed (auto simp: create_step_def list_step_def left_step_def then_next_eq after_cleanup_def
    next_message_def Let_def res_bind_eq_Inr split: if_splits option.splits)

function run_pc :: "nat \<Rightarrow> pc \<Rightarrow> server \<Rightarrow> server res" where
  "run_pc w c s =
     (if c = Ready then Inr s else res_bind (micro w c s) (\<lambda>(c', t). run_pc w c' t))"
  by pat_completeness auto
termination
  by (relation "measure (\<lambda>(w, c, s). work c)") (auto dest: micro_work)

declare run_pc.simps [simp del]

end
