(* ===== verification/Fine_Run.thy ===== *)
theory Fine_Run
  imports Fine_Steps
begin

text \<open>
  A worker that is not interrupted: its steps, run to the end, are the function of the sources they
  were cut from. So the whole operations of \<open>Server_System\<close> are schedules of the small steps.
\<close>

declare res_bind_assoc [simp]

text \<open>\<open>resume w m\<close>: make the step \<open>m\<close>, then run to the end.\<close>

definition resume :: "nat \<Rightarrow> (pc \<times> server) res \<Rightarrow> server res" where
  "resume w m = res_bind m (\<lambda>(c, t). run_pc w c t)"

lemma run_Ready [simp]: "run_pc w Ready s = Inr s"
  by (subst run_pc.simps) simp

lemma run_step: "c \<noteq> Ready \<Longrightarrow> run_pc w c s = resume w (micro w c s)"
  by (subst run_pc.simps) (simp add: resume_def)

lemma resume_Inr [simp]: "resume w (Inr (c, t)) = run_pc w c t"
  by (simp add: resume_def)

lemma resume_Inl [simp]: "resume w (Inl e) = Inl e"
  by (simp add: resume_def)

lemma resume_bind: "resume w (res_bind m f) = res_bind m (\<lambda>x. resume w (f x))"
  by (simp add: resume_def)

text \<open>Going on with the next message of the chunk.\<close>

definition go_on :: "nat \<Rightarrow> cptr \<Rightarrow> string \<Rightarrow> server \<Rightarrow> server res" where
  "go_on w p rest t = run_pc w (Chunk p rest) (clear_msg p t)"

lemma resume_next [simp]: "resume w (Inr (next_message p rest t)) = go_on w p rest t"
  by (simp add: next_message_def go_on_def)

lemma resume_then_next [simp]: "resume w (then_next p rest m) = res_bind m (go_on w p rest)"
  by (simp add: then_next_def resume_bind)

lemma resume_if: "resume w (if b then m else m') = (if b then resume w m else resume w m')"
  by simp

section \<open>The loops over the rooms\<close>

lemma run_create:
  "run_pc w (Creating p name success i rest) s = res_bind (create_loop p name success i s) (go_on w p rest)"
proof (induction p name success i s rule: create_loop.induct)
  case (1 p name success i s)
  show ?case
  proof (cases "i < MAX_ROOMS \<and> r_in_use (room_at s i)")
    case True
    then have "run_pc w (Creating p name success i rest) s =
        run_pc w (Creating p name success (Suc i) rest)
          (emit (Unlock (Room_lock i)) (emit (Lock (Room_lock i)) s))"
      by (simp add: run_step create_step_def Let_def)
    with 1 True show ?thesis by (subst create_loop.simps) (simp add: Let_def)
  next
    case False
    then show ?thesis
      by (subst create_loop.simps) (auto simp: run_step create_step_def Let_def)
  qed
qed

text \<open>What \<open>send_avail_rooms\<close> does with the list it has put together.\<close>

definition send_list :: "cptr \<Rightarrow> string \<Rightarrow> bool \<Rightarrow> server \<Rightarrow> server res" where
  "send_list p acc avail t =
     res_bind
       (if avail then Inr acc
        else c_store Room_list_msg MAX_MESSAGE_LEN_FROM_SERVER (acc @ no_rooms_text))
       (\<lambda>body. send_message_to_client (client_fd (client_at t p)) CMD_ROOM_LIST_RESPONSE body t)"

lemma send_avail_rooms_split:
  "send_avail_rooms p s = res_bind (list_loop 0 list_header False s) (\<lambda>(acc, avail, t). send_list p acc avail t)"
  by (simp add: send_avail_rooms_def send_list_def)

lemma run_list:
  "run_pc w (Listing p i acc avail rest) s =
     res_bind (list_loop i acc avail s) (\<lambda>(acc, avail, t). res_bind (send_list p acc avail t) (go_on w p rest))"
proof (induction i acc avail s rule: list_loop.induct)
  case (1 i acc avail s)
  let ?s1 = "emit (Lock (Room_lock i)) s"
  let ?s2 = "emit (Unlock (Room_lock i)) ?s1"
  show ?case
  proof (cases "i < MAX_ROOMS")
    case False
    then show ?thesis
      by (subst list_loop.simps) (simp add: run_step list_step_def send_list_def)
  next
    case lt: True
    show ?thesis
    proof (cases "r_in_use (room_at s i)")
      case False
      then have "run_pc w (Listing p i acc avail rest) s = run_pc w (Listing p (Suc i) acc avail rest) ?s2"
        using lt by (simp add: run_step list_step_def Let_def)
      with 1(2) [OF lt refl] lt False show ?thesis by (subst list_loop.simps) (simp add: Let_def)
    next
      case True
      then have "run_pc w (Listing p i acc avail rest) s =
          res_bind (c_store Room_entry 100 (room_entry i (room_at ?s1 i))) (\<lambda>entry.
          res_bind (c_store Room_list_msg MAX_MESSAGE_LEN_FROM_SERVER (acc @ entry)) (\<lambda>acc'.
            run_pc w (Listing p (Suc i) acc' True rest) ?s2))"
        using lt by (simp add: run_step list_step_def Let_def resume_bind)
      also have "\<dots> = res_bind (c_store Room_entry 100 (room_entry i (room_at ?s1 i))) (\<lambda>entry.
          res_bind (c_store Room_list_msg MAX_MESSAGE_LEN_FROM_SERVER (acc @ entry)) (\<lambda>acc'.
            res_bind (list_loop (Suc i) acc' True ?s2)
              (\<lambda>(acc, avail, t). res_bind (send_list p acc avail t) (go_on w p rest))))"
        using 1(1) [OF lt refl] True by (intro res_bind_cong refl) simp
      finally show ?thesis using lt True by (subst list_loop.simps) (simp add: Let_def)
    qed
  qed
qed

section \<open>One message\<close>

lemma clear_slot_cleanup: "decrement_clients (owner p) (clear_slot p s) = cleanup_client p s"
  by (simp add: clear_slot_def cleanup_client_def Let_def)

lemma run_closing:
  "run_pc w (Closing p after) s =
     (case after of None \<Rightarrow> Inr (cleanup_client p s) | Some rest \<Rightarrow> go_on w p rest (cleanup_client p s))"
  by (simp add: run_step clear_slot_cleanup after_cleanup_def split: option.splits)

lemma resume_disconnect:
  "resume w (begin_disconnect p after s) =
     res_bind (handle_client_disconnection p s)
       (\<lambda>t. case after of None \<Rightarrow> Inr t | Some rest \<Rightarrow> go_on w p rest t)"
  by (auto simp: begin_disconnect_def handle_client_disconnection_def resume_bind run_closing
      split: option.splits)

lemma resume_create: "resume w (begin_create p rest s) = res_bind (create_chat_room p s) (go_on w p rest)"
  by (simp add: begin_create_def create_chat_room_def Let_def resume_bind resume_if run_create)
    (auto simp: run_create intro!: res_bind_cong)

lemma resume_awaiting:
  "resume w (begin_awaiting p rest s) = res_bind (handle_awaiting_username p s) (go_on w p rest)"
  by (simp add: begin_awaiting_def handle_awaiting_username_def Let_def resume_bind run_list
      send_avail_rooms_split case_prod_unfold)

lemma resume_lobby:
  "resume w (begin_lobby p rest s) = res_bind (handle_in_chat_lobby p s) (go_on w p rest)"
  by (simp add: begin_lobby_def handle_in_chat_lobby_def Let_def resume_create run_list
      send_avail_rooms_split case_prod_unfold)

lemma run_left:
  "run_pc w (Left p ri rest) s =
     res_bind (send_message_to_client (client_fd (client_at s p)) CMD_ROOM_LEAVE_OK left_ok_text
       (emit (Lock (Room_lock (nat ri))) s))
     (\<lambda>u. go_on w p rest (upd_client p (\<lambda>c. c\<lparr>cstate := IN_CHAT_LOBBY\<rparr>)
       (emit (Unlock (Room_lock (nat ri))) u)))"
  by (simp add: run_step left_step_def Let_def)

lemma resume_in_room:
  "resume w (begin_in_room p rest s) = res_bind (handle_in_chat_room p s) (go_on w p rest)"
  by (simp add: begin_in_room_def handle_in_chat_room_def Let_def resume_bind run_left)

lemma resume_dispatch: "resume w (begin_dispatch p rest s) = res_bind (dispatch p s) (go_on w p rest)"
  by (cases "cstate (client_at s p)")
    (simp_all add: begin_dispatch_def dispatch_def resume_disconnect resume_awaiting resume_lobby
      resume_in_room)

lemma resume_route: "resume w (begin_route p rest s) = res_bind (route_client_command p s) (go_on w p rest)"
  unfolding begin_route_def route_client_command_def resume_bind res_bind_assoc
  by (intro res_bind_cong refl)
    (auto simp: resume_bind resume_dispatch resume_if intro!: res_bind_cong split: prod.splits)

section \<open>Reading and events\<close>

lemma run_chunk: "run_pc w (Chunk p temp) s = process_messages p temp s"
proof (induction "length temp" arbitrary: temp s rule: less_induct)
  case less
  show ?case
  proof (cases "split_crlf temp")
    case None
    then show ?thesis by (subst process_messages.simps) (simp add: run_step resume_bind)
  next
    case (Some x)
    obtain seg rest where x: "x = (seg, rest)" by (cases x)
    have "go_on w p rest = (\<lambda>t. process_messages p rest (clear_msg p t))"
      unfolding go_on_def using less split_crlf_length Some x by blast
    with Some x show ?thesis
      by (subst process_messages.simps) (simp add: run_step resume_bind resume_route)
  qed
qed

lemma resume_read: "resume w (begin_read p r s) = read_and_process_client_message p r s"
  by (auto simp: begin_read_def read_and_process_client_message_def run_chunk resume_disconnect
      split: recv_result.splits)

lemma resume_register: "resume w (begin_register w add_ok s) = register_new_client w add_ok s"
proof -
  obtain b u where u: "register_with_epoll w (efd_to_fd (efd_counter (worker_at s w))) add_ok (read_efd w s) = (b, u)"
    by fastforce
  then show ?thesis
    by (cases b)
      (auto simp: begin_register_def register_new_client_def Let_def run_step resume_bind read_efd_def
        allocate_client_slot_def split: option.splits)
qed

lemma resume_event: "resume w (begin_event w e s) = handle_event w e s"
  by (auto simp: begin_event_def handle_event_def resume_register resume_disconnect resume_read
      split: option.splits)

end
