(* ===== verification/Faults.thy ===== *)
theory Faults
  imports Client_Facts
begin

text \<open>
  Which faults handling a message can run into: no index leaves its array, every buffer but the
  one of the room list is large enough, and the room list is the only one that is not.
\<close>

section \<open>Room numbers\<close>

lemma parse_room_number_cases:
  obtains (bad) "parse_room_number msg = -1"
    | (one) c where "c_isdigit c" "drop 2 msg = [c] \<or> (\<exists>r. drop 2 msg = c # NUL # r)"
        "parse_room_number msg = digit_val c"
    | (two) c d where "c_isdigit c" "c_isdigit d"
        "drop 2 msg = [c, d] \<or> (\<exists>r. drop 2 msg = c # d # NUL # r)"
        "parse_room_number msg = 10 * digit_val c + digit_val d"
proof -
  have nul: "\<not> c_isdigit NUL" by (simp add: c_isdigit_def)
  show thesis
  proof (cases "parse_room_number msg = -1")
    case True
    then show thesis by (rule bad)
  next
    case False
    then have d0: "c_isdigit (char_at (drop 2 msg) 0)" and
      shape: "char_at (drop 2 msg) 1 = NUL \<or>
        c_isdigit (char_at (drop 2 msg) 1) \<and> char_at (drop 2 msg) 2 = NUL" and
      n: "parse_room_number msg = c_atoi (drop 2 msg)"
      by (auto simp: parse_room_number_def Let_def split: if_splits)
    obtain c r where c: "drop 2 msg = c # r" "c_isdigit c"
      using d0 nul by (cases "drop 2 msg") (auto simp: char_at_def)
    have atoi: "c_atoi (c # r) = foldl (\<lambda>acc x. acc * 10 + digit_val x) 0 (c # takeWhile c_isdigit r)"
      using c_isdigit_not_space [OF c(2)] c_isdigit_not_sign [OF c(2)] c(2)
      by (simp add: c_atoi_def char_at_def Let_def)
    show thesis
    proof (cases r)
      case Nil
      with c n atoi show thesis by (intro one [of c]) simp_all
    next
      case (Cons d r')
      show thesis
      proof (cases "d = NUL")
        case True
        with Cons c n atoi nul show thesis by (intro one [of c]) simp_all
      next
        case d: False
        with shape c Cons have d: "c_isdigit d" "r' = [] \<or> (\<exists>r''. r' = NUL # r'')"
          by (cases r'; auto simp: char_at_def numeral_2_eq_2)+
        then have "takeWhile c_isdigit r = [d]" using Cons nul by auto
        with c n atoi d Cons show thesis by (intro two [of c d]) auto
      qed
    qed
  qed
qed

lemma parse_room_number_bounds: "-1 \<le> parse_room_number msg \<and> parse_room_number msg \<le> 99"
  by (rule parse_room_number_cases [of msg])
    (use digit_val_bounds in \<open>fastforce dest: digit_val_bounds\<close>)+

lemma parse_room_number_digits: "n < 100 \<Longrightarrow> parse_room_number (c # SPACE # dec_digits n) = int n"
proof -
  assume n: "n < 100"
  have "int (n div 10) * 10 + int (n mod 10) = int n" by presburger
  with n show ?thesis
    by (cases "n < 10")
      (simp_all add: parse_room_number_def dec_digits_1 dec_digits_2 char_at_def c_atoi_digits
        digit_char [of "n div 10"] digit_char [of "n mod 10"])
qed

section \<open>Operations that always return\<close>

definition names_ok :: "server \<Rightarrow> bool" where
  "names_ok s \<longleftrightarrow> (\<forall>p. length (cname (client_at s p)) \<le> MAX_USERNAME_LEN)"

lemma short_send: "length m + 4 < MAX_MESSAGE_LEN_FROM_SERVER \<Longrightarrow>
    \<exists>t. send_message_to_client fd code m s = Inr t"
  using send_returns by (simp add: returns_iff)

lemma reply_sends:
  "length m \<le> 200 \<Longrightarrow> \<exists>t. send_message_to_client fd code m s = Inr t"
  by (rule short_send) (simp add: limits)

lemma returns_section: "returns (res_bind m (\<lambda>t. Inr (g t))) = returns m"
  by (cases m) simp_all

lemma returns_then: "returns m \<Longrightarrow> (\<And>x. returns (f x)) \<Longrightarrow> returns (res_bind m f)"
  by (cases m) simp_all

lemma found_room_returns:
  "length name \<le> MAX_ROOM_NAME_LEN \<Longrightarrow> length success \<le> 200 \<Longrightarrow> returns (found_room p name success i s)"
  using reply_sends [of success] by (simp add: found_room_def returns_bind)

lemma create_loop_returns:
  "length name \<le> MAX_ROOM_NAME_LEN \<Longrightarrow> length success \<le> 200 \<Longrightarrow>
   returns (create_loop p name success i s)"
proof (induction p name success i s rule: create_loop.induct)
  case (1 p name success i s)
  then show ?case
    using reply_sends [of rooms_full_text] found_room_returns
    by (subst create_loop.simps) (simp add: Let_def text_lengths returns_iff)
qed

lemma create_returns:
  assumes "length (drop 2 (current_msg (client_at s p))) \<le> MAX_CONTENT_LEN"
  shows "returns (create_chat_room p s)"
  using assms create_loop_returns reply_sends [of name_invalid_text]
  by (simp add: create_chat_room_def Let_def returns_bind c_store_eq_Inr text_lengths limits returns_iff)

lemma enter_returns: "length m \<le> 200 \<Longrightarrow> returns (enter_room p m i s)"
  using broadcast_returns [of m] reply_sends [of joined_text]
  by (auto simp: enter_room_def returns_bind text_lengths limits split: option.splits)

lemma join_returns:
  assumes "length (cname (client_at s p)) \<le> MAX_USERNAME_LEN"
  shows "returns (join_chat_room p s)"
proof -
  let ?m = "cname (client_at s p) @ entered_suffix"
  have m: "length ?m \<le> 200" "length ?m < MAX_MESSAGE_LEN_FROM_SERVER"
    using assms by (simp_all add: text_lengths limits)
  have r: "returns (send_message_to_client fd code x t)" if "length x \<le> 200" for fd code x t
    using reply_sends [OF that] by (simp add: returns_iff)
  show ?thesis
    using parse_room_number_bounds [of "current_msg (client_at s p)"] m
    by (simp add: join_chat_room_def Let_def r returns_section enter_returns text_lengths)
qed

lemma leave_returns:
  assumes "length (cname (client_at s p)) \<le> MAX_USERNAME_LEN" and "0 \<le> ri" "ri < int MAX_ROOMS"
  shows "returns (leave_room p ri s)"
  using assms broadcast_returns [of "cname (client_at s p) @ left_suffix"]
  by (simp add: leave_room_def Let_def returns_bind text_lengths limits)

section \<open>One message\<close>

definition list_fits :: "server \<Rightarrow> bool" where
  "list_fits s \<longleftrightarrow> length (room_list_text s) + 4 < MAX_MESSAGE_LEN_FROM_SERVER"

lemma list_fits_state:
  assumes "\<And>i. room_at t i = room_at s i"
  shows "list_fits t = list_fits s"
  using room_lines_state [OF assms] by (simp add: list_fits_def room_list_text_def)

lemma acceptable_length:
  "acceptable c \<Longrightarrow> length (drop 2 (current_msg c)) \<le> MAX_CONTENT_LEN"
  by (auto simp: acceptable_def format_error_def split: if_splits)

lemma disconnect_returns:
  assumes "table_inv s" and "names_ok s"
  shows "returns (handle_client_disconnection p s)"
proof (cases "cstate (client_at s p) = IN_CHAT_ROOM")
  case True
  with assms(1) obtain i k where "room_index (client_at s p) = int i" "i < MAX_ROOMS"
    by (auto simp: table_inv_def elim: linked_in_room)
  with assms(2) leave_returns [of s p] show ?thesis
    by (simp add: handle_client_disconnection_def returns_section names_ok_def)
qed (simp add: handle_client_disconnection_def)

lemma awaiting_returns:
  assumes "rooms_ok s" and "list_fits s"
  shows "returns (handle_awaiting_username p s)"
proof -
  have "returns (send_avail_rooms p (upd_client p f s))" for f
    using assms send_avail_rooms_returns [of "upd_client p f s"] list_fits_state [of "upd_client p f s" s]
    by (simp add: list_fits_def)
  then show ?thesis
    using reply_sends [of username_long_text] reply_text_lengths
    by (simp add: handle_awaiting_username_def Let_def returns_iff)
qed

lemma in_room_returns:
  assumes inv: "table_inv s" and names: "names_ok s" and room: "cstate (client_at s p) = IN_CHAT_ROOM"
    and len: "length (drop 2 (current_msg (client_at s p))) \<le> MAX_CONTENT_LEN"
  shows "returns (handle_in_chat_room p s)"
proof -
  from inv room obtain i k where i: "room_index (client_at s p) = int i" "i < MAX_ROOMS"
    by (auto simp: table_inv_def elim: linked_in_room)
  have n: "length (cname (client_at s p)) \<le> 32" using names by (simp add: names_ok_def limits)
  have b: "returns (broadcast_message_in_room (cname (client_at s p) @ '': '' @ drop 2 (current_msg (client_at s p))) j p t)"
    for j t
    using broadcast_returns n len by (simp add: returns_iff limits)
  have l: "returns (leave_room p (int i) s)" using n i by (intro leave_returns) (simp_all add: limits)
  have s: "returns (send_message_to_client fd code left_ok_text t)" for fd code t
    using reply_sends [of left_ok_text] reply_text_lengths by (simp add: returns_iff)
  show ?thesis
    using i n len b s
    by (simp add: handle_in_chat_room_def Let_def returns_section limits)
      (intro impI returns_then [OF l], simp add: returns_section)
qed

lemma dispatch_returns:
  assumes inv: "table_inv s" and names: "names_ok s" and fits: "list_fits s"
    and acc: "acceptable (client_at s p)"
  shows "returns (dispatch p s)"
proof -
  note len = acceptable_length [OF acc]
  have ok: "rooms_ok s" using inv by (simp add: table_inv_def)
  have "returns (handle_in_chat_lobby p s)"
    using create_returns [OF len] join_returns names send_avail_rooms_returns [OF ok] fits
    by (simp add: handle_in_chat_lobby_def Let_def list_fits_def names_ok_def)
  then show ?thesis
    using disconnect_returns [OF inv names] awaiting_returns [OF ok fits] in_room_returns [OF inv names _ len]
    by (simp add: dispatch_def split: client_state.splits)
qed

lemma format_error_text: "format_error m = Some (code, str) \<Longrightarrow> length str \<le> 200"
  using reply_text_lengths by (auto simp: format_error_def split: if_splits)

lemma state_error_text: "state_error st c = Some str \<Longrightarrow> length str \<le> 200"
  using reply_text_lengths by (auto simp: state_error_def split: if_splits)

lemma route_returns:
  assumes "table_inv s" and "names_ok s" and "list_fits s"
  shows "returns (route_client_command p s)"
proof -
  have v: "returns (validate_msg_format p s)"
    using reply_sends format_error_text
    by (fastforce simp: validate_msg_format_def returns_bind split: option.splits)
  have c: "returns (command_valid_for_state p s)"
    using reply_sends state_error_text
    by (fastforce simp: command_valid_for_state_def Let_def returns_bind split: option.splits)
  show ?thesis
  proof (cases "acceptable (client_at s p)")
    case True
    with dispatch_returns [OF assms] show ?thesis
      by (simp add: route_client_command_def validate_msg_format_def command_valid_for_state_def
          acceptable_def)
  next
    case False
    from v obtain b u where u: "validate_msg_format p s = Inr (b, u)" by (auto simp: returns_iff)
    from c obtain a w where w: "command_valid_for_state p s = Inr (a, w)" by (auto simp: returns_iff)
    from validate_cases [OF u] state_valid_cases [OF w] False u w show ?thesis
      by (auto simp: route_client_command_def acceptable_def)
  qed
qed

section \<open>Names stay short\<close>

definition names_kept :: "server \<Rightarrow> server \<Rightarrow> bool" where
  "names_kept s t \<longleftrightarrow> (names_ok s \<longrightarrow> names_ok t)"

interpretation names: effect_preorder names_kept
  by unfold_locales (simp_all add: names_kept_def)

lemma names_structs: "same_structs s t \<Longrightarrow> names_kept s t"
  by (simp add: names_kept_def names_ok_def same_structs_state)

lemma names_upd_room: "names_kept s (upd_room i g s)"
  by (simp add: names_kept_def names_ok_def)

lemma names_upd_client:
  "(\<And>c. length (cname c) \<le> MAX_USERNAME_LEN \<Longrightarrow> length (cname (f c)) \<le> MAX_USERNAME_LEN) \<Longrightarrow>
   names_kept s (upd_client p f s)"
  by (simp add: names_kept_def names_ok_def)

lemma names_cleanup: "names_kept s (cleanup_client p s)"
  by (simp add: names_kept_def names_ok_def cleanup_unfold)

lemma leave_names: "leave_room p ri s = Inr t \<Longrightarrow> names_kept s t"
proof -
  assume t: "leave_room p ri s = Inr t"
  from leave_index [OF t] obtain i where ri: "ri = int i" by (metis nat_0_le)
  from leave_structs [OF t [unfolded ri]] show ?thesis
    unfolding leave_as_update by (blast intro: names.keep_trans names_upd_room names_structs)
qed

lemma disconnect_names: "res_all (names_kept s) (handle_client_disconnection p s)"
  by (rule res_allI) (auto simp: handle_client_disconnection_def res_bind_eq_Inr names_cleanup
      split: if_splits intro: names.keep_trans leave_names)

lemma lobby_names: "handle_in_chat_lobby p s = Inr t \<Longrightarrow> names_kept s t"
proof -
  assume t: "handle_in_chat_lobby p s = Inr t"
  have up: "names_kept s (upd_client p (\<lambda>c. c\<lparr>room_index := r, cstate := x\<rparr>) s)"
    "names_kept s (upd_client p (\<lambda>c. c\<lparr>cstate := x, room_index := r\<rparr>) s)" for r x s
    by (rule names_upd_client, simp)+
  from t consider "create_chat_room p s = Inr t" | "join_chat_room p s = Inr t"
    | "same_structs s t"
    by (auto simp: handle_in_chat_lobby_def Let_def structs.keep_refl split: if_splits
        dest: send_avail_rooms_structs)
  then show ?thesis
  proof cases
    case 1
    from create_structs [OF this] show ?thesis
      unfolding open_room_def
      by (blast intro: names.keep_trans names_upd_room up names_structs)
  next
    case 2
    from join_structs [OF this] show ?thesis
      unfolding move_into_def add_member_def
      by (blast intro: names.keep_trans names_upd_room up names_structs)
  qed (rule names_structs)
qed

lemma dispatch_names: "res_all (names_kept s) (dispatch p s)"
proof (rule res_allI)
  fix t assume t: "dispatch p s = Inr t"
  then consider "handle_client_disconnection p s = Inr t" | "handle_awaiting_username p s = Inr t"
    | "handle_in_chat_lobby p s = Inr t" | "handle_in_chat_room p s = Inr t"
    by (auto simp: dispatch_def split: if_splits client_state.splits)
  then show "names_kept s t"
  proof cases
    case 1
    then show ?thesis by (rule res_allD [OF disconnect_names])
  next
    case 2
    have "names_kept s (upd_client p (\<lambda>c. c\<lparr>cname := n, cstate := x\<rparr>) s)"
      if "length n \<le> MAX_USERNAME_LEN" for n x
      by (rule names_upd_client) (use that in simp)
    with awaiting_structs [OF 2] show ?thesis by (blast intro: names.keep_trans names_structs)
  next
    case 3
    then show ?thesis by (rule lobby_names)
  next
    case 4
    have "names_kept u (upd_client p (\<lambda>c. c\<lparr>cstate := x\<rparr>) u)" for x u
      by (rule names_upd_client) simp
    with in_room_structs [OF 4] show ?thesis
      by (blast intro: names.keep_trans names_structs leave_names)
  qed
qed

lemma route_names: "res_all (names_kept s) (route_client_command p s)"
  by (rule res_allI) (auto elim!: route_cases intro: names_structs same_structs_sends
      res_allD [OF dispatch_names])

interpretation read_names: message_contract names_kept p for p
  by unfold_locales (simp_all add: route_names disconnect_names names_upd_client)

end
