(* ===== verification/Fine_Moves.thy ===== *)
theory Fine_Moves
  imports Fine_Run Faults
begin

text \<open>
  What a step does to the structs: for each way a message can go, the update it makes and the point
  it leads to.
\<close>

text \<open>The ways from the head of the loop body, the message complete in \<open>current_msg\<close>.\<close>

inductive move :: "cptr \<Rightarrow> string \<Rightarrow> server \<Rightarrow> pc \<Rightarrow> server \<Rightarrow> bool" for p rest s where
  answered: "same_structs (clear_msg p s) t \<Longrightarrow> move p rest s (Chunk p rest) t"
| named: "cstate (client_at s p) = AWAITING_USERNAME \<Longrightarrow> length n \<le> MAX_USERNAME_LEN \<Longrightarrow>
    t = upd_client p (\<lambda>c. c\<lparr>cname := n, cstate := IN_CHAT_LOBBY\<rparr>) s \<Longrightarrow>
    n = drop 2 (current_msg (client_at s p)) \<Longrightarrow> move p rest s (Listing p 0 list_header False rest) t"
| lists: "cstate (client_at s p) = IN_CHAT_LOBBY \<Longrightarrow> move p rest s (Listing p 0 list_header False rest) s"
| creates: "cstate (client_at s p) = IN_CHAT_LOBBY \<Longrightarrow> length n \<le> MAX_ROOM_NAME_LEN \<Longrightarrow>
    length success \<le> 200 \<Longrightarrow> n = drop 2 (current_msg (client_at s p)) \<Longrightarrow> move p rest s (Creating p n success 0 rest) s"
| joins: "cstate (client_at s p) = IN_CHAT_LOBBY \<Longrightarrow> i < MAX_ROOMS \<Longrightarrow> r_in_use (room_at s i) \<Longrightarrow>
    first_index (\<lambda>k. r_clients (room_at s i) k = None) 0 MAX_CLIENTS_ROOM = Some k \<Longrightarrow>
    same_structs (clear_msg p (move_into p i (add_member p k i s))) t \<Longrightarrow>
    move p rest s (Chunk p rest) t"
| leaves: "cstate (client_at s p) = IN_CHAT_ROOM \<Longrightarrow>
    leave_room p (room_index (client_at s p)) s = Inr t \<Longrightarrow>
    move p rest s (Left p (room_index (client_at s p)) rest) t"
| exits: "is_exit (current_msg (client_at s p)) \<Longrightarrow> begin_disconnect p (Some rest) s = Inr (c, t) \<Longrightarrow>
    move p rest s c t"

lemma clear_msg_structs: "same_structs s t \<Longrightarrow> same_structs (clear_msg p s) (clear_msg p t)"
  by (simp add: clear_msg_def same_structs_upd)

lemma then_next_answered:
  assumes "then_next p rest m = Inr (c, t)" and "\<And>u. m = Inr u \<Longrightarrow> same_structs s u"
  shows "move p rest s c t"
proof -
  from assms(1) obtain u where u: "m = Inr u" "c = Chunk p rest" "t = clear_msg p u"
    by (auto simp: then_next_eq)
  from clear_msg_structs [OF assms(2) [OF u(1)]] show ?thesis
    unfolding u(2,3) by (rule move.answered)
qed

lemma next_answered: "same_structs s u \<Longrightarrow> next_message p rest u = (c, t) \<Longrightarrow> move p rest s c t"
  by (auto simp: next_message_def intro: move.answered clear_msg_structs)

lemmas quiet_send = same_structs_sends [OF send_InrD]

lemma begin_create_moves:
  assumes "begin_create p rest s = Inr (c, t)" and "cstate (client_at s p) = IN_CHAT_LOBBY"
    and "length (drop 2 (current_msg (client_at s p))) \<le> MAX_CONTENT_LEN"
  shows "move p rest s c t"
proof (cases "MAX_ROOM_NAME_LEN < length (drop 2 (current_msg (client_at s p)))")
  case True
  with assms(1) have "then_next p rest
      (send_message_to_client (client_fd (client_at s p)) ERR_ROOM_NAME_INVALID name_invalid_text s) = Inr (c, t)"
    by (auto simp: begin_create_def Let_def res_bind_eq_Inr)
  then show ?thesis by (rule then_next_answered) (rule quiet_send)
next
  case False
  with assms(1) have "c = Creating p (drop 2 (current_msg (client_at s p)))
      (created_prefix @ drop 2 (current_msg (client_at s p)) @ [LF]) 0 rest" "t = s"
    by (auto simp: begin_create_def Let_def res_bind_eq_Inr c_store_eq_Inr)
  with False assms(2,3) show ?thesis
    by (auto intro!: move.creates simp: text_lengths limits)
qed

lemma begin_awaiting_moves:
  assumes "begin_awaiting p rest s = Inr (c, t)" and "cstate (client_at s p) = AWAITING_USERNAME"
  shows "move p rest s c t"
proof (cases "MAX_USERNAME_LEN < length (drop 2 (current_msg (client_at s p)))")
  case True
  with assms(1) have "then_next p rest
      (send_message_to_client (client_fd (client_at s p)) ERR_USERNAME_LENGTH username_long_text s) = Inr (c, t)"
    by (simp add: begin_awaiting_def Let_def)
  then show ?thesis by (rule then_next_answered) (rule quiet_send)
next
  case False
  with assms show ?thesis
    by (auto simp: begin_awaiting_def Let_def res_bind_eq_Inr c_store_eq_Inr intro!: move.named)
qed

lemma join_moves:
  assumes "then_next p rest (join_chat_room p s) = Inr (c, t)" and "cstate (client_at s p) = IN_CHAT_LOBBY"
  shows "move p rest s c t"
proof -
  from assms(1) obtain u where u: "join_chat_room p s = Inr u" "c = Chunk p rest" "t = clear_msg p u"
    by (auto simp: then_next_eq)
  from join_structs [OF u(1)] show ?thesis
  proof (elim disjE exE conjE)
    assume "same_structs s u"
    then show ?thesis unfolding u(2,3) by (intro move.answered clear_msg_structs)
  next
    fix i k assume *: "i < MAX_ROOMS" "r_in_use (room_at s i)"
      "first_index (\<lambda>k. r_clients (room_at s i) k = None) 0 MAX_CLIENTS_ROOM = Some k"
      "same_structs (move_into p i (add_member p k i s)) u"
    show ?thesis
      unfolding u(2,3) by (rule move.joins [OF assms(2) *(1-3) clear_msg_structs [OF *(4)]])
  qed
qed

lemma begin_lobby_moves:
  assumes l: "begin_lobby p rest s = Inr (c, t)" and lobby: "cstate (client_at s p) = IN_CHAT_LOBBY"
    and len: "length (drop 2 (current_msg (client_at s p))) \<le> MAX_CONTENT_LEN"
  shows "move p rest s c t"
proof -
  let ?k = "char_at (current_msg (client_at s p)) 0"
  note eq = l [unfolded begin_lobby_def Let_def]
  show ?thesis
  proof (cases "?k = CMD_ROOM_CREATE_REQUEST")
    case True
    have "begin_create p rest s = Inr (c, t)" using eq unfolding if_P [OF True] .
    then show ?thesis by (rule begin_create_moves [OF _ lobby len])
  next
    case create: False
    show ?thesis
    proof (cases "?k = CMD_ROOM_JOIN_REQUEST")
      case True
      have "then_next p rest (join_chat_room p s) = Inr (c, t)"
        using eq unfolding if_not_P [OF create] if_P [OF True] .
      then show ?thesis by (rule join_moves [OF _ lobby])
    next
      case False
      note eq = eq [unfolded if_not_P [OF create] if_not_P [OF False]]
      from eq consider "Inr (Listing p 0 list_header False rest, s) = (Inr (c, t) :: (pc \<times> server) res)"
        | "Inr (next_message p rest s) = (Inr (c, t) :: (pc \<times> server) res)"
        by (cases "?k = CMD_ROOM_LIST_REQUEST") (simp_all only: if_P if_not_P simp_thms)
      then show ?thesis
      proof cases
        case 1
        then have ct: "c = Listing p 0 list_header False rest" "t = s" by simp_all
        show ?thesis unfolding ct by (rule move.lists [OF lobby])
      next
        case 2
        then show ?thesis by (intro next_answered [OF structs.keep_refl]) simp
      qed
    qed
  qed
qed

lemma chat_structs:
  assumes "char_at (current_msg (client_at s p)) 0 = CMD_ROOM_MESSAGE_SEND"
    and "handle_in_chat_room p s = Inr u"
  shows "same_structs s u"
proof -
  let ?i = "nat (room_index (client_at s p))"
  from assms obtain m v where
    v: "broadcast_message_in_room m ?i p (emit (Lock (Room_lock ?i)) s) = Inr v" and
    u: "u = emit (Unlock (Room_lock ?i)) v"
    by (auto simp: handle_in_chat_room_def Let_def res_bind_eq_Inr split: if_splits)
  from same_structs_sends [OF broadcast_InrD [OF v]] show ?thesis by (simp add: u)
qed

lemma begin_in_room_moves:
  assumes "begin_in_room p rest s = Inr (c, t)" and "cstate (client_at s p) = IN_CHAT_ROOM"
  shows "move p rest s c t"
proof (cases "char_at (current_msg (client_at s p)) 0 = CMD_ROOM_MESSAGE_SEND")
  case True
  from assms(1) True have "then_next p rest (handle_in_chat_room p s) = Inr (c, t)"
    by (simp add: begin_in_room_def Let_def)
  moreover have "same_structs s u" if "handle_in_chat_room p s = Inr u" for u
    by (rule chat_structs [OF True that])
  ultimately show ?thesis by (rule then_next_answered)
next
  case False
  with assms(1) have "c = Left p (room_index (client_at s p)) rest"
    "leave_room p (room_index (client_at s p)) s = Inr t"
    by (auto simp: begin_in_room_def Let_def res_bind_eq_Inr)
  then show ?thesis using move.leaves [OF assms(2)] by simp
qed

lemma begin_dispatch_moves:
  assumes d: "begin_dispatch p rest s = Inr (c, t)" and acc: "acceptable (client_at s p)"
  shows "move p rest s c t"
proof (cases "char_at (current_msg (client_at s p)) 0 = CMD_EXIT")
  case True
  with acc have "is_exit (current_msg (client_at s p))" by (simp add: is_exit_def acceptable_def)
  with d True show ?thesis by (auto simp: begin_dispatch_def intro: move.exits)
next
  case False
  note len = acceptable_length [OF acc]
  show ?thesis
  proof (cases "cstate (client_at s p)")
    case AWAITING_USERNAME
    with d False begin_awaiting_moves show ?thesis by (simp add: begin_dispatch_def)
  next
    case IN_CHAT_LOBBY
    with d False begin_lobby_moves [OF _ _ len] show ?thesis by (simp add: begin_dispatch_def)
  next
    case IN_CHAT_ROOM
    with d False begin_in_room_moves show ?thesis by (simp add: begin_dispatch_def)
  qed
qed

lemma begin_route_moves:
  assumes "begin_route p rest s = Inr (c, t)"
  shows "move p rest s c t"
proof -
  from assms obtain b u where v: "validate_msg_format p s = Inr (b, u)" and
    rest: "(if \<not> b then Inr (next_message p rest u) else res_bind (command_valid_for_state p u)
      (\<lambda>(allowed, u). if \<not> allowed then Inr (next_message p rest u) else begin_dispatch p rest u)) = Inr (c, t)"
    by (auto simp: begin_route_def res_bind_eq_Inr)
  show ?thesis
  proof (cases b)
    case False
    with validate_cases [OF v] rest show ?thesis
      by (auto intro: next_answered same_structs_sends)
  next
    case True
    with validate_cases [OF v] have u: "u = s" "format_error (current_msg (client_at s p)) = None"
      by auto
    from rest True u obtain a x where x: "command_valid_for_state p s = Inr (a, x)" and
      d: "(if \<not> a then Inr (next_message p rest x) else begin_dispatch p rest x) = Inr (c, t)"
      by (auto simp: res_bind_eq_Inr)
    show ?thesis
    proof (cases a)
      case False
      with state_valid_cases [OF x] d show ?thesis by (auto intro: next_answered same_structs_sends)
    next
      case True
      with state_valid_cases [OF x] d u show ?thesis
        by (auto simp: acceptable_def intro: begin_dispatch_moves)
    qed
  qed
qed

end
