(* ===== verification/System_Invariant.thy ===== *)
theory System_Invariant
  imports Server_System
begin

text \<open>
  Every step of the server keeps \<open>sys_inv\<close>, so the states it can reach from the start satisfy it.
\<close>

section \<open>Registering a new client\<close>

lemma read_efd_simps [simp]:
  "client_at (read_efd w s) p = client_at s p"
  "room_at (read_efd w s) i = room_at s i"
  "worker_index (read_efd w s) = worker_index s"
  "worker_at (read_efd w s) v =
     (if v = w then (worker_at s w)\<lparr>efd_counter := 0, new_client := new_client (worker_at s w) + 1\<rparr>
      else worker_at s v)"
  by (simp_all add: read_efd_def)

lemma sys_invD:
  assumes "sys_inv (m, s)"
  shows "table_inv s" "slots_ok s" "fds_ok m s" "main_ok m" "worker_index s < MAX_THREADS"
    "w < MAX_THREADS \<Longrightarrow> worker_ok m s w"
  using assms by (simp_all add: sys_inv_def)

lemma register_refused_inv:
  assumes inv: "sys_inv (m, s)" and w: "w < MAX_THREADS" and v: "efd_counter (worker_at s w) \<noteq> 0"
  shows "sys_inv (m, decrement_clients w (read_efd w s))"
proof -
  let ?t = "decrement_clients w (read_efd w s)"
  note i = sys_invD [OF inv]
  have fd: "fd_of m ?t h = (if h = In_eventfd w then None else fd_of m s h)" for h
    by (cases h) simp_all
  have "worker_ok m ?t v" if "v < MAX_THREADS" for v
    using i(6) [OF that] v count_cong [of ?t s v]
    by (cases "v = w") (simp_all add: worker_ok_def pending_efd_def)
  then show ?thesis
    using i fds_ok_drop [OF i(3) fd] table_inv_cong [of ?t s] slots_ok_cong [of ?t s]
    by (simp add: sys_inv_def)
qed

lemma register_taken_inv:
  assumes inv: "sys_inv (m, s)" and w: "w < MAX_THREADS" and v: "efd_counter (worker_at s w) \<noteq> 0"
    and k: "k < MAX_CLIENTS_PER_THREAD" "\<not> c_in_use (client_at s (Cptr w k))"
    and u: "\<And>v. worker_at u v = (if v = w then (worker_at (read_efd w s) w)\<lparr>epoll_set := E\<rparr>
      else worker_at s v)"
      "\<And>p. client_at u p = client_at s p" "\<And>i. room_at u i = room_at s i"
      "worker_index u = worker_index s"
  shows "sys_inv (m, upd_client (Cptr w k)
    (\<lambda>_. new_client_in_slot (efd_to_fd (efd_counter (worker_at s w)))) u)"
proof -
  let ?fd = "efd_to_fd (efd_counter (worker_at s w))"
  let ?t = "upd_client (Cptr w k) (\<lambda>_. new_client_in_slot ?fd) u"
  note i = sys_invD [OF inv]
  have zero: "client_at s (Cptr w k) = zero_client"
    using i(2) k(2) unfolding slots_ok_def by metis
  have fd: "fd_of m ?t h = (if h = In_slot (Cptr w k) then Some ?fd
      else if h = In_eventfd w then None else fd_of m s h)" for h
    by (cases h) (simp_all add: u)
  have fds: "fds_ok m ?t"
    by (rule fds_ok_move [OF i(3) _ _ fd]) (use v k in simp_all)
  have "table_inv u" using i(1) table_inv_cong [of u s] u by simp
  then have tab: "table_inv ?t"
    using zero by (auto simp: table_inv_def u intro!: linked_upd_client)
  have slots: "slots_ok ?t"
    using i(2) w k(1) by (auto simp: slots_ok_def u)
  have "worker_ok m ?t x" if x: "x < MAX_THREADS" for x
  proof (cases "x = w")
    case True
    have "client_count (worker_at ?t w) = Suc (client_count (worker_at s w))"
      using fill_count [OF k(1), of u w ?fd] k(2) count_cong [of u s w] u(2) by simp
    then show ?thesis
      using i(6) [OF x] v True by (simp add: worker_ok_def pending_efd_def u)
  next
    case False
    then have "worker_at ?t x = worker_at s x" by (simp add: worker_at_upd_client u)
    then show ?thesis using i(6) [OF x] by (simp add: worker_ok_def pending_efd_def)
  qed
  then show ?thesis using i fds tab slots by (simp add: sys_inv_def u)
qed

lemma register_inv:
  assumes inv: "sys_inv (m, s)" and w: "w < MAX_THREADS" and v: "efd_counter (worker_at s w) \<noteq> 0"
    and t: "register_new_client w add_ok s = Inr t"
  shows "sys_inv (m, t)"
proof (rule register_structs [OF t v])
  assume "same_structs (decrement_clients w (read_efd w s)) t"
  then show ?thesis using register_refused_inv [OF inv w v] by (simp add: structs_sys_inv)
next
  fix u
  assume "clients (worker_at u w) = clients (worker_at s w)"
    "client_count (worker_at u w) = MAX_CLIENTS_PER_THREAD"
  moreover have "worker_ok m s w" by (rule sys_invD(6) [OF inv w])
  ultimately show ?thesis using v by (simp add: worker_ok_def pending_efd_def)
next
  fix u k
  let ?f = "\<lambda>_. new_client_in_slot (efd_to_fd (efd_counter (worker_at s w)))"
  assume "k < MAX_CLIENTS_PER_THREAD" "\<not> c_in_use (client_at s (Cptr w k))"
    "\<And>v. worker_at u v = (if v = w then (worker_at (read_efd w s) w)\<lparr>epoll_set :=
        insert (efd_to_fd (efd_counter (worker_at s w))) (epoll_set (worker_at s w))\<rparr>
      else worker_at s v)"
    "\<And>p. client_at u p = client_at s p" "\<And>i. room_at u i = room_at s i"
    "worker_index u = worker_index s"
    and st: "same_structs (upd_client (Cptr w k) ?f u) t"
  from register_taken_inv [OF inv w v this(1-6)] show ?thesis
    using st by (simp add: structs_sys_inv)
qed

section \<open>Handling an event\<close>

lemma handle_event_inv:
  assumes inv: "sys_inv (m, s)" and w: "w < MAX_THREADS" and e: "event_ok w e s"
    and t: "handle_event w e s = Inr t"
  shows "sys_inv (m, t)"
proof (cases "ev_fd e = notification_fd (worker_at s w)")
  case True
  with e t register_inv [OF inv w] show ?thesis
    by (simp add: handle_event_def event_ok_def)
next
  case other: False
  show ?thesis
  proof (cases "find_client_by_fd w (ev_fd e) s")
    case None
    with other t inv show ?thesis by (simp add: handle_event_def)
  next
    case (Some p)
    have pos: "0 < ev_fd e" using e other by (simp add: event_ok_def)
    note p = find_client_Some [OF Some pos sys_invD(2) [OF inv]]
    note tab = sys_invD(1) [OF inv]
    from t other Some consider (hup) "handle_client_disconnection p s = Inr t"
      | (msg) "read_and_process_client_message p (ev_recv e) s = Inr t"
      by (auto simp: handle_event_def split: if_splits)
    then show ?thesis
    proof cases
      case hup
      show ?thesis
        by (rule served_inv [OF inv p(1) disconnect_served [OF hup]
              res_allD [OF disconnect_own hup] disconnect_inv [OF tab hup]])
    next
      case msg
      have last: "exit_last (current_msg (client_at s p)) (cstr (take MAX_MESSAGE_LEN_TO_SERVER bs))"
        if "ev_recv e = Received bs" for bs
        using e other Some that by (simp add: event_ok_def)
      show ?thesis
        by (rule served_inv [OF inv p(1) read_served [OF last msg]
              res_allD [OF read_own.read_keeps msg] read_inv [OF tab p(1) last msg]])
    qed
  qed
qed

section \<open>Choosing a worker\<close>

definition at_capacity :: "server \<Rightarrow> nat \<Rightarrow> bool" where
  "at_capacity s w \<longleftrightarrow> int MAX_CLIENTS_PER_THREAD \<le> num_of_clients (worker_at s w)"

text \<open>The worker \<open>j\<close> turns after the one that is next.\<close>

definition nth_worker :: "server \<Rightarrow> nat \<Rightarrow> nat" where
  "nth_worker s j = (worker_index s + j) mod MAX_THREADS"

definition set_index :: "nat \<Rightarrow> server \<Rightarrow> server" where
  "set_index i s = s\<lparr>worker_index := i\<rparr>"

lemma set_index_simps [simp]:
  "client_at (set_index i s) p = client_at s p" "room_at (set_index i s) r = room_at s r"
  "worker_at (set_index i s) w = worker_at s w" "worker_index (set_index i s) = i"
  "trace (set_index i s) = trace s" "replies (set_index i s) = replies s"
  "set_index i (set_index j s) = set_index i s"
  by (simp_all add: set_index_def client_at_def room_at_def worker_at_def)

lemma set_index_upd: "set_index i (upd_worker w f s) = upd_worker w f (set_index i s)"
  by (simp add: set_index_def upd_worker_def)

lemma same_structs_index: "same_structs s t \<Longrightarrow> same_structs (set_index i s) (set_index i t)"
  by (simp add: same_structs_def set_index_def)

lemma next_index_eq: "next_index s = set_index (nth_worker s 1) s"
  by (simp add: next_index_def set_index_def nth_worker_def)

abbreviation one_more :: "nat \<Rightarrow> server \<Rightarrow> server" where
  "one_more w \<equiv> upd_worker w (\<lambda>t. t\<lparr>num_of_clients := num_of_clients t + 1\<rparr>)"

lemma find_worker_spec:
  assumes "find_worker_loop left s = (r, t)" and "worker_index s < MAX_THREADS"
  shows "(r = None \<and> (\<forall>j\<le>left. at_capacity s (nth_worker s j)) \<and>
      same_structs (set_index (nth_worker s (Suc left)) s) t) \<or>
    (\<exists>j\<le>left. r = Some (nth_worker s j) \<and> \<not> at_capacity s (nth_worker s j) \<and>
      (\<forall>i<j. at_capacity s (nth_worker s i)) \<and>
      same_structs (set_index (nth_worker s (Suc j)) (one_more (nth_worker s j) s)) t)"
  using assms
proof (induction left arbitrary: s)
  case 0
  then show ?case
    by (subst (asm) find_worker_loop.simps)
      (auto simp: Let_def at_capacity_def nth_worker_def next_index_def set_index_def emit_def
        same_structs_def upd_worker_def worker_at_def split: if_splits)
next
  case (Suc left)
  let ?u = "next_index (emit (Unlock (Count_lock (worker_index s))) (emit (Lock (Count_lock (worker_index s))) s))"
  have w0: "nth_worker s 0 = worker_index s" using Suc.prems(2) by (simp add: nth_worker_def)
  show ?case
  proof (cases "at_capacity s (worker_index s)")
    case False
    with Suc.prems show ?thesis
      by (subst (asm) find_worker_loop.simps)
        (auto simp: Let_def at_capacity_def nth_worker_def next_index_def set_index_def emit_def
          same_structs_def upd_worker_def worker_at_def intro!: exI [of _ 0] split: if_splits)
  next
    case True
    with Suc.prems have rec: "find_worker_loop left ?u = (r, t)"
      by (subst (asm) find_worker_loop.simps) (simp add: Let_def at_capacity_def)
    have u: "at_capacity ?u = at_capacity s" "same_structs (set_index i s) (set_index i ?u)" for i
      by (simp_all add: at_capacity_def [abs_def] next_index_eq)
        (simp add: same_structs_def set_index_def emit_def)
    have nth: "nth_worker ?u j = nth_worker s (Suc j)" for j
      by (simp add: nth_worker_def next_index_def emit_def mod_simps)
    have all_Suc: "(\<forall>j\<le>Suc n. at_capacity s (nth_worker s j)) \<longleftrightarrow>
        (\<forall>j\<le>n. at_capacity s (nth_worker s (Suc j)))" for n
      using True w0 by (simp add: less_Suc_eq_le [symmetric] All_less_Suc2)
    have up: "worker_index ?u < MAX_THREADS" by (simp add: next_index_def)
    from Suc.IH [OF rec up] show ?thesis
      unfolding u nth
    proof (elim disjE exE conjE)
      assume "r = None" "\<forall>j\<le>left. at_capacity s (nth_worker s (Suc j))"
        "same_structs (set_index (nth_worker s (Suc (Suc left))) ?u) t"
      then show ?thesis using u(2) all_Suc by (blast intro: structs.keep_trans)
    next
      fix j
      assume j: "j \<le> left" "r = Some (nth_worker s (Suc j))" "\<not> at_capacity s (nth_worker s (Suc j))"
        "\<forall>i<j. at_capacity s (nth_worker s (Suc i))"
        "same_structs (set_index (nth_worker s (Suc (Suc j))) (one_more (nth_worker s (Suc j)) ?u)) t"
      have "\<forall>i<Suc j. at_capacity s (nth_worker s i)"
        using j(4) True w0 by (auto simp: less_Suc_eq_0_disj)
      moreover have "same_structs (set_index (nth_worker s (Suc (Suc j))) (one_more (nth_worker s (Suc j)) s)) t"
        using j(5) u(2) unfolding set_index_upd by (blast intro: structs.keep_trans same_structs_upd)
      ultimately show ?thesis using j by (intro disjI2 exI [of _ "Suc j"]) simp
    qed
  qed
qed

section \<open>The main thread\<close>

text \<open>What \<open>sys_inv\<close> sees of a state.\<close>

lemma sys_inv_cong:
  assumes "\<And>p. client_at t p = client_at s p" and "\<And>i. room_at t i = room_at s i"
    and "\<And>v. num_of_clients (worker_at t v) = num_of_clients (worker_at s v) \<and>
      new_client (worker_at t v) = new_client (worker_at s v) \<and>
      efd_counter (worker_at t v) = efd_counter (worker_at s v)"
    and "sys_inv (m, s)" and "worker_index t < MAX_THREADS"
  shows "sys_inv (m, t)"
proof -
  note d = sys_invD [OF assms(4)]
  have "fd_of m t h = fd_of m s h" for h by (cases h) (simp_all add: assms(1,3))
  then have "fds_ok m t" using d(3) by (simp add: fds_ok_def)
  moreover have "worker_ok m t w = worker_ok m s w" for w
    using count_cong [OF assms(1)] by (simp add: worker_ok_def pending_efd_def assms(3))
  ultimately show ?thesis
    using d assms(5) table_inv_cong [OF assms(1,2)] slots_ok_cong [OF assms(1)]
    by (simp add: sys_inv_def)
qed

lemma set_index_inv:
  "sys_inv (m, s) \<Longrightarrow> i < MAX_THREADS \<Longrightarrow> sys_inv (m, set_index i s)"
  by (erule sys_inv_cong [rotated 3]) simp_all

lemma nth_worker_less [simp]: "nth_worker s j < MAX_THREADS"
  by (simp add: nth_worker_def)

lemma one_more_inv:
  assumes inv: "sys_inv (Main_accepting, s)" and fresh: "fresh_fd Main_accepting s fd"
    and w: "w < MAX_THREADS" "\<not> at_capacity s w"
  shows "sys_inv (Main_waiting fd w, one_more w s)"
proof -
  note d = sys_invD [OF inv]
  have fd: "fd_of (Main_waiting fd w) (one_more w s) h =
      (if h = In_main then Some fd else fd_of Main_accepting s h)" for h
    by (cases h) simp_all
  have "worker_ok (Main_waiting fd w) (one_more w s) v" if "v < MAX_THREADS" for v
    using d(6) [OF that] w(2)
    by (cases "v = w") (simp_all add: worker_ok_def pending_efd_def pending_main_def at_capacity_def)
  then show ?thesis
    using d w fds_ok_new [OF d(3) fresh fd] table_inv_cong [of "one_more w s" s]
      slots_ok_cong [of "one_more w s" s]
    by (simp add: sys_inv_def main_ok_def)
qed

lemma pick_worker_inv:
  assumes inv: "sys_inv (Main_accepting, s)" and fresh: "fresh_fd Main_accepting s fd"
    and t: "pick_worker fd s = Inr (c, t)"
  shows "case c of None \<Rightarrow> sys_inv (Main_accepting, t) | Some w \<Rightarrow> sys_inv (Main_waiting fd w, t)"
proof -
  obtain r u where u: "find_worker_loop MAX_THREADS s = (r, u)" by fastforce
  from find_worker_spec [OF u sys_invD(5) [OF inv]] show ?thesis
  proof (elim disjE exE conjE)
    assume r: "r = None" and st: "same_structs (set_index (nth_worker s (Suc MAX_THREADS)) s) u"
    from t u r obtain v where v: "send_message_to_client fd ERR_SERVER_FULL capacity_text u = Inr v"
      and c: "c = None" "t = emit (Close fd) v"
      by (auto simp: pick_worker_def find_worker_not_at_capacity_def res_bind_eq_Inr)
    have "same_structs (set_index (nth_worker s (Suc MAX_THREADS)) s) t"
      unfolding c using st same_structs_sends [OF send_InrD [OF v]]
      by (simp, blast intro: structs.keep_trans)
    with set_index_inv [OF inv] c(1) show ?thesis by (simp add: structs_sys_inv)
  next
    fix j
    assume r: "r = Some (nth_worker s j)" and cap: "\<not> at_capacity s (nth_worker s j)"
      and st: "same_structs (set_index (nth_worker s (Suc j)) (one_more (nth_worker s j) s)) u"
    from t u r have c: "c = Some (nth_worker s j)" "t = u"
      by (auto simp: pick_worker_def find_worker_not_at_capacity_def)
    from set_index_inv [OF one_more_inv [OF inv fresh _ cap]] st c show ?thesis
      by (simp add: structs_sys_inv)
  qed
qed

lemma hand_over_inv:
  assumes inv: "sys_inv (Main_waiting fd w, s)" and free: "0 < new_client (worker_at s w)"
    and t: "hand_over fd w write_ok s = Inr t"
  shows "sys_inv (Main_accepting, t)"
proof -
  note d = sys_invD [OF inv]
  have w: "w < MAX_THREADS" using d(4) by (simp add: main_ok_def)
  from d(6) [OF w] free have sem: "new_client (worker_at s w) = 1" "efd_counter (worker_at s w) = 0"
    by (simp_all add: worker_ok_def pending_efd_def split: if_splits)
  have valid: "valid_fd fd" using d(3) by (auto simp: fds_ok_def dest: spec [of _ In_main])
  have main: "fd_of (Main_waiting fd w) s In_main = Some fd" by simp
  let ?s1 = "emit (Sem_wait w) (upd_worker w (\<lambda>t. t\<lparr>new_client := new_client t - 1\<rparr>) s)"
  show ?thesis
  proof (cases write_ok)
    case True
    with t fd_to_efd_valid [OF valid] sem have
      t: "t = upd_worker w (\<lambda>t. t\<lparr>efd_counter := efd_counter t + fd_to_efd fd\<rparr>) ?s1"
      by (simp add: hand_over_def Let_def)
    have fd: "fd_of Main_accepting t h = (if h = In_eventfd w then Some fd
        else if h = In_main then None else fd_of (Main_waiting fd w) s h)" for h
      using fd_to_efd_valid [OF valid] fd_round_trip [OF valid] sem by (cases h) (simp_all add: t)
    have "fds_ok Main_accepting t"
      by (rule fds_ok_move [OF d(3) main _ fd]) (simp add: sem)
    moreover have "worker_ok Main_accepting t v" if "v < MAX_THREADS" for v
      using d(6) [OF that] sem fd_to_efd_valid [OF valid]
      by (cases "v = w") (simp_all add: worker_ok_def pending_efd_def pending_main_def t)
    ultimately show ?thesis
      using d table_inv_cong [of t s] slots_ok_cong [of t s]
      by (simp add: sys_inv_def main_ok_def t)
  next
    case False
    with t obtain u where
      u: "send_message_to_client fd ERR_CONNECTING connection_text
        (emit (Sem_post w) (upd_worker w (\<lambda>t. t\<lparr>new_client := new_client t + 1\<rparr>) ?s1)) = Inr u"
      and t: "t = decrement_clients w (emit (Close fd) u)"
      by (auto simp: hand_over_def handle_write_error_def Let_def res_bind_eq_Inr)
    note same = only_sends_state [OF send_InrD [OF u]]
    have fd: "fd_of Main_accepting t h =
        (if h = In_main then None else fd_of (Main_waiting fd w) s h)" for h
      by (cases h) (simp_all add: t same)
    have "worker_ok Main_accepting t v" if "v < MAX_THREADS" for v
      using d(6) [OF that] sem
      by (cases "v = w") (simp_all add: worker_ok_def pending_efd_def pending_main_def t same)
    then show ?thesis
      using d fds_ok_drop [OF d(3) fd] table_inv_cong [of t s] slots_ok_cong [of t s]
      by (simp add: sys_inv_def main_ok_def t same)
  qed
qed

lemma accept_round_inv:
  assumes inv: "sys_inv (Main_accepting, s)" and fd: "fd = -1 \<or> fresh_fd Main_accepting s fd"
    and t: "accept_round fd opts write_ok s = Inr (m, t)"
  shows "sys_inv (m, t)"
proof (cases "(m, t) = (Main_accepting, s)")
  case False
  with t fd have fresh: "fresh_fd Main_accepting s fd" and "distribute_client fd write_ok s = Inr (m, t)"
    by (auto simp: accept_round_def split: if_splits)
  then obtain c u where c: "pick_worker fd s = Inr (c, u)" and
    rest: "(case c of None \<Rightarrow> Inr (Main_accepting, u)
       | Some w \<Rightarrow>
           if new_client (worker_at u w) = 0 then Inr (Main_waiting fd w, u)
           else res_bind (hand_over fd w write_ok u) (\<lambda>u. Inr (Main_accepting, u))) = Inr (m, t)"
    by (auto simp: distribute_client_def res_bind_eq_Inr)
  from pick_worker_inv [OF inv fresh c] rest show ?thesis
    by (auto simp: res_bind_eq_Inr split: option.splits if_splits intro: hand_over_inv)
qed (use inv in simp)

section \<open>Reachable states\<close>

lemma worker_start_inv:
  assumes inv: "sys_inv (m, s)" and t: "worker_start w efd add_ok s = Some t"
  shows "sys_inv (m, t)"
  by (rule sys_inv_cong [OF _ _ _ inv])
    (use t sys_invD(5) [OF inv] in
      \<open>auto simp: worker_start_def register_with_epoll_def Let_def split: if_splits\<close>)

lemma boot_state:
  assumes "setup_threads fds inits_ok (init_server_rooms (zero_server rs)) = Some s"
  shows "client_at s p = zero_client" "room_at s i = zero_room" "worker_index s = 0"
    "w < MAX_THREADS \<Longrightarrow> worker_at s w = zero_worker\<lparr>notification_fd := fds w, new_client := 1\<rparr>"
    "\<not> w < MAX_THREADS \<Longrightarrow> worker_at s w = zero_worker"
proof -
  have four: "[0..<MAX_THREADS] = [0, 1, 2, 3]"
    by (simp add: MAX_THREADS_def numeral_eq_Suc)
  from assms have s: "s = upd_worker 3 (\<lambda>t. t\<lparr>notification_fd := fds 3, new_client := 1\<rparr>)
      (upd_worker 2 (\<lambda>t. t\<lparr>notification_fd := fds 2, new_client := 1\<rparr>)
      (upd_worker 1 (\<lambda>t. t\<lparr>notification_fd := fds 1, new_client := 1\<rparr>)
      (upd_worker 0 (\<lambda>t. t\<lparr>notification_fd := fds 0, new_client := 1\<rparr>) (zero_server rs))))"
    unfolding setup_threads_def four
    by (simp add: init_server_rooms_def zero_server_def split: if_splits)
  have z: "client_at (zero_server rs) p = zero_client" "room_at (zero_server rs) i = zero_room"
    "worker_at (zero_server rs) w = zero_worker" "worker_index (zero_server rs) = 0" for p i w
    by (simp_all add: zero_server_def client_at_def room_at_def worker_at_def)
  show "client_at s p = zero_client" "room_at s i = zero_room" "worker_index s = 0"
    by (simp_all add: s z)
  show "w < MAX_THREADS \<Longrightarrow> worker_at s w = zero_worker\<lparr>notification_fd := fds w, new_client := 1\<rparr>"
    by (auto simp: s z MAX_THREADS_def less_Suc_eq numeral_eq_Suc)
  show "\<not> w < MAX_THREADS \<Longrightarrow> worker_at s w = zero_worker"
    by (simp add: s z MAX_THREADS_def)
qed

lemma boot_inv:
  assumes "setup_threads fds inits_ok (init_server_rooms (zero_server rs)) = Some s"
  shows "sys_inv (Main_accepting, s)"
proof -
  note b = boot_state [OF assms]
  have ef: "efd_counter (worker_at s w) = 0" for w
    using b(4) [of w] b(5) [of w] by (cases "w < MAX_THREADS") simp_all
  have "fd_of Main_accepting s h = None" for h
    by (cases h) (simp_all add: b(1) ef)
  moreover have "slot_count c_in_use MAX_CLIENTS_PER_THREAD (\<lambda>_. zero_client) = 0"
    by (simp add: slot_count_def occupied_def)
  moreover have "rooms_ok s" by (simp add: rooms_ok_def b(2) room_ok_def slot_count_def occupied_def)
  moreover have "linked s" by (auto simp: linked_def sits_def b(1,2))
  ultimately show ?thesis
    by (simp add: sys_inv_def table_inv_def slots_ok_def fds_ok_def main_ok_def worker_ok_def
        pending_main_def pending_efd_def b)
qed

lemma sys_step_inv:
  assumes "sys_step x y" and "sys_inv x"
  shows "sys_inv y"
  using assms
  by (elim sys_stepE)
    (auto intro: worker_start_inv accept_round_inv hand_over_inv handle_event_inv)

lemma reachable_inv: "reachable x \<Longrightarrow> sys_inv x"
  by (induction rule: reachable.induct) (auto intro: boot_inv sys_step_inv)

end
