(* ===== verification/System_Safety.thy ===== *)
theory System_Safety
  imports System_Invariant Faults
begin

text \<open>
  In a reachable state no name exceeds its limit, so the only fault handling a message can meet
  is the room list that does not fit; and the descriptor of every client is in the epoll set of its
  worker.
\<close>

section \<open>The main thread and the clients\<close>

lemma find_worker_clients:
  "find_worker_loop left s = (r, t) \<Longrightarrow> client_at t p = client_at s p"
proof (induction left arbitrary: s)
  case 0
  then show ?case
    by (subst (asm) find_worker_loop.simps) (auto simp: Let_def next_index_eq split: if_splits)
next
  case (Suc left)
  then show ?case
    by (subst (asm) (2) find_worker_loop.simps)
      (fastforce simp: Let_def next_index_eq split: if_splits)
qed

lemma pick_worker_clients: "pick_worker fd s = Inr (c, t) \<Longrightarrow> client_at t p = client_at s p"
  by (auto simp: pick_worker_def find_worker_not_at_capacity_def res_bind_eq_Inr
      split: prod.splits option.splits dest!: find_worker_clients [where p = p] send_InrD
      dest: only_sends_state(1) [where p = p])

lemma hand_over_clients: "hand_over fd w write_ok s = Inr t \<Longrightarrow> client_at t p = client_at s p"
  by (auto simp: hand_over_def handle_write_error_def Let_def res_bind_eq_Inr
      dest!: send_InrD only_sends_state(1) [where p = p] split: if_splits)

lemma accept_round_clients:
  "accept_round fd opts write_ok s = Inr (m, t) \<Longrightarrow> client_at t p = client_at s p"
  by (auto simp: accept_round_def distribute_client_def res_bind_eq_Inr
      split: if_splits option.splits
      dest!: pick_worker_clients [where p = p] hand_over_clients [where p = p])

section \<open>Names\<close>

lemma register_names:
  assumes "names_ok s" and v: "efd_counter (worker_at s w) \<noteq> 0"
    and t: "register_new_client w add_ok s = Inr t"
    and room: "client_count (worker_at s w) < MAX_CLIENTS_PER_THREAD"
  shows "names_ok t"
proof (rule register_structs [OF t v])
  assume "same_structs (decrement_clients w (read_efd w s)) t"
  with assms(1) show ?thesis by (simp add: names_ok_def same_structs_state)
next
  fix u assume "clients (worker_at u w) = clients (worker_at s w)"
    "client_count (worker_at u w) = MAX_CLIENTS_PER_THREAD"
  with room show ?thesis by simp
next
  fix u i f
  assume "\<And>p. client_at u p = client_at s p"
    "same_structs (upd_client (Cptr w i)
      (\<lambda>_. new_client_in_slot (efd_to_fd (efd_counter (worker_at s w)))) u) t"
  with assms(1) show ?thesis
    by (simp add: names_ok_def same_structs_state new_client_in_slot_def limits)
qed

lemma handle_event_names:
  assumes inv: "sys_inv (m, s)" and w: "w < MAX_THREADS" and e: "event_ok w e s"
    and t: "handle_event w e s = Inr t" and names: "names_ok s"
  shows "names_ok t"
proof (cases "ev_fd e = notification_fd (worker_at s w)")
  case True
  with e have v: "efd_counter (worker_at s w) \<noteq> 0" by (simp add: event_ok_def)
  have "worker_ok m s w" by (rule sys_invD(6) [OF inv w])
  with v have "client_count (worker_at s w) < MAX_CLIENTS_PER_THREAD"
    by (simp add: worker_ok_def pending_efd_def)
  with True t v names register_names show ?thesis by (simp add: handle_event_def)
next
  case False
  with t names show ?thesis
    by (auto simp: handle_event_def names_kept_def split: option.splits if_splits
        dest: res_allD [OF disconnect_names] res_allD [OF read_names.read_keeps])
qed

lemma step_names:
  assumes "sys_step x y" and "sys_inv x" and "names_ok (snd x)"
  shows "names_ok (snd y)"
  using assms
proof (cases rule: sys_step.cases)
  case (starts w s efd add_ok t m)
  then have "client_at t p = client_at s p" for p
    by (auto simp: worker_start_def register_with_epoll_def Let_def split: if_splits)
  with starts assms(3) show ?thesis by (simp add: names_ok_def)
next
  case (accepts fd s opts write_ok m t)
  with assms(3) accept_round_clients [OF accepts(4)] show ?thesis by (simp add: names_ok_def)
next
  case (resumes s w fd write_ok t)
  with assms(3) hand_over_clients [OF resumes(4)] show ?thesis by (simp add: names_ok_def)
next
  case (serves w s e t m)
  with assms(2,3) handle_event_names show ?thesis by simp
qed

lemma reachable_names: "reachable x \<Longrightarrow> names_ok (snd x)"
proof (induction rule: reachable.induct)
  case (boots fds inits_ok rs s)
  then show ?case using boot_state(1) [OF boots] by (simp add: names_ok_def)
next
  case (steps x y)
  then show ?case using step_names reachable_inv by blast
qed

section \<open>The epoll sets\<close>

definition epoll_ok :: "server \<Rightarrow> bool" where
  "epoll_ok s \<longleftrightarrow> (\<forall>p. c_in_use (client_at s p) \<longrightarrow>
     client_fd (client_at s p) \<in> epoll_set (worker_at s (owner p)))"

lemma epoll_ok_structs: "same_structs s t \<Longrightarrow> epoll_ok t = epoll_ok s"
  by (simp add: epoll_ok_def same_structs_state)

lemma epoll_ok_cong:
  assumes "\<And>p. client_at t p = client_at s p"
    and "\<And>w. epoll_set (worker_at s w) \<subseteq> epoll_set (worker_at t w)"
  shows "epoll_ok s \<Longrightarrow> epoll_ok t"
  using assms unfolding epoll_ok_def by auto

lemma find_worker_epoll:
  "find_worker_loop left s = (r, t) \<Longrightarrow> epoll_set (worker_at t w) = epoll_set (worker_at s w)"
proof (induction left arbitrary: s)
  case 0
  then show ?case
    by (subst (asm) find_worker_loop.simps) (auto simp: Let_def next_index_eq split: if_splits)
next
  case (Suc left)
  then show ?case
    by (subst (asm) (2) find_worker_loop.simps)
      (fastforce simp: Let_def next_index_eq split: if_splits)
qed

lemma hand_over_epoll:
  "hand_over fd v write_ok s = Inr t \<Longrightarrow> epoll_set (worker_at t w) = epoll_set (worker_at s w)"
  by (auto simp: hand_over_def handle_write_error_def Let_def res_bind_eq_Inr
      dest!: send_InrD only_sends_state(3) [where w = w] split: if_splits)

lemma pick_worker_epoll:
  assumes "pick_worker fd s = Inr (c, t)"
  shows "epoll_set (worker_at t w) = epoll_set (worker_at s w)"
proof -
  obtain r u where u: "find_worker_loop MAX_THREADS s = (r, u)" by fastforce
  have "worker_at t w = worker_at u w"
    using assms u by (cases r) (auto simp: pick_worker_def find_worker_not_at_capacity_def
        res_bind_eq_Inr only_sends_state(3) [OF send_InrD])
  with find_worker_epoll [OF u] show ?thesis by simp
qed

lemma accept_round_epoll:
  assumes "accept_round fd opts write_ok s = Inr (m, t)"
  shows "epoll_set (worker_at t w) = epoll_set (worker_at s w)"
proof -
  have "t = s \<or> distribute_client fd write_ok s = Inr (m, t)"
    using assms by (auto simp: accept_round_def split: if_splits)
  then show ?thesis
  proof
    assume "distribute_client fd write_ok s = Inr (m, t)"
    then obtain c u where c: "pick_worker fd s = Inr (c, u)" and
      rest: "(case c of None \<Rightarrow> Inr (Main_accepting, u)
         | Some v \<Rightarrow>
             if new_client (worker_at u v) = 0 then Inr (Main_waiting fd v, u)
             else res_bind (hand_over fd v write_ok u) (\<lambda>u. Inr (Main_accepting, u))) = Inr (m, t)"
      by (auto simp: distribute_client_def res_bind_eq_Inr)
    from rest have "t = u \<or> (\<exists>v. hand_over fd v write_ok u = Inr t)"
      by (auto simp: res_bind_eq_Inr split: option.splits if_splits)
    with pick_worker_epoll [OF c] hand_over_epoll show ?thesis by auto
  qed simp
qed

text \<open>Serving a client keeps the sets of the others, because descriptors are distinct.\<close>

lemma served_epoll:
  assumes ok: "epoll_ok s" and fds: "fds_ok m s" and srv: "served p s t"
    and own: "only_own p s t" and used: "c_in_use (client_at s p)"
  shows "epoll_ok t"
proof -
  from srv consider (kept) "ids_kept s t"
    | (cleaned) u where "ids_kept s u" "same_structs (cleanup_client p u) t"
    by (auto simp: served_def)
  then show ?thesis
  proof cases
    case kept
    with ok show ?thesis by (simp add: epoll_ok_def ids_kept_def)
  next
    case cleaned
    have t: "client_at t q = (if q = p then zero_client else client_at u q)"
      "epoll_set (worker_at t w) = (if w = owner p then
        epoll_set (worker_at u w) - {client_fd (client_at u p)} else epoll_set (worker_at u w))" for q w
      using same_structs_state [OF cleaned(2)] by (simp_all add: cleanup_unfold)
    have distinct: "q = p" if "c_in_use (client_at s q)" "client_fd (client_at s q) = client_fd (client_at s p)" for q
    proof -
      have "fd_of m s (In_slot q) = Some (client_fd (client_at s p))"
        "fd_of m s (In_slot p) = Some (client_fd (client_at s p))"
        using that used by simp_all
      then have "In_slot q = In_slot p" using fds unfolding fds_ok_def by blast
      then show "q = p" by simp
    qed
    show ?thesis
      unfolding epoll_ok_def
    proof (intro allI impI)
      fix q assume q: "c_in_use (client_at t q)"
      then have "q \<noteq> p" and "c_in_use (client_at s q)"
        using t(1) [of q] cleaned(1) by (auto simp: ids_kept_def split: if_splits)
      with ok distinct [of q] cleaned(1) show
        "client_fd (client_at t q) \<in> epoll_set (worker_at t (owner q))"
        by (auto simp: t epoll_ok_def ids_kept_def)
    qed
  qed
qed

lemma register_epoll:
  assumes ok: "epoll_ok s" and v: "efd_counter (worker_at s w) \<noteq> 0"
    and t: "register_new_client w add_ok s = Inr t"
    and room: "client_count (worker_at s w) < MAX_CLIENTS_PER_THREAD"
  shows "epoll_ok t"
proof (rule register_structs [OF t v])
  assume st: "same_structs (decrement_clients w (read_efd w s)) t"
  have "epoll_ok (decrement_clients w (read_efd w s))"
    by (rule epoll_ok_cong [OF _ _ ok]) simp_all
  with st show ?thesis by (simp add: epoll_ok_structs)
next
  fix u assume "clients (worker_at u w) = clients (worker_at s w)"
    "client_count (worker_at u w) = MAX_CLIENTS_PER_THREAD"
  with room show ?thesis by simp
next
  fix u i
  let ?fd = "efd_to_fd (efd_counter (worker_at s w))"
  assume u: "\<And>v. worker_at u v = (if v = w then (worker_at (read_efd w s) w)\<lparr>epoll_set :=
      insert ?fd (epoll_set (worker_at s w))\<rparr> else worker_at s v)"
    "\<And>p. client_at u p = client_at s p"
    and st: "same_structs (upd_client (Cptr w i) (\<lambda>_. new_client_in_slot ?fd) u) t"
  have "epoll_ok u" by (rule epoll_ok_cong [OF _ _ ok]) (auto simp: u)
  moreover have "?fd \<in> epoll_set (worker_at u w)" by (simp add: u)
  ultimately have "epoll_ok (upd_client (Cptr w i) (\<lambda>_. new_client_in_slot ?fd) u)"
    by (auto simp: epoll_ok_def)
  with st show ?thesis by (simp add: epoll_ok_structs)
qed

lemma handle_event_epoll:
  assumes inv: "sys_inv (m, s)" and w: "w < MAX_THREADS" and e: "event_ok w e s"
    and t: "handle_event w e s = Inr t" and ok: "epoll_ok s"
  shows "epoll_ok t"
proof (cases "ev_fd e = notification_fd (worker_at s w)")
  case True
  with e have v: "efd_counter (worker_at s w) \<noteq> 0" by (simp add: event_ok_def)
  have "worker_ok m s w" by (rule sys_invD(6) [OF inv w])
  with v have "client_count (worker_at s w) < MAX_CLIENTS_PER_THREAD"
    by (simp add: worker_ok_def pending_efd_def)
  with True t v ok register_epoll show ?thesis by (simp add: handle_event_def)
next
  case other: False
  show ?thesis
  proof (cases "find_client_by_fd w (ev_fd e) s")
    case None
    with other t ok show ?thesis by (simp add: handle_event_def)
  next
    case (Some p)
    have pos: "0 < ev_fd e" using e other by (simp add: event_ok_def)
    note p = find_client_Some [OF Some pos sys_invD(2) [OF inv]]
    from t other Some consider (hup) "handle_client_disconnection p s = Inr t"
      | (msg) "read_and_process_client_message p (ev_recv e) s = Inr t"
      by (auto simp: handle_event_def split: if_splits)
    then show ?thesis
    proof cases
      case hup
      show ?thesis
        by (rule served_epoll [OF ok sys_invD(3) [OF inv] disconnect_served [OF hup]
              res_allD [OF disconnect_own hup] p(1)])
    next
      case msg
      have last: "exit_last (current_msg (client_at s p)) (cstr (take MAX_MESSAGE_LEN_TO_SERVER bs))"
        if "ev_recv e = Received bs" for bs
        using e other Some that by (simp add: event_ok_def)
      show ?thesis
        by (rule served_epoll [OF ok sys_invD(3) [OF inv] read_served [OF last msg]
              res_allD [OF read_own.read_keeps msg] p(1)])
    qed
  qed
qed

lemma step_epoll:
  assumes "sys_step x y" and "sys_inv x" and "epoll_ok (snd x)"
  shows "epoll_ok (snd y)"
  using assms
proof (cases rule: sys_step.cases)
  case (starts w s efd add_ok t m)
  have "epoll_ok t"
    by (rule epoll_ok_cong [of t s])
      (use starts assms(3) in \<open>auto simp: worker_start_def register_with_epoll_def Let_def split: if_splits\<close>)
  with starts show ?thesis by simp
next
  case (accepts fd s opts write_ok m t)
  with assms(3) epoll_ok_cong [of t s] accept_round_clients [OF accepts(4)] accept_round_epoll [OF accepts(4)]
  show ?thesis by simp
next
  case (resumes s w fd write_ok t)
  with assms(3) epoll_ok_cong [of t s] hand_over_clients [OF resumes(4)] hand_over_epoll [OF resumes(4)]
  show ?thesis by simp
next
  case (serves w s e t m)
  with assms(2,3) handle_event_epoll show ?thesis by simp
qed

lemma reachable_epoll: "reachable x \<Longrightarrow> epoll_ok (snd x)"
proof (induction rule: reachable.induct)
  case (boots fds inits_ok rs s)
  then show ?case using boot_state(1) [OF boots] by (simp add: epoll_ok_def)
next
  case (steps x y)
  then show ?case using step_epoll reachable_inv by blast
qed

end
