(* ===== verification/Fine_System.thy ===== *)
theory Fine_System
  imports Fine_Moves System_Safety
begin

text \<open>
  All threads at the grain of critical sections: the main thread between the workers it looks at, in
  \<open>sem_wait\<close> or in \<open>accept4\<close>, and each worker at a point of its own. Settling a state gives the state
  of \<open>Server_System\<close> in which the operations that are under way are already paid for; it satisfies the
  invariant \<open>sys_inv\<close> at every moment.
\<close>

section \<open>The main thread\<close>

datatype main_pc = Accepting | Choosing int nat | Waiting int nat

text \<open>One round of the loop of \<open>find_worker_not_at_capacity\<close>, with what \<open>distribute_client\<close> does when
  it was the last.\<close>

definition choose_step :: "int \<Rightarrow> nat \<Rightarrow> server \<Rightarrow> (main_pc \<times> server) res" where
  "choose_step fd left s =
     (let w = worker_index s; s1 = emit (Lock (Count_lock w)) s in
      if int MAX_CLIENTS_PER_THREAD \<le> num_of_clients (worker_at s1 w) then
        let s2 = next_index (emit (Unlock (Count_lock w)) s1) in
        (case left of
           0 \<Rightarrow> res_bind (send_message_to_client fd ERR_SERVER_FULL capacity_text s2)
                (\<lambda>t. Inr (Accepting, emit (Close fd) t))
         | Suc left' \<Rightarrow> Inr (Choosing fd left', s2))
      else
        Inr (Waiting fd w,
         next_index (emit (Unlock (Count_lock w))
           (upd_worker w (\<lambda>t. t\<lparr>num_of_clients := num_of_clients t + 1\<rparr>) s1))))"

section \<open>Steps\<close>

type_synonym fine = "main_pc \<times> (nat \<Rightarrow> pc) \<times> server"

text \<open>A failed \<open>accept4\<close> and a failed \<open>setsockopt\<close> leave everything as it is. The descriptor that
  \<open>accept4\<close> returns is one that nobody holds.\<close>

inductive fine_step :: "fine \<Rightarrow> fine \<Rightarrow> bool" where
  f_starts: "w < MAX_THREADS \<Longrightarrow> cs w = Ready \<Longrightarrow> epoll_fd (worker_at s w) = 0 \<Longrightarrow>
    worker_start w efd add_ok s = Some t \<Longrightarrow> fine_step (m, cs, s) (m, cs, t)"
| f_accepts: "fresh_fd Main_accepting s fd \<Longrightarrow> set_socket_keep_alive opts \<noteq> -1 \<Longrightarrow>
    fine_step (Accepting, cs, s) (Choosing fd MAX_THREADS, cs, s)"
| f_chooses: "choose_step fd left s = Inr (m, t) \<Longrightarrow> fine_step (Choosing fd left, cs, s) (m, cs, t)"
| f_resumes: "0 < new_client (worker_at s w) \<Longrightarrow> hand_over fd w write_ok s = Inr t \<Longrightarrow>
    fine_step (Waiting fd w, cs, s) (Accepting, cs, t)"
| f_begins: "w < MAX_THREADS \<Longrightarrow> cs w = Ready \<Longrightarrow> epoll_fd (worker_at s w) \<noteq> 0 \<Longrightarrow> event_ok w e s \<Longrightarrow>
    begin_event w e s = Inr (c, t) \<Longrightarrow> fine_step (m, cs, s) (m, cs(w := c), t)"
| f_continues: "w < MAX_THREADS \<Longrightarrow> cs w \<noteq> Ready \<Longrightarrow> micro w (cs w) s = Inr (c, t) \<Longrightarrow>
    fine_step (m, cs, s) (m, cs(w := c), t)"

inductive_cases fine_stepE: "fine_step x y"

inductive fine_reachable :: "fine \<Rightarrow> bool" where
  f_boots: "setup_threads fds inits_ok (init_server_rooms (zero_server rs)) = Some s \<Longrightarrow>
    fine_reachable (Accepting, (\<lambda>_. Ready), s)"
| f_steps: "fine_reachable x \<Longrightarrow> fine_step x y \<Longrightarrow> fine_reachable y"

section \<open>Settling\<close>

text \<open>A client that has left its room, or is about to be cleaned up, still says that it is in the
  room; a worker that has freed a slot, or has refused a client, still counts it.\<close>

fun transit :: "pc \<Rightarrow> cptr option" where
  "transit (Left p ri rest) = Some p"
| "transit (Closing p after) = Some p"
| "transit c = None"

fun uncounted :: "pc \<Rightarrow> nat" where
  "uncounted (Uncounting p after) = 1"
| "uncounted (Refusing fd) = 1"
| "uncounted c = 0"

definition settle_client :: "pc \<Rightarrow> cptr \<Rightarrow> client \<Rightarrow> client" where
  "settle_client c p cl = (if transit c = Some p then cl\<lparr>cstate := IN_CHAT_LOBBY\<rparr> else cl)"

definition settle_worker :: "pc \<Rightarrow> nat \<Rightarrow> worker \<Rightarrow> worker" where
  "settle_worker c w t =
     t\<lparr>num_of_clients := num_of_clients t - int (uncounted c),
       clients := (\<lambda>k. settle_client c (Cptr w k) (clients t k))\<rparr>"

definition settle :: "(nat \<Rightarrow> pc) \<Rightarrow> server \<Rightarrow> server" where
  "settle cs s = s\<lparr>worker_threads := (\<lambda>w. settle_worker (cs w) w (worker_threads s w))\<rparr>"

fun settle_main :: "main_pc \<Rightarrow> main_state" where
  "settle_main Accepting = Main_accepting"
| "settle_main (Choosing fd left) = Main_accepting"
| "settle_main (Waiting fd w) = Main_waiting fd w"

lemma settle_client_at [simp]:
  "client_at (settle cs s) p = settle_client (cs (owner p)) p (client_at s p)"
  by (cases p) (simp add: client_at_def settle_def settle_worker_def)

lemma settle_simps [simp]:
  "room_at (settle cs s) i = room_at s i"
  "worker_index (settle cs s) = worker_index s"
  "replies (settle cs s) = replies s"
  "num_of_clients (worker_at (settle cs s) w) = num_of_clients (worker_at s w) - int (uncounted (cs w))"
  "new_client (worker_at (settle cs s) w) = new_client (worker_at s w)"
  "efd_counter (worker_at (settle cs s) w) = efd_counter (worker_at s w)"
  "epoll_set (worker_at (settle cs s) w) = epoll_set (worker_at s w)"
  "epoll_fd (worker_at (settle cs s) w) = epoll_fd (worker_at s w)"
  "notification_fd (worker_at (settle cs s) w) = notification_fd (worker_at s w)"
  by (simp_all add: settle_def room_at_def worker_at_def settle_worker_def)

lemma settle_client_simps [simp]:
  "c_in_use (settle_client c p cl) = c_in_use cl"
  "client_fd (settle_client c p cl) = client_fd cl"
  "current_msg (settle_client c p cl) = current_msg cl"
  "cname (settle_client c p cl) = cname cl"
  "room_index (settle_client c p cl) = room_index cl"
  by (simp_all add: settle_client_def)

lemma settle_client_none [simp]: "transit c \<noteq> Some p \<Longrightarrow> settle_client c p cl = cl"
  by (simp add: settle_client_def)

lemma settle_client_some [simp]: "transit c = Some p \<Longrightarrow> settle_client c p cl = cl\<lparr>cstate := IN_CHAT_LOBBY\<rparr>"
  by (simp add: settle_client_def)

lemma settle_Ready: "settle (\<lambda>_. Ready) s = s"
proof -
  have "settle_worker Ready w t = t" for w t
    by (cases t) (simp add: settle_worker_def)
  then show ?thesis by (cases s) (simp add: settle_def)
qed

text \<open>The tables of a settled state, seen through any state with the same clients and rooms.\<close>

lemma settle_table:
  assumes "table_inv u" and "\<And>p. client_at (settle cs t) p = client_at u p" and "\<And>i. room_at t i = room_at u i"
  shows "table_inv (settle cs t)"
  using assms(1) table_inv_cong [of "settle cs t" u] assms(2,3) by simp

section \<open>What holds of a worker at a point\<close>

fun pc_ok :: "nat \<Rightarrow> pc \<Rightarrow> server \<Rightarrow> bool" where
  "pc_ok w Ready s = True"
| "pc_ok w (Chunk p temp) s \<longleftrightarrow> owner p = w \<and>
     (temp = [] \<or> c_in_use (client_at s p) \<and> exit_last (current_msg (client_at s p)) temp)"
| "pc_ok w (Creating p name success i rest) s \<longleftrightarrow> owner p = w \<and> c_in_use (client_at s p) \<and>
     cstate (client_at s p) = IN_CHAT_LOBBY \<and> length name \<le> MAX_ROOM_NAME_LEN \<and>
     length success \<le> 200 \<and> exit_last [] rest"
| "pc_ok w (Listing p i acc avail rest) s \<longleftrightarrow> owner p = w \<and> c_in_use (client_at s p) \<and>
     cstate (client_at s p) = IN_CHAT_LOBBY \<and> length acc < MAX_MESSAGE_LEN_FROM_SERVER \<and> exit_last [] rest"
| "pc_ok w (Left p ri rest) s \<longleftrightarrow> owner p = w \<and> c_in_use (client_at s p) \<and>
     cstate (client_at s p) = IN_CHAT_ROOM \<and> exit_last [] rest"
| "pc_ok w (Closing p after) s \<longleftrightarrow> owner p = w \<and> c_in_use (client_at s p) \<and> (after = None \<or> after = Some [])"
| "pc_ok w (Uncounting p after) s \<longleftrightarrow> owner p = w \<and> (after = None \<or> after = Some [])"
| "pc_ok w (Greeting fd) s = True"
| "pc_ok w (Refusing fd) s = True"

lemma pc_ok_cong:
  assumes "\<And>q. owner q = w \<Longrightarrow> client_at t q = client_at s q"
  shows "pc_ok w c t = pc_ok w c s"
  by (cases c) (auto simp: assms)

fun main_pc_ok :: "main_pc \<Rightarrow> server \<Rightarrow> bool" where
  "main_pc_ok (Choosing fd left) s = fresh_fd Main_accepting s fd"
| "main_pc_ok m s = True"

definition fine_inv :: "fine \<Rightarrow> bool" where
  "fine_inv = (\<lambda>(m, cs, s). sys_inv (settle_main m, settle cs s) \<and> main_pc_ok m s \<and>
     (\<forall>w. pc_ok w (cs w) s) \<and> (\<forall>w. MAX_THREADS \<le> w \<longrightarrow> cs w = Ready))"

lemma fine_invD:
  assumes "fine_inv (m, cs, s)"
  shows "sys_inv (settle_main m, settle cs s)" "main_pc_ok m s" "pc_ok w (cs w) s"
    "MAX_THREADS \<le> w \<Longrightarrow> cs w = Ready"
  using assms by (simp_all add: fine_inv_def)

text \<open>No new holder of a descriptor comes from a worker.\<close>

definition fds_from :: "server \<Rightarrow> server \<Rightarrow> bool" where
  "fds_from s t \<longleftrightarrow>
     (\<forall>h fd. fd_of Main_accepting t h = Some fd \<longrightarrow> (\<exists>g. fd_of Main_accepting s g = Some fd))"

interpretation fds_from: effect_preorder fds_from
  by unfold_locales (unfold fds_from_def, blast+)

lemma fresh_from: "fresh_fd Main_accepting s fd \<Longrightarrow> fds_from s t \<Longrightarrow> fresh_fd Main_accepting t fd"
  unfolding fresh_fd_def fds_from_def by blast

lemma fds_fromI:
  assumes "\<And>p. c_in_use (client_at t p) \<Longrightarrow> c_in_use (client_at s p) \<and> client_fd (client_at t p) = client_fd (client_at s p)"
    and "\<And>w. efd_counter (worker_at t w) = efd_counter (worker_at s w)"
  shows "fds_from s t"
  unfolding fds_from_def
proof (intro allI impI)
  fix h fd assume h: "fd_of Main_accepting t h = Some fd"
  then have "fd_of Main_accepting s h = Some fd"
    using assms by (cases h) (auto split: if_splits)
  then show "\<exists>g. fd_of Main_accepting s g = Some fd" by blast
qed

text \<open>What a step of worker \<open>w\<close> to the point \<open>c\<close> keeps.\<close>

definition good_step :: "main_state \<Rightarrow> nat \<Rightarrow> (nat \<Rightarrow> pc) \<Rightarrow> server \<Rightarrow> pc \<Rightarrow> server \<Rightarrow> bool" where
  "good_step m w cs s c t \<longleftrightarrow>
     sys_inv (m, settle (cs(w := c)) t) \<and> pc_ok w c t \<and> fds_from s t \<and>
     (\<forall>q. owner q \<noteq> w \<longrightarrow> client_at t q = client_at s q)"

end
