(* ===== verification/Fine_Invariant.thy ===== *)
theory Fine_Invariant
  imports Fine_System
begin

text \<open>
  The invariant of the fine-grained system: every step of every thread, in whatever order the threads
  take them, leads from a state that settles to a consistent one to another.
\<close>

section \<open>Steps that serve a client\<close>

lemma serve_step:
  assumes inv: "sys_inv (m, settle cs s)" and p: "owner p = w" "c_in_use (client_at s p)"
    and cnt: "uncounted (cs w) = 0" "uncounted c = 0"
    and tr: "transit (cs w) = None \<or> transit (cs w) = Some p" "transit c = None \<or> transit c = Some p"
    and others: "\<And>q. q \<noteq> p \<Longrightarrow> client_at t q = client_at s q"
    and self: "c_in_use (client_at t p)" "client_fd (client_at t p) = client_fd (client_at s p)"
    and workers: "\<And>v. num_of_clients (worker_at t v) = num_of_clients (worker_at s v) \<and>
      new_client (worker_at t v) = new_client (worker_at s v) \<and>
      efd_counter (worker_at t v) = efd_counter (worker_at s v)"
    and index: "worker_index t = worker_index s"
    and tab: "table_inv (settle (cs(w := c)) t)" and ok: "pc_ok w c t"
  shows "good_step m w cs s c t"
proof -
  have st: "client_at (settle (cs(w := c)) t) q = client_at (settle cs s) q" if "q \<noteq> p" for q
    using that tr p(1) others [OF that] by auto
  have "sys_inv (m, settle (cs(w := c)) t)"
    by (rule kept_inv [OF inv _ st _ _ _ _ tab, of p])
      (use p self workers index cnt in simp_all)
  moreover have "fds_from s t"
  proof (rule fds_fromI)
    fix q show "c_in_use (client_at t q) \<Longrightarrow> c_in_use (client_at s q) \<and> client_fd (client_at t q) = client_fd (client_at s q)"
      using p self others [of q] by (cases "q = p") simp_all
  qed (use workers in simp)
  ultimately show ?thesis using ok p(1) by (auto simp: good_step_def intro!: others)
qed

text \<open>The two places at which a room changes hands with its client under way.\<close>

lemma settle_table_client:
  assumes tab: "table_inv (upd_client p f u)" and p: "owner p = w"
    and tr: "transit (cs w) = None" "transit c = None \<or> transit c = Some p"
    and others: "\<And>q. q \<noteq> p \<Longrightarrow> client_at t q = client_at s q"
    and u: "\<And>q. q \<noteq> p \<Longrightarrow> client_at u q = settle_client (cs (owner q)) q (client_at s q)"
    and self: "settle_client c p (client_at t p) = f (client_at u p)"
    and rooms: "\<And>i. room_at t i = room_at u i"
  shows "table_inv (settle (cs(w := c)) t)"
proof (rule settle_table [OF tab])
  fix q show "client_at (settle (cs(w := c)) t) q = client_at (upd_client p f u) q"
    using p tr others [of q] u [of q] self by (cases "q = p") auto
qed (simp add: rooms)

lemma clear_msg_simps [simp]:
  "client_at (clear_msg p s) q = (if q = p then (client_at s p)\<lparr>current_msg := []\<rparr> else client_at s q)"
  "room_at (clear_msg p s) i = room_at s i"
  "worker_index (clear_msg p s) = worker_index s"
  by (simp_all add: clear_msg_def)

lemma clear_msg_worker [simp]:
  "num_of_clients (worker_at (clear_msg p s) v) = num_of_clients (worker_at s v)"
  "new_client (worker_at (clear_msg p s) v) = new_client (worker_at s v)"
  "efd_counter (worker_at (clear_msg p s) v) = efd_counter (worker_at s v)"
  by (simp_all add: clear_msg_def)

lemma settled_client:
  "transit (cs (owner p)) \<noteq> Some p \<Longrightarrow> client_at (settle cs s) p = client_at s p"
  by simp

text \<open>A table seen through the buffer of a client.\<close>

lemma table_inv_clear: "table_inv s \<Longrightarrow> table_inv (clear_msg p s)"
  by (simp add: clear_msg_def)

lemma upd_client_table:
  assumes "table_inv s" and "cstate (client_at s p) \<noteq> IN_CHAT_ROOM" and "cstate (f (client_at s p)) \<noteq> IN_CHAT_ROOM"
  shows "table_inv (upd_client p f s)"
  using assms by (auto simp: table_inv_def intro: linked_upd_client)

section \<open>The head of the loop body\<close>

lemma left_room:
  assumes inv: "table_inv S" and room: "cstate (client_at S p) = IN_CHAT_ROOM"
    and t: "leave_room p (room_index (client_at S p)) s = Inr t"
    and rooms: "\<And>i. room_at S i = room_at s i" and f: "cstate (f (client_at S p)) \<noteq> IN_CHAT_ROOM"
  obtains i where "table_inv (upd_client p f (upd_room i (room_left p) S))"
    "same_structs (upd_room i (room_left p) s) t" "\<And>j. room_at t j = room_at (upd_room i (room_left p) S) j"
proof -
  from inv room obtain i k where ik: "sits S i k p" "room_index (client_at S p) = int i" "i < MAX_ROOMS"
    by (auto simp: table_inv_def elim: linked_in_room)
  have st: "same_structs (upd_room i (room_left p) s) t"
    using leave_structs [OF t [unfolded ik(2)]] by (simp only: leave_as_update)
  have "table_inv (upd_client p f (upd_room i (room_left p) S))"
    using inv linked_leave [where f = f, OF _ _ ik(1) f] ik(3)
    by (auto simp: table_inv_def rooms_okD intro!: rooms_ok_upd_room room_ok_left)
  moreover have "room_at t j = room_at (upd_room i (room_left p) S) j" for j
    by (simp add: same_structs_state(2) [OF st] rooms)
  ultimately show thesis using st that by blast
qed

lemma disconnect_step:
  assumes inv: "sys_inv (m, settle cs s)" and p: "owner p = w" "c_in_use (client_at s p)"
    and cnt: "uncounted (cs w) = 0" and tr: "transit (cs w) = None"
    and after: "after = None \<or> after = Some []"
    and t: "begin_disconnect p after s = Inr (c, t)"
  shows "good_step m w cs s c t"
proof -
  let ?S = "settle cs s"
  have c: "c = Closing p after" using disconnect_work [OF t] .
  have S: "client_at ?S p = client_at s p" using tr p by simp
  note tab = sys_invD(1) [OF inv]
  show ?thesis
  proof (cases "cstate (client_at s p) = IN_CHAT_ROOM")
    case True
    with t have l: "leave_room p (room_index (client_at ?S p)) s = Inr t"
      by (auto simp: begin_disconnect_def res_bind_eq_Inr S)
    obtain i where i: "table_inv (upd_client p (\<lambda>c. c\<lparr>cstate := IN_CHAT_LOBBY\<rparr>) (upd_room i (room_left p) ?S))"
      "same_structs (upd_room i (room_left p) s) t" "\<And>j. room_at t j = room_at (upd_room i (room_left p) ?S) j"
      by (rule left_room [OF tab _ l, of "\<lambda>c. c\<lparr>cstate := IN_CHAT_LOBBY\<rparr>"]) (use True S in simp_all)
    note st = same_structs_state [OF i(2)]
    have "table_inv (settle (cs(w := c)) t)"
      by (rule settle_table_client [where cs = cs and s = s, OF i(1) p(1) tr])
        (use p tr c i(3) S in \<open>simp_all add: st\<close>)
    then show ?thesis
      by (intro serve_step [OF inv p cnt]) (use p tr c after in \<open>simp_all add: st\<close>)
  next
    case False
    with t have [simp]: "t = s" by (simp add: begin_disconnect_def)
    have "table_inv (upd_client p (\<lambda>c. c\<lparr>cstate := IN_CHAT_LOBBY\<rparr>) ?S)"
      by (rule upd_client_table [OF tab]) (use False S in simp_all)
    then have "table_inv (settle (cs(w := c)) t)"
      by (rule settle_table_client [where cs = cs and s = s, OF _ p(1) tr]) (use p tr c S in simp_all)
    then show ?thesis
      by (intro serve_step [OF inv p cnt]) (use p tr c after in simp_all)
  qed
qed

lemma move_step:
  assumes inv: "sys_inv (m, settle cs s)" and p: "owner p = w" "c_in_use (client_at s p)"
    and cnt: "uncounted (cs w) = 0" and tr: "transit (cs w) = None"
    and last: "exit_last [] rest" "is_exit (current_msg (client_at s p)) \<Longrightarrow> rest = []"
    and mv: "move p rest s c t"
  shows "good_step m w cs s c t"
proof -
  let ?S = "settle cs s"
  have S: "client_at ?S p = client_at s p" using tr p by simp
  note tab = sys_invD(1) [OF inv]
  note serve = serve_step [OF inv p cnt]
  from mv show ?thesis
  proof cases
    case answered
    note st = same_structs_state [OF answered(2)]
    have "table_inv (settle (cs(w := c)) t)"
      by (rule settle_table [OF table_inv_clear [OF tab, of p]])
        (use p tr answered(1) in \<open>auto simp: st\<close>)
    then show ?thesis using p tr answered(1) last by (intro serve) (simp_all add: st)
  next
    case (named n)
    have "table_inv (upd_client p (\<lambda>c. c\<lparr>cname := n, cstate := IN_CHAT_LOBBY\<rparr>) ?S)"
      by (rule upd_client_table [OF tab]) (use named S in simp_all)
    then have "table_inv (settle (cs(w := c)) t)"
      by (rule settle_table_client [where cs = cs and s = s, OF _ p(1) tr]) (use p tr named S in simp_all)
    then show ?thesis using p tr named last by (intro serve) (simp_all add: text_lengths limits)
  next
    case lists
    have "table_inv (settle (cs(w := c)) t)"
      by (rule settle_table [OF tab]) (use p tr lists in auto)
    then show ?thesis using p tr lists last by (intro serve) (simp_all add: text_lengths limits)
  next
    case (creates n success)
    have "table_inv (settle (cs(w := c)) t)"
      by (rule settle_table [OF tab]) (use p tr creates in auto)
    then show ?thesis using p tr creates last by (intro serve) simp_all
  next
    case (joins i k)
    note st = same_structs_state [OF joins(6)]
    have "table_inv (clear_msg p (move_into p i (add_member p k i ?S)))"
      by (rule table_inv_clear [OF enter_inv [OF tab]]) (use joins p S in simp_all)
    then have "table_inv (settle (cs(w := c)) t)"
      by (rule settle_table) (use p tr joins S in \<open>auto simp: st move_into_def add_member_def\<close>)
    then show ?thesis using p tr joins last
      by (intro serve) (simp_all add: st move_into_def add_member_def)
  next
    case leaves
    then have l: "leave_room p (room_index (client_at ?S p)) s = Inr t" by (simp add: S)
    obtain i where i: "table_inv (upd_client p (\<lambda>c. c\<lparr>cstate := IN_CHAT_LOBBY\<rparr>) (upd_room i (room_left p) ?S))"
      "same_structs (upd_room i (room_left p) s) t" "\<And>j. room_at t j = room_at (upd_room i (room_left p) ?S) j"
      by (rule left_room [OF tab _ l, of "\<lambda>c. c\<lparr>cstate := IN_CHAT_LOBBY\<rparr>"]) (use leaves S in simp_all)
    note st = same_structs_state [OF i(2)]
    have "table_inv (settle (cs(w := c)) t)"
      by (rule settle_table_client [where cs = cs and s = s, OF i(1) p(1) tr])
        (use p tr leaves i(3) S in \<open>simp_all add: st\<close>)
    then show ?thesis using p tr leaves last by (intro serve) (simp_all add: st)
  next
    case exits
    with last(2) show ?thesis by (intro disconnect_step [OF inv p cnt tr _ exits(2)]) simp
  qed
qed

section \<open>The other points\<close>

lemma chunk_step:
  assumes inv: "sys_inv (m, settle cs s)" and c0: "cs w = Chunk p temp" and ok: "pc_ok w (cs w) s"
    and t: "micro w (cs w) s = Inr (c, t)"
  shows "good_step m w cs s c t"
proof (cases "temp = []")
  case True
  with t c0 have "c = Ready" "t = s" by simp_all
  moreover have "table_inv (settle (cs(w := Ready)) s)"
    by (rule settle_table [OF sys_invD(1) [OF inv]]) (use c0 in auto)
  moreover have "sys_inv (m, settle (cs(w := Ready)) s)"
    by (rule sys_inv_cong [OF _ _ _ inv]) (use c0 sys_invD(5) [OF inv] in auto)
  ultimately show ?thesis by (simp add: good_step_def fds_from.keep_refl)
next
  case False
  with ok c0 have p: "owner p = w" "c_in_use (client_at s p)"
    and last: "exit_last (current_msg (client_at s p)) temp" by simp_all
  have cnt: "uncounted (cs w) = 0" and tr: "transit (cs w) = None" using c0 by simp_all
  have buf: "good_step m w cs s d (upd_client p (\<lambda>c. c\<lparr>current_msg := x\<rparr>) s)"
    if "uncounted d = 0" "transit d = None" "pc_ok w d (upd_client p (\<lambda>c. c\<lparr>current_msg := x\<rparr>) s)" for d x
  proof -
    have "table_inv (settle (cs(w := d)) (upd_client p (\<lambda>c. c\<lparr>current_msg := x\<rparr>) s))"
      by (rule settle_table [where u = "upd_client p (\<lambda>c. c\<lparr>current_msg := x\<rparr>) (settle cs s)"])
        (use sys_invD(1) [OF inv] that p tr in auto)
    then show ?thesis by (intro serve_step [OF inv p cnt]) (use that tr p in simp_all)
  qed
  show ?thesis
  proof (cases "split_crlf temp")
    case None
    with t c0 False have "c = Ready" "\<exists>x. t = upd_client p (\<lambda>c. c\<lparr>current_msg := x\<rparr>) s"
      by (auto simp: append_msg_def res_bind_eq_Inr)
    with buf [of Ready] show ?thesis by auto
  next
    case (Some x)
    obtain seg rest where x: "x = (seg, rest)" by (cases x)
    let ?m = "current_msg (client_at s p) @ seg"
    let ?u = "upd_client p (\<lambda>c. c\<lparr>current_msg := ?m\<rparr>) s"
    from t c0 Some x have "begin_route p rest ?u = Inr (c, t)"
      by (auto simp: append_msg_def res_bind_eq_Inr c_store_eq_Inr)
    note mv = begin_route_moves [OF this]
    have last': "exit_last [] rest" "is_exit ?m \<Longrightarrow> rest = []"
      using last Some x by (subst (asm) exit_last.simps, auto simp: exit_last.simps [of "[]" "[]"] split: if_splits)+
    have "good_step m w cs s (Chunk p []) ?u"
      by (rule buf) (use p in simp_all)
    then have u: "sys_inv (m, settle (cs(w := Chunk p [])) ?u)" "fds_from s ?u"
      "\<And>q. owner q \<noteq> w \<Longrightarrow> client_at ?u q = client_at s q"
      by (simp_all add: good_step_def)
    have "good_step m w (cs(w := Chunk p [])) ?u c t"
      by (rule move_step [OF u(1) p(1) _ _ _ last'(1) _ mv]) (use p last'(2) in simp_all)
    then show ?thesis using u by (auto simp: good_step_def intro: fds_from.keep_trans)
  qed
qed

text \<open>A quiet step: the structs stay, the message is over.\<close>

lemma answer_step:
  assumes inv: "sys_inv (m, settle cs s)" and p: "owner p = w" "c_in_use (client_at s p)"
    and cnt: "uncounted (cs w) = 0" and tr: "transit (cs w) = None"
    and last: "exit_last [] rest" and t: "then_next p rest x = Inr (c, t)"
    and quiet: "\<And>u. x = Inr u \<Longrightarrow> same_structs s u"
  shows "good_step m w cs s c t"
proof -
  from t obtain u where u: "x = Inr u" "c = Chunk p rest" "t = clear_msg p u"
    by (auto simp: then_next_eq)
  note st = same_structs_state [OF quiet [OF u(1)]]
  have "table_inv (settle (cs(w := c)) t)"
    by (rule settle_table [OF table_inv_clear [OF sys_invD(1) [OF inv], of p]])
      (use p tr u in \<open>auto simp: st\<close>)
  then show ?thesis
    using p tr u last by (intro serve_step [OF inv p cnt]) (simp_all add: st)
qed

text \<open>A loop goes on with the structs as they were.\<close>

lemma loop_step:
  assumes inv: "sys_inv (m, settle cs s)" and p: "owner p = w" "c_in_use (client_at s p)"
    and cnt: "uncounted (cs w) = 0" "uncounted c = 0" and tr: "transit (cs w) = None" "transit c = None"
    and st: "same_structs s t" and ok: "pc_ok w c s"
  shows "good_step m w cs s c t"
proof -
  note st' = same_structs_state [OF st]
  have "table_inv (settle (cs(w := c)) t)"
    by (rule settle_table [OF sys_invD(1) [OF inv]]) (use p tr in \<open>auto simp: st'\<close>)
  moreover have "pc_ok w c t" using ok pc_ok_cong [of w t s c] by (simp add: st')
  ultimately show ?thesis
    using p tr cnt by (intro serve_step [OF inv p]) (simp_all add: st')
qed

lemma create_step_good:
  assumes inv: "sys_inv (m, settle cs s)" and c0: "cs w = Creating p name success i rest"
    and ok: "pc_ok w (cs w) s" and t: "create_step p name success i rest s = Inr (c, t)"
  shows "good_step m w cs s c t"
proof -
  have p: "owner p = w" "c_in_use (client_at s p)" and lobby: "cstate (client_at s p) = IN_CHAT_LOBBY"
    and len: "length name \<le> MAX_ROOM_NAME_LEN" and last: "exit_last [] rest"
    using ok c0 by simp_all
  have cnt: "uncounted (cs w) = 0" and tr: "transit (cs w) = None" using c0 by simp_all
  let ?S = "settle cs s"
  show ?thesis
  proof (cases "i < MAX_ROOMS \<and> \<not> r_in_use (room_at s i)")
    case False
    then consider "i < MAX_ROOMS" "r_in_use (room_at s i)" | "\<not> i < MAX_ROOMS" by blast
    then show ?thesis
    proof cases
      case 1
      with t have "c = Creating p name success (Suc i) rest" "same_structs s t"
        by (auto simp: create_step_def Let_def structs.keep_refl)
      with ok c0 show ?thesis by (intro loop_step [OF inv p cnt _ tr]) simp_all
    next
      case 2
      with t have "then_next p rest (send_message_to_client (client_fd (client_at s p))
          ERR_ROOM_CAPACITY_FULL rooms_full_text s) = Inr (c, t)"
        by (simp add: create_step_def)
      then show ?thesis by (rule answer_step [OF inv p cnt tr last _ quiet_send])
    qed
  next
    case True
    with t obtain u where u: "found_room p name success i (emit (Lock (Room_lock i)) s) = Inr u"
      "c = Chunk p rest" "t = clear_msg p u"
      by (auto simp: create_step_def Let_def then_next_eq)
    have "same_structs (open_room p name i s) (open_room p name i (emit (Lock (Room_lock i)) s))"
      by (rule open_room_structs) (simp add: structs.keep_refl)
    then have "same_structs (open_room p name i s) u"
      using res_allD [OF found_room_structs u(1)] by (blast intro: structs.keep_trans)
    note st = same_structs_state [OF this]
    have "table_inv (clear_msg p (open_room p name i ?S))"
      by (rule table_inv_clear [OF open_room_inv [OF sys_invD(1) [OF inv]]])
        (use True p lobby len tr in simp_all)
    then have "table_inv (settle (cs(w := c)) t)"
      by (rule settle_table) (use p tr u in \<open>auto simp: st open_room_def\<close>)
    then show ?thesis using p tr u last
      by (intro serve_step [OF inv p cnt]) (simp_all add: st open_room_def)
  qed
qed

lemma list_step_good:
  assumes inv: "sys_inv (m, settle cs s)" and c0: "cs w = Listing p i acc avail rest"
    and ok: "pc_ok w (cs w) s" and t: "list_step p i acc avail rest s = Inr (c, t)"
  shows "good_step m w cs s c t"
proof -
  have p: "owner p = w" "c_in_use (client_at s p)" and lobby: "cstate (client_at s p) = IN_CHAT_LOBBY"
    and last: "exit_last [] rest"
    using ok c0 by simp_all
  have cnt: "uncounted (cs w) = 0" and tr: "transit (cs w) = None" using c0 by simp_all
  show ?thesis
  proof (cases "i < MAX_ROOMS")
    case True
    let ?t = "emit (Unlock (Room_lock i)) (emit (Lock (Room_lock i)) s)"
    have "\<exists>acc' avail'. c = Listing p (Suc i) acc' avail' rest \<and> t = ?t \<and>
        (length acc' < MAX_MESSAGE_LEN_FROM_SERVER \<or> acc' = acc)"
    proof (cases "r_in_use (room_at s i)")
      case False
      with True t have "c = Listing p (Suc i) acc avail rest" "t = ?t"
        by (simp_all add: list_step_def Let_def)
      then show ?thesis by blast
    next
      case used: True
      with True t show ?thesis
        by (auto simp: list_step_def Let_def res_bind_eq_Inr c_store_eq_Inr)
    qed
    then obtain acc' avail' where c: "c = Listing p (Suc i) acc' avail' rest" and t': "t = ?t"
      and len: "length acc' < MAX_MESSAGE_LEN_FROM_SERVER \<or> acc' = acc" by blast
    have "same_structs s t" by (simp add: t' structs.keep_refl)
    moreover have "pc_ok w c s" using ok c0 len by (auto simp: c)
    ultimately show ?thesis by (intro loop_step [OF inv p cnt _ tr]) (simp_all add: c)
  next
    case False
    with t have "then_next p rest (send_list p acc avail s) = Inr (c, t)"
      by (simp add: list_step_def send_list_def)
    then show ?thesis
      by (rule answer_step [OF inv p cnt tr last])
        (auto simp: send_list_def res_bind_eq_Inr dest: quiet_send)
  qed
qed

lemma left_step_good:
  assumes inv: "sys_inv (m, settle cs s)" and c0: "cs w = Left p ri rest"
    and ok: "pc_ok w (cs w) s" and t: "left_step p ri rest s = Inr (c, t)"
  shows "good_step m w cs s c t"
proof -
  have p: "owner p = w" "c_in_use (client_at s p)" and last: "exit_last [] rest"
    using ok c0 by simp_all
  have cnt: "uncounted (cs w) = 0" and tr: "transit (cs w) = Some p" using c0 by simp_all
  from t obtain u where u: "send_message_to_client (client_fd (client_at s p)) CMD_ROOM_LEAVE_OK
      left_ok_text (emit (Lock (Room_lock (nat ri))) s) = Inr u" "c = Chunk p rest"
    "t = clear_msg p (upd_client p (\<lambda>c. c\<lparr>cstate := IN_CHAT_LOBBY\<rparr>) (emit (Unlock (Room_lock (nat ri))) u))"
    by (auto simp: left_step_def Let_def then_next_eq res_bind_eq_Inr)
  have st: "client_at u q = client_at s q" "room_at u j = room_at s j" "worker_at u v = worker_at s v"
    "worker_index u = worker_index s" for q j v
    using same_structs_state [OF quiet_send [OF u(1)]] by simp_all
  have "table_inv (clear_msg p (settle cs s))" by (rule table_inv_clear [OF sys_invD(1) [OF inv]])
  then have "table_inv (settle (cs(w := c)) t)"
    by (rule settle_table) (use p tr u in \<open>auto simp: st\<close>)
  then show ?thesis using p tr u last by (intro serve_step [OF inv p cnt]) (simp_all add: st)
qed

end
