(* ===== verification/Fine_Reachable.thy ===== *)
theory Fine_Reachable
  imports Fine_Invariant
begin

text \<open>
  The steps around the messages (cleaning up, taking in, the main thread), and with them the
  invariant of every state that the fine-grained system can reach.
\<close>

section \<open>Cleaning up\<close>

lemma clear_slot_simps [simp]:
  "client_at (clear_slot p s) q = (if q = p then zero_client else client_at s q)"
  "room_at (clear_slot p s) i = room_at s i"
  "worker_index (clear_slot p s) = worker_index s"
  "num_of_clients (worker_at (clear_slot p s) v) = num_of_clients (worker_at s v)"
  "new_client (worker_at (clear_slot p s) v) = new_client (worker_at s v)"
  "efd_counter (worker_at (clear_slot p s) v) = efd_counter (worker_at s v)"
  by (simp_all add: clear_slot_def Let_def)

lemma cleanup_worker:
  "new_client (worker_at (cleanup_client p s) v) = new_client (worker_at s v)"
  "efd_counter (worker_at (cleanup_client p s) v) = efd_counter (worker_at s v)"
  "worker_index (cleanup_client p s) = worker_index s"
  "room_at (cleanup_client p s) i = room_at s i"
  by (simp_all add: cleanup_unfold)

lemma closing_step:
  assumes inv: "sys_inv (m, settle cs s)" and c0: "cs w = Closing p after" and ok: "pc_ok w (cs w) s"
  shows "good_step m w cs s (Uncounting p after) (clear_slot p s)"
proof -
  let ?S = "settle cs s" and ?c = "Uncounting p after" and ?t = "clear_slot p s"
  have p: "owner p = w" "c_in_use (client_at s p)" and after: "after = None \<or> after = Some []"
    using ok c0 by simp_all
  have tab: "table_inv (cleanup_client p ?S)"
    unfolding cleanup_inv by (rule upd_client_table [OF sys_invD(1) [OF inv]]) (use c0 p in simp_all)
  have used: "c_in_use (client_at ?S p)" using p by simp
  have "served p ?S (cleanup_client p ?S)"
    unfolding served_def using ids.keep_refl structs.keep_refl by blast
  then have fin: "sys_inv (m, cleanup_client p ?S)"
    by (rule served_inv [OF inv used _ own_cleanup tab])
  have "sys_inv (m, settle (cs(w := ?c)) ?t)"
    by (rule sys_inv_cong [OF _ _ _ fin])
      (use c0 p sys_invD(5) [OF inv] in \<open>auto simp: cleanup_client_at cleanup_num cleanup_worker\<close>)
  moreover have "fds_from s ?t" by (rule fds_fromI) (auto split: if_splits)
  ultimately show ?thesis using p after by (auto simp: good_step_def)
qed

lemma uncounting_step:
  assumes inv: "sys_inv (m, settle cs s)" and c0: "cs w = Uncounting p after" and ok: "pc_ok w (cs w) s"
    and t: "after_cleanup p after (decrement_clients (owner p) s) = (c, t)"
  shows "good_step m w cs s c t"
proof -
  have p: "owner p = w" and after: "after = None \<or> after = Some []"
    using ok c0 by simp_all
  let ?d = "decrement_clients w s"
  from t after p have c: "c = Ready \<and> t = ?d \<or> c = Chunk p [] \<and> t = clear_msg p ?d"
    by (auto simp: after_cleanup_def next_message_def)
  have tq: "client_at t q = (if c \<noteq> Ready \<and> q = p then client_at (clear_msg p s) p else client_at s q)" for q
    using c by auto
  have used: "c_in_use (client_at t q) = c_in_use (client_at s q)"
    "client_fd (client_at t q) = client_fd (client_at s q)" for q
    by (simp_all add: tq)
  have num: "num_of_clients (worker_at t v) - int (uncounted c) =
      num_of_clients (worker_at s v) - (if v = w then 1 else 0)" for v
    using c by (elim disjE conjE) simp_all
  have others: "new_client (worker_at t v) = new_client (worker_at s v)"
    "efd_counter (worker_at t v) = efd_counter (worker_at s v)"
    "worker_index t = worker_index s" "room_at t i = room_at s i" for v i
    using c by (elim disjE conjE; simp)+
  have zero: "uncounted c = 0" "transit c = None" using c by auto
  have S: "client_at (settle (cs(w := c)) t) q =
      (if c \<noteq> Ready \<and> q = p then client_at (clear_msg p (settle cs s)) p else client_at (settle cs s) q)" for q
    using p c0 zero by (cases "owner q = w") (simp_all add: tq)
  have W: "num_of_clients (worker_at t v) = num_of_clients (worker_at s v) - (if v = w then 1 else 0)" for v
    using num [of v] zero by simp
  have "sys_inv (m, settle (cs(w := c)) t)"
  proof (cases "client_at (settle (cs(w := c)) t) p = client_at (settle cs s) p")
    case True
    then have "client_at (settle (cs(w := c)) t) q = client_at (settle cs s) q" for q
      by (cases "q = p") (simp_all only: S, simp)
    then show ?thesis
      by (rule sys_inv_cong [OF _ _ _ inv]) (use c0 zero sys_invD(5) [OF inv] in \<open>simp_all add: W others\<close>)
  next
    case False
    then have "c \<noteq> Ready" unfolding S by (simp del: settle_client_at split: if_splits)
    have "client_at (settle cs s) p \<noteq> zero_client"
    proof
      assume z: "client_at (settle cs s) p = zero_client"
      with False show False by (simp only: S clear_msg_simps) (auto simp: zero_client_def)
    qed
    then have u: "c_in_use (client_at (settle cs s) p)"
      using sys_invD(2) [OF inv] by (metis slots_ok_def)
    have "table_inv (settle (cs(w := c)) t)"
      by (rule settle_table [OF table_inv_clear [OF sys_invD(1) [OF inv], of p]])
        (use \<open>c \<noteq> Ready\<close> in \<open>simp_all only: S clear_msg_simps settle_simps others simp_thms if_cancel split: if_split\<close>, simp)
    then show ?thesis
      by (intro kept_inv [OF inv u]) (use u c0 zero in \<open>simp_all add: S W others del: settle_client_at\<close>)
  qed
  moreover have "fds_from s t" by (rule fds_fromI) (simp_all add: used others)
  moreover have "pc_ok w c t" using c p by auto
  moreover have "owner q \<noteq> w \<longrightarrow> client_at t q = client_at s q" for q using tq [of q] p by auto
  ultimately show ?thesis by (simp add: good_step_def)
qed

section \<open>Taking in\<close>

lemma done_step:
  assumes inv: "sys_inv (m, settle cs s)" and tr: "transit (cs w) = None"
    and "\<And>q. client_at t q = client_at s q" "\<And>i. room_at t i = room_at s i" "worker_index t = worker_index s"
    and "\<And>v. num_of_clients (worker_at t v) = num_of_clients (worker_at s v) - (if v = w then int (uncounted (cs w)) else 0) \<and>
      new_client (worker_at t v) = new_client (worker_at s v) \<and>
      efd_counter (worker_at t v) = efd_counter (worker_at s v)"
  shows "good_step m w cs s Ready t"
proof -
  have "sys_inv (m, settle (cs(w := Ready)) t)"
    by (rule sys_inv_cong [OF _ _ _ inv]) (use assms sys_invD(5) [OF inv] in auto)
  moreover have "fds_from s t" by (rule fds_fromI) (simp_all add: assms)
  ultimately show ?thesis by (simp add: good_step_def assms)
qed

lemma micro_good:
  assumes inv: "sys_inv (m, settle cs s)" and ok: "pc_ok w (cs w) s"
    and t: "micro w (cs w) s = Inr (c, t)"
  shows "good_step m w cs s c t"
proof (cases "cs w")
  case Ready
  with t have "c = Ready" "t = s" by simp_all
  with Ready show ?thesis by (auto intro: done_step [OF inv])
next
  case (Chunk p temp)
  with chunk_step [OF inv _ ok t] show ?thesis by blast
next
  case (Creating p name success i rest)
  with t create_step_good [OF inv _ ok] show ?thesis by simp
next
  case (Listing p i acc avail rest)
  with t list_step_good [OF inv _ ok] show ?thesis by simp
next
  case (Left p ri rest)
  with t left_step_good [OF inv _ ok] show ?thesis by simp
next
  case (Closing p after)
  with t closing_step [OF inv _ ok] show ?thesis by simp
next
  case (Uncounting p after)
  with t uncounting_step [OF inv _ ok] show ?thesis by simp
next
  case (Greeting fd)
  with t obtain u where "send_message_to_client fd CMD_WELCOME_REQUEST welcome_text s = Inr u"
    "c = Ready" "t = u" by (auto simp: res_bind_eq_Inr)
  with Greeting show ?thesis
    by (auto intro!: done_step [OF inv] simp: only_sends_state [OF send_InrD])
next
  case (Refusing fd)
  with t have "c = Ready" "t = emit (Close fd) (decrement_clients w s)" by simp_all
  with Refusing show ?thesis by (auto intro!: done_step [OF inv])
qed


text \<open>The eventfd read: the descriptor now belongs to the worker, who keeps it or refuses it.\<close>

lemma refuse_step:
  assumes inv: "sys_inv (m, settle cs s)" and w: "w < MAX_THREADS" and v: "efd_counter (worker_at s w) \<noteq> 0"
    and c0: "cs w = Ready"
    and u: "\<And>p. client_at u p = client_at s p" "\<And>i. room_at u i = room_at s i"
      "worker_index u = worker_index s"
      "\<And>v. num_of_clients (worker_at u v) = num_of_clients (worker_at s v) \<and>
        new_client (worker_at u v) = new_client (worker_at (read_efd w s) v) \<and>
        efd_counter (worker_at u v) = efd_counter (worker_at (read_efd w s) v)"
  shows "good_step m w cs s (Refusing fd) u"
proof -
  have "sys_inv (m, decrement_clients w (read_efd w (settle cs s)))"
    by (rule register_refused_inv [OF inv w]) (use v in simp)
  then have "sys_inv (m, settle (cs(w := Refusing fd)) u)"
    by (rule sys_inv_cong [rotated 3]) (use u c0 sys_invD(5) [OF inv] in auto)
  moreover have "fds_from s u"
    unfolding fds_from_def
  proof (intro allI impI)
    fix h f assume "fd_of Main_accepting u h = Some f"
    then have "fd_of Main_accepting s h = Some f"
      using u by (cases h) (auto split: if_splits)
    then show "\<exists>g. fd_of Main_accepting s g = Some f" by blast
  qed
  ultimately show ?thesis by (simp add: good_step_def u)
qed

lemma begin_register_good:
  assumes inv: "sys_inv (m, settle cs s)" and w: "w < MAX_THREADS" and v: "efd_counter (worker_at s w) \<noteq> 0"
    and c0: "cs w = Ready" and t: "begin_register w add_ok s = Inr (c, t)"
  shows "good_step m w cs s c t"
proof -
  let ?fd = "efd_to_fd (efd_counter (worker_at s w))"
  obtain b u where u: "register_with_epoll w ?fd add_ok (read_efd w s) = (b, u)" by fastforce
  then have same: "client_at u p = client_at s p" "room_at u i = room_at s i"
      "worker_index u = worker_index s"
      "num_of_clients (worker_at u x) = num_of_clients (worker_at s x) \<and>
        new_client (worker_at u x) = new_client (worker_at (read_efd w s) x) \<and>
        efd_counter (worker_at u x) = efd_counter (worker_at (read_efd w s) x)" for p i x
    by (auto simp: register_with_epoll_def Let_def split: if_splits)
  show ?thesis
  proof (cases "b \<and> (\<exists>i. first_index (\<lambda>i. \<not> c_in_use (client_at u (Cptr w i))) 0 MAX_CLIENTS_PER_THREAD = Some i)")
    case False
    with t u v have "c = Refusing ?fd \<and> t = u"
      by (auto simp: begin_register_def Let_def split: option.splits)
    then show ?thesis using refuse_step [OF inv w v c0 same] by simp
  next
    case True
    then obtain i where i: "first_index (\<lambda>i. \<not> c_in_use (client_at u (Cptr w i))) 0 MAX_CLIENTS_PER_THREAD = Some i"
      by blast
    with t u v True have c: "c = Greeting ?fd" and t: "t = upd_client (Cptr w i) (\<lambda>_. new_client_in_slot ?fd) u"
      by (auto simp: begin_register_def Let_def)
    from first_index_bound [OF i] have free: "i < MAX_CLIENTS_PER_THREAD" "\<not> c_in_use (client_at s (Cptr w i))"
      by (simp_all add: same)
    let ?S = "settle cs s"
    let ?u = "upd_worker w (\<lambda>t. t\<lparr>efd_counter := 0, new_client := new_client t + 1\<rparr>) ?S"
    have free': "\<not> c_in_use (client_at ?S (Cptr w i))" using free by simp
    have "sys_inv (m, upd_client (Cptr w i) (\<lambda>_. new_client_in_slot (efd_to_fd (efd_counter (worker_at ?S w)))) ?u)"
      by (rule register_taken_inv [OF inv w _ free(1) free', where E = "epoll_set (worker_at ?S w)"])
        (use v in simp_all)
    then have "sys_inv (m, settle (cs(w := c)) t)"
      by (rule sys_inv_cong [rotated 3]) (use c c0 same t sys_invD(5) [OF inv] in auto)
    moreover have "fds_from s t"
      unfolding fds_from_def
    proof (intro allI impI)
      fix h f assume h: "fd_of Main_accepting t h = Some f"
      show "\<exists>g. fd_of Main_accepting s g = Some f"
      proof (cases "h = In_slot (Cptr w i)")
        case True
        with h v have "fd_of Main_accepting s (In_eventfd w) = Some f" by (simp add: t)
        then show ?thesis by blast
      next
        case False
        with h have "fd_of Main_accepting s h = Some f"
          by (cases h) (auto simp: t same split: if_splits)
        then show ?thesis by blast
      qed
    qed
    ultimately show ?thesis by (auto simp: good_step_def c t same)
  qed
qed

lemma begin_good:
  assumes inv: "sys_inv (m, settle cs s)" and w: "w < MAX_THREADS" and c0: "cs w = Ready"
    and e: "event_ok w e s" and t: "begin_event w e s = Inr (c, t)"
  shows "good_step m w cs s c t"
proof (cases "ev_fd e = notification_fd (worker_at s w)")
  case True
  with e t begin_register_good [OF inv w _ c0] show ?thesis
    by (simp add: begin_event_def event_ok_def)
next
  case other: False
  have idle: "good_step m w cs s Ready s" using c0 by (auto intro: done_step [OF inv])
  show ?thesis
  proof (cases "find_client_by_fd w (ev_fd e) s")
    case None
    with other t idle show ?thesis by (simp add: begin_event_def)
  next
    case (Some p)
    have pos: "0 < ev_fd e" using e other by (simp add: event_ok_def)
    have find: "find_client_by_fd w (ev_fd e) (settle cs s) = Some p"
      using Some by (simp add: find_client_by_fd_def)
    note f = find_client_Some [OF find pos sys_invD(2) [OF inv]]
    have p: "owner p = w" "c_in_use (client_at s p)" using f by simp_all
    have cnt: "uncounted (cs w) = 0" and tr: "transit (cs w) = None" using c0 by simp_all
    have "begin_disconnect p None s = Inr (c, t) \<or> c = Ready \<and> t = s \<or>
        (\<exists>bs. ev_recv e = Received bs \<and> c = Chunk p (cstr (take MAX_MESSAGE_LEN_TO_SERVER bs)) \<and> t = s)"
      using t other Some
      by (cases "ev_recv e") (auto simp: begin_event_def begin_read_def split: if_splits)
    then consider (hup) "begin_disconnect p None s = Inr (c, t)"
      | (again) "c = Ready" "t = s"
      | (msg) bs where "ev_recv e = Received bs" "c = Chunk p (cstr (take MAX_MESSAGE_LEN_TO_SERVER bs))" "t = s"
      by blast
    then show ?thesis
    proof cases
      case hup
      then show ?thesis by (intro disconnect_step [OF inv p cnt tr]) simp_all
    next
      case again
      with idle show ?thesis by simp
    next
      case msg
      then have "exit_last (current_msg (client_at s p)) (cstr (take MAX_MESSAGE_LEN_TO_SERVER bs))"
        using e other Some by (simp add: event_ok_def)
      with msg p show ?thesis
        by (simp add: loop_step [OF inv p cnt _ tr _ structs.keep_refl])
    qed
  qed
qed


section \<open>The main thread\<close>

lemma choose_good:
  assumes inv: "sys_inv (Main_accepting, settle cs s)" and fresh: "fresh_fd Main_accepting s fd"
    and t: "choose_step fd left s = Inr (m, t)"
  shows "sys_inv (settle_main m, settle cs t) \<and> main_pc_ok m t \<and> (\<forall>q. client_at t q = client_at s q)"
proof -
  let ?w = "worker_index s" and ?S = "settle cs s"
  let ?s2 = "next_index (emit (Unlock (Count_lock ?w)) (emit (Lock (Count_lock ?w)) s))"
  show ?thesis
  proof (cases "int MAX_CLIENTS_PER_THREAD \<le> num_of_clients (worker_at s ?w)")
    case True
    have same: "client_at ?s2 q = client_at s q" "room_at ?s2 i = room_at s i" "worker_at ?s2 v = worker_at s v"
      "worker_index ?s2 < MAX_THREADS" for q i v
      by (simp_all add: next_index_eq)
    have st: "same_structs ?s2 t \<and> (m = Accepting \<or> (\<exists>l. m = Choosing fd l))"
      using t True
      by (auto simp: choose_step_def Let_def res_bind_eq_Inr structs.keep_refl split: nat.splits dest: quiet_send)
    note st' = same_structs_state [OF conjunct1 [OF st]]
    have "sys_inv (Main_accepting, settle cs t)"
      by (rule sys_inv_cong [OF _ _ _ inv]) (simp_all add: st' same)
    moreover have "fd_of Main_accepting t h = fd_of Main_accepting s h" for h
      by (cases h) (simp_all add: st' same)
    then have "fresh_fd Main_accepting t fd" using fresh by (simp add: fresh_fd_def)
    ultimately show ?thesis using st by (auto simp: st' same)
  next
    case False
    with t have m: "m = Waiting fd ?w" and
      t: "t = next_index (emit (Unlock (Count_lock ?w)) (one_more ?w (emit (Lock (Count_lock ?w)) s)))"
      by (simp_all add: choose_step_def Let_def)
    have w: "?w < MAX_THREADS" using sys_invD(5) [OF inv] by simp
    have "fd_of Main_accepting ?S h = fd_of Main_accepting s h" for h by (cases h) simp_all
    then have fresh': "fresh_fd Main_accepting ?S fd" using fresh by (simp add: fresh_fd_def)
    have "sys_inv (Main_waiting fd ?w, one_more ?w ?S)"
      by (rule one_more_inv [OF inv fresh' w]) (use False in \<open>simp add: at_capacity_def\<close>)
    then have "sys_inv (Main_waiting fd ?w, settle cs t)"
      by (rule sys_inv_cong [rotated 3]) (simp_all add: t next_index_eq)
    then show ?thesis by (simp add: m) (simp add: t next_index_eq)
  qed
qed

definition written :: "int \<Rightarrow> nat \<Rightarrow> bool \<Rightarrow> server \<Rightarrow> bool" where
  "written fd w write_ok s \<longleftrightarrow> write_ok \<and> efd_accepts (efd_counter (worker_at s w)) (fd_to_efd fd)"

lemma hand_over_fields:
  assumes "hand_over fd w write_ok s = Inr t"
  shows "client_at t q = client_at s q" "room_at t i = room_at s i" "worker_index t = worker_index s"
    "num_of_clients (worker_at t v) =
      num_of_clients (worker_at s v) - (if v = w \<and> \<not> written fd w write_ok s then 1 else 0)"
    "new_client (worker_at t v) = (if v \<noteq> w then new_client (worker_at s v)
      else if written fd w write_ok s then new_client (worker_at s w) - 1 else new_client (worker_at s w) - 1 + 1)"
    "efd_counter (worker_at t v) = efd_counter (worker_at s v) +
      (if v = w \<and> written fd w write_ok s then fd_to_efd fd else 0)"
proof -
  let ?s1 = "emit (Sem_wait w) (upd_worker w (\<lambda>t. t\<lparr>new_client := new_client t - 1\<rparr>) s)"
  have "client_at t q = client_at s q \<and> room_at t i = room_at s i \<and> worker_index t = worker_index s \<and>
    num_of_clients (worker_at t v) =
      num_of_clients (worker_at s v) - (if v = w \<and> \<not> written fd w write_ok s then 1 else 0) \<and>
    new_client (worker_at t v) = (if v \<noteq> w then new_client (worker_at s v)
      else if written fd w write_ok s then new_client (worker_at s w) - 1 else new_client (worker_at s w) - 1 + 1) \<and>
    efd_counter (worker_at t v) = efd_counter (worker_at s v) +
      (if v = w \<and> written fd w write_ok s then fd_to_efd fd else 0)"
  proof (cases "written fd w write_ok s")
    case True
    with assms have "t = upd_worker w (\<lambda>t. t\<lparr>efd_counter := efd_counter t + fd_to_efd fd\<rparr>) ?s1"
      by (simp add: hand_over_def written_def Let_def)
    with True show ?thesis by simp
  next
    case False
    with assms obtain u where u: "send_message_to_client fd ERR_CONNECTING connection_text
        (emit (Sem_post w) (upd_worker w (\<lambda>t. t\<lparr>new_client := new_client t + 1\<rparr>) ?s1)) = Inr u"
      and t: "t = decrement_clients w (emit (Close fd) u)"
      by (auto simp: hand_over_def written_def handle_write_error_def Let_def res_bind_eq_Inr)
    with False show ?thesis using only_sends_state [OF send_InrD [OF u]] by simp
  qed
  then show "client_at t q = client_at s q" "room_at t i = room_at s i" "worker_index t = worker_index s"
    "num_of_clients (worker_at t v) =
      num_of_clients (worker_at s v) - (if v = w \<and> \<not> written fd w write_ok s then 1 else 0)"
    "new_client (worker_at t v) = (if v \<noteq> w then new_client (worker_at s v)
      else if written fd w write_ok s then new_client (worker_at s w) - 1 else new_client (worker_at s w) - 1 + 1)"
    "efd_counter (worker_at t v) = efd_counter (worker_at s v) +
      (if v = w \<and> written fd w write_ok s then fd_to_efd fd else 0)"
    by blast+
qed

lemma hand_over_returns: "\<exists>t. hand_over fd w write_ok s = Inr t"
proof -
  have "length connection_text \<le> 200" by (simp add: connection_text_def)
  then have r: "returns (send_message_to_client fd ERR_CONNECTING connection_text u)" for u
    using reply_sends by (simp add: returns_iff)
  have "returns (handle_write_error w fd u)" for u
    unfolding handle_write_error_def by (simp only: returns_section r)
  then show ?thesis
    unfolding hand_over_def Let_def returns_iff [symmetric] by simp
qed

lemma hand_over_good:
  assumes inv: "sys_inv (Main_waiting fd w, settle cs s)" and free: "0 < new_client (worker_at s w)"
    and t: "hand_over fd w write_ok s = Inr t"
  shows "sys_inv (Main_accepting, settle cs t)"
proof -
  let ?S = "settle cs s"
  obtain u where u: "hand_over fd w write_ok ?S = Inr u" using hand_over_returns by blast
  have W: "written fd w write_ok ?S = written fd w write_ok s" by (simp add: written_def)
  have "sys_inv (Main_accepting, u)" "worker_index ?S < MAX_THREADS"
    using hand_over_inv [OF inv _ u] free sys_invD(5) [OF inv] by simp_all
  then show ?thesis
    by (intro sys_inv_cong [where s = u and t = "settle cs t"])
      (simp_all only: hand_over_fields [OF t] hand_over_fields [OF u] settle_client_at settle_simps W, simp)
qed

lemma worker_start_fields:
  assumes "worker_start w efd add_ok s = Some t"
  shows "client_at t q = client_at s q" "room_at t i = room_at s i" "worker_index t = worker_index s"
    "num_of_clients (worker_at t v) = num_of_clients (worker_at s v)"
    "new_client (worker_at t v) = new_client (worker_at s v)"
    "efd_counter (worker_at t v) = efd_counter (worker_at s v)"
  using assms by (auto simp: worker_start_def register_with_epoll_def Let_def split: if_splits)

section \<open>Every step\<close>

lemma worker_step_inv:
  assumes inv: "fine_inv (m, cs, s)" and w: "w < MAX_THREADS"
    and g: "good_step (settle_main m) w cs s c t"
  shows "fine_inv (m, cs(w := c), t)"
proof -
  note d = fine_invD [OF inv]
  have "main_pc_ok m t"
    using d(2) g fresh_from by (cases m) (auto simp: good_step_def)
  moreover have "pc_ok v ((cs(w := c)) v) t" for v
    using d(3) [of v] g pc_ok_cong [of v t s "cs v"] by (auto simp: good_step_def)
  ultimately show ?thesis using g d(4) w by (simp add: fine_inv_def good_step_def)
qed

lemma quiet_main:
  assumes inv: "fine_inv (m, cs, s)" and "sys_inv (settle_main m', settle cs t)"
    and "main_pc_ok m' t" and "\<And>q. client_at t q = client_at s q"
  shows "fine_inv (m', cs, t)"
proof -
  note d = fine_invD [OF inv]
  have "pc_ok v (cs v) t" for v using d(3) [of v] pc_ok_cong [of v t s "cs v"] assms(4) by blast
  then show ?thesis using assms d(4) by (simp add: fine_inv_def)
qed

lemma fine_step_inv:
  assumes "fine_step x y" and inv: "fine_inv x"
  shows "fine_inv y"
  using assms(1)
proof cases
  case (f_starts w cs s efd add_ok t m)
  note d = fine_invD [OF inv [unfolded f_starts(1)]]
  note u = worker_start_fields [OF f_starts(6)]
  have "sys_inv (settle_main m, settle cs t)"
    by (rule sys_inv_cong [OF _ _ _ d(1)]) (use sys_invD(5) [OF d(1)] in \<open>simp_all add: u\<close>)
  moreover have "fd_of Main_accepting t h = fd_of Main_accepting s h" for h by (cases h) (simp_all add: u)
  then have "main_pc_ok m t" using d(2) by (cases m) (simp_all add: fresh_fd_def)
  ultimately show ?thesis
    unfolding f_starts(2) by (rule quiet_main [OF inv [unfolded f_starts(1)]]) (simp add: u)
next
  case (f_accepts s fd opts cs)
  note d = fine_invD [OF inv [unfolded f_accepts(1)]]
  show ?thesis
    unfolding f_accepts(2) by (rule quiet_main [OF inv [unfolded f_accepts(1)]]) (use d f_accepts in simp_all)
next
  case (f_chooses fd left s m t cs)
  note d = fine_invD [OF inv [unfolded f_chooses(1)]]
  have "sys_inv (settle_main m, settle cs t) \<and> main_pc_ok m t \<and> (\<forall>q. client_at t q = client_at s q)"
    by (rule choose_good [OF _ _ f_chooses(3)]) (use d(1,2) in simp_all)
  then show ?thesis
    unfolding f_chooses(2) by (intro quiet_main [OF inv [unfolded f_chooses(1)]]) simp_all
next
  case (f_resumes s w fd write_ok t cs)
  note d = fine_invD [OF inv [unfolded f_resumes(1)]]
  have "sys_inv (Main_accepting, settle cs t)"
    by (rule hand_over_good [OF _ f_resumes(3,4)]) (use d(1) in simp)
  then show ?thesis
    unfolding f_resumes(2)
    by (intro quiet_main [OF inv [unfolded f_resumes(1)]]) (simp_all add: hand_over_fields [OF f_resumes(4)])
next
  case (f_begins w cs s e c t m)
  note d = fine_invD [OF inv [unfolded f_begins(1)]]
  show ?thesis
    unfolding f_begins(2)
    by (rule worker_step_inv [OF inv [unfolded f_begins(1)] f_begins(3)])
      (rule begin_good [OF d(1) f_begins(3,4,6,7)])
next
  case (f_continues w cs s c t m)
  note d = fine_invD [OF inv [unfolded f_continues(1)]]
  show ?thesis
    unfolding f_continues(2)
    by (rule worker_step_inv [OF inv [unfolded f_continues(1)] f_continues(3)])
      (rule micro_good [OF d(1,3) f_continues(5)])
qed

lemma fine_reachable_inv: "fine_reachable x \<Longrightarrow> fine_inv x"
proof (induction rule: fine_reachable.induct)
  case (f_boots fds inits_ok rs s)
  then show ?case using boot_inv [OF f_boots] by (simp add: fine_inv_def settle_Ready)
next
  case (f_steps x y)
  then show ?case using fine_step_inv by blast
qed

end
