(* ===== verification/Fine_Simulation.thy ===== *)
theory Fine_Simulation
  imports Fine_Reachable
begin

text \<open>
  The whole operations of \<open>Server_System\<close> are schedules of the fine-grained system: those in which a
  thread is not interrupted until its operation is over. Every state that the former reaches, the
  latter reaches too, with all workers at rest.
\<close>

section \<open>Workers\<close>

lemma run_steps:
  assumes "run_pc w c s = Inr t" and "w < MAX_THREADS"
  shows "fine_step\<^sup>*\<^sup>* (m, cs(w := c), s) (m, cs(w := Ready), t)"
  using assms
proof (induction w c s rule: run_pc.induct)
  case (1 w c s)
  show ?case
  proof (cases "c = Ready")
    case True
    with "1.prems"(1) show ?thesis by simp
  next
    case False
    with "1.prems"(1) obtain c' u where u: "micro w c s = Inr (c', u)" and t: "run_pc w c' u = Inr t"
      by (subst (asm) run_pc.simps) (auto simp: res_bind_eq_Inr)
    have "fine_step (m, cs(w := c), s) (m, (cs(w := c))(w := c'), u)"
      by (rule fine_step.f_continues) (use 1 False u in simp_all)
    moreover have "fine_step\<^sup>*\<^sup>* (m, cs(w := c'), u) (m, cs(w := Ready), t)"
      by (rule "1.IH" [OF False u refl t "1.prems"(2)])
    ultimately show ?thesis
      unfolding fun_upd_upd by (rule converse_rtranclp_into_rtranclp)
  qed
qed

lemma event_steps:
  assumes w: "w < MAX_THREADS" "epoll_fd (worker_at s w) \<noteq> 0" and e: "event_ok w e s"
    and t: "handle_event w e s = Inr t"
  shows "fine_step\<^sup>*\<^sup>* (m, (\<lambda>_. Ready), s) (m, (\<lambda>_. Ready), t)"
proof -
  from t obtain c u where u: "begin_event w e s = Inr (c, u)" and r: "run_pc w c u = Inr t"
    unfolding resume_event [symmetric] resume_def by (auto simp: res_bind_eq_Inr)
  have "fine_step (m, (\<lambda>_. Ready), s) (m, (\<lambda>_. Ready)(w := c), u)"
    by (rule fine_step.f_begins) (use w e u in simp_all)
  moreover have "fine_step\<^sup>*\<^sup>* (m, (\<lambda>_. Ready)(w := c), u) (m, (\<lambda>_. Ready)(w := Ready), t)"
    by (rule run_steps [OF r w(1)])
  moreover have "(\<lambda>_. Ready)(w := Ready) = (\<lambda>_. Ready)" by (rule fun_upd_idem) simp
  ultimately show ?thesis by (simp only: converse_rtranclp_into_rtranclp)
qed

section \<open>The main thread\<close>

text \<open>\<open>pick_worker\<close> with \<open>left\<close> workers to look at.\<close>

definition pick_rest :: "int \<Rightarrow> nat \<Rightarrow> server \<Rightarrow> (nat option \<times> server) res" where
  "pick_rest fd left s =
     (case find_worker_loop left s of
        (None, s1) \<Rightarrow>
          res_bind (send_message_to_client fd ERR_SERVER_FULL capacity_text s1)
            (\<lambda>t. Inr (None, emit (Close fd) t))
      | (Some w, s1) \<Rightarrow> Inr (Some w, s1))"

lemma pick_worker_rest: "pick_worker fd s = pick_rest fd MAX_THREADS s"
  by (simp add: pick_worker_def pick_rest_def find_worker_not_at_capacity_def)

definition picked :: "int \<Rightarrow> nat option \<Rightarrow> main_pc" where
  "picked fd c = (case c of None \<Rightarrow> Accepting | Some w \<Rightarrow> Waiting fd w)"

lemma pick_steps:
  "pick_rest fd left s = Inr (c, t) \<Longrightarrow> fine_step\<^sup>*\<^sup>* (Choosing fd left, cs, s) (picked fd c, cs, t)"
proof (induction left arbitrary: s)
  case 0
  then have "choose_step fd 0 s = Inr (picked fd c, t)"
    by (subst (asm) pick_rest_def, subst (asm) find_worker_loop.simps)
      (auto simp: choose_step_def Let_def picked_def res_bind_eq_Inr split: if_splits)
  then show ?case by (intro r_into_rtranclp fine_step.f_chooses)
next
  case (Suc left)
  show ?case
  proof (cases "int MAX_CLIENTS_PER_THREAD \<le> num_of_clients (worker_at s (worker_index s))")
    case True
    let ?u = "next_index (emit (Unlock (Count_lock (worker_index s))) (emit (Lock (Count_lock (worker_index s))) s))"
    have "fine_step (Choosing fd (Suc left), cs, s) (Choosing fd left, cs, ?u)"
      by (rule fine_step.f_chooses) (simp add: choose_step_def Let_def True)
    moreover have "pick_rest fd left ?u = Inr (c, t)"
      using Suc.prems True by (subst (asm) pick_rest_def, subst (asm) find_worker_loop.simps)
        (simp add: pick_rest_def Let_def)
    ultimately show ?thesis using Suc.IH converse_rtranclp_into_rtranclp by metis
  next
    case False
    with Suc.prems have "choose_step fd (Suc left) s = Inr (picked fd c, t)"
      by (subst (asm) pick_rest_def, subst (asm) find_worker_loop.simps)
        (auto simp: choose_step_def Let_def picked_def)
    then show ?thesis by (intro r_into_rtranclp fine_step.f_chooses)
  qed
qed

fun at_main :: "main_state \<Rightarrow> main_pc" where
  "at_main Main_accepting = Accepting"
| "at_main (Main_waiting fd w) = Waiting fd w"

lemma accept_steps:
  assumes fd: "fd = -1 \<or> fresh_fd Main_accepting s fd"
    and t: "accept_round fd opts write_ok s = Inr (m, t)"
  shows "fine_step\<^sup>*\<^sup>* (Accepting, cs, s) (at_main m, cs, t)"
proof (cases "fd = -1 \<or> set_socket_keep_alive opts = -1")
  case True
  with t have "m = Main_accepting" "t = s" by (auto simp: accept_round_def split: if_splits)
  then show ?thesis by simp
next
  case False
  with t obtain c u where c: "pick_worker fd s = Inr (c, u)" and
    rest: "(case c of None \<Rightarrow> Inr (Main_accepting, u)
      | Some w \<Rightarrow> if new_client (worker_at u w) = 0 then Inr (Main_waiting fd w, u)
          else res_bind (hand_over fd w write_ok u) (\<lambda>v. Inr (Main_accepting, v))) = Inr (m, t)"
    by (auto simp: accept_round_def distribute_client_def res_bind_eq_Inr)
  have "fine_step (Accepting, cs, s) (Choosing fd MAX_THREADS, cs, s)"
    using fd False by (intro fine_step.f_accepts) auto
  also have "fine_step\<^sup>*\<^sup>* (Choosing fd MAX_THREADS, cs, s) (picked fd c, cs, u)"
    by (rule pick_steps) (use c pick_worker_rest in simp)
  also have "fine_step\<^sup>*\<^sup>* (picked fd c, cs, u) (at_main m, cs, t)"
  proof (cases c)
    case None
    with rest have "m = Main_accepting" "t = u" by simp_all
    with None show ?thesis by (simp add: picked_def)
  next
    case (Some w)
    show ?thesis
    proof (cases "new_client (worker_at u w) = 0")
      case True
      with rest Some have "m = Main_waiting fd w" "t = u" by simp_all
      with Some show ?thesis by (simp add: picked_def)
    next
      case False
      with rest Some have "m = Main_accepting" "hand_over fd w write_ok u = Inr t"
        by (auto simp: res_bind_eq_Inr)
      with False Some show ?thesis
        by (auto simp: picked_def intro!: r_into_rtranclp fine_step.f_resumes)
    qed
  qed
  finally show ?thesis .
qed

section \<open>Every schedule of whole operations\<close>

lemma sys_step_steps:
  assumes "sys_step (m, s) (m', t)"
  shows "fine_step\<^sup>*\<^sup>* (at_main m, (\<lambda>_. Ready), s) (at_main m', (\<lambda>_. Ready), t)"
  using assms
proof cases
  case (starts w efd add_ok)
  then show ?thesis by (auto intro!: r_into_rtranclp fine_step.f_starts)
next
  case (accepts fd opts write_ok)
  with accept_steps [OF accepts(2,3)] show ?thesis by simp
next
  case (resumes w fd write_ok)
  then show ?thesis by (auto intro!: r_into_rtranclp fine_step.f_resumes)
next
  case (serves w e)
  with event_steps [OF serves(2-5)] show ?thesis by simp
qed

lemma fine_reachable_steps: "fine_step\<^sup>*\<^sup>* x y \<Longrightarrow> fine_reachable x \<Longrightarrow> fine_reachable y"
  by (induction rule: rtranclp_induct) (auto intro: f_steps)

lemma reachable_fine: "reachable x \<Longrightarrow> fine_reachable (at_main (fst x), (\<lambda>_. Ready), snd x)"
proof (induction rule: reachable.induct)
  case (boots fds inits_ok rs s)
  then show ?case by (simp add: fine_reachable.f_boots)
next
  case (steps x y)
  obtain m s m' t where "x = (m, s)" "y = (m', t)" by (cases x, cases y)
  with steps sys_step_steps [of m s m' t] show ?case by (auto intro: fine_reachable_steps)
qed

end
