(* ===== verification/Fine_Sections.thy ===== *)
theory Fine_Sections
  imports Fine_Simulation
begin

text \<open>
  The grain of the steps: none of them takes more than one lock, and each gives back what it took. So
  between two steps no worker holds a lock, and a step never waits for one while it holds another.
\<close>

fun is_lock :: "action \<Rightarrow> bool" where
  "is_lock (Lock l) = True"
| "is_lock (Send fd b n) = False"
| "is_lock (Close fd) = False"
| "is_lock (Epoll_add e fd) = False"
| "is_lock (Epoll_del e fd) = False"
| "is_lock (Unlock l) = False"
| "is_lock (Sem_wait w) = False"
| "is_lock (Sem_post w) = False"

text \<open>\<open>sections n s t\<close>: on the way from \<open>s\<close> to \<open>t\<close> the discipline is kept and at most \<open>n\<close> locks
  are taken.\<close>

definition sections :: "nat \<Rightarrow> server \<Rightarrow> server \<Rightarrow> bool" where
  "sections n s t \<longleftrightarrow> (\<exists>as. trace t = trace s @ as \<and> held None as = Some None \<and>
     length (filter is_lock as) \<le> n)"

abbreviation one_section :: "server \<Rightarrow> server \<Rightarrow> bool" where
  "one_section \<equiv> sections (Suc 0)"

text \<open>\<open>sends_only s t\<close>: only sends are added to the trace.\<close>

definition sends_only :: "server \<Rightarrow> server \<Rightarrow> bool" where
  "sends_only s t \<longleftrightarrow> (\<exists>as. trace t = trace s @ as \<and> (\<forall>a \<in> set as. \<exists>fd b n. a = Send fd b n))"

lemma sends_no_lock: "\<forall>a \<in> set as. \<exists>fd b n. a = Send fd b n \<Longrightarrow> filter is_lock as = []"
  by (auto simp: filter_empty_conv)

lemma sends_only_eq: "trace t = trace s \<Longrightarrow> sends_only s t"
  by (simp add: sends_only_def)

lemma sends_only_trans: "sends_only s t \<Longrightarrow> sends_only t u \<Longrightarrow> sends_only s u"
  unfolding sends_only_def by (elim exE conjE) (simp add: ball_Un)

lemma only_sends_only: "only_sends s t \<Longrightarrow> sends_only s t"
  by (auto simp: only_sends_def sends_only_def)

lemma sections_sends: "sends_only s t \<Longrightarrow> sections n s t"
  unfolding sends_only_def sections_def using held_sends sends_no_lock by fastforce

lemma sections_eq: "trace t = trace s \<Longrightarrow> sections n s t"
  by (rule sections_sends [OF sends_only_eq])

lemma sections_trans: "sections m s t \<Longrightarrow> sections n t u \<Longrightarrow> sections (m + n) s u"
  unfolding sections_def by (elim exE conjE) (simp add: held_append add_mono)

lemma sections_mono: "sections m s t \<Longrightarrow> m \<le> n \<Longrightarrow> sections n s t"
  unfolding sections_def by (meson le_trans)

lemma sections_after: "sections n s t \<Longrightarrow> trace u = trace t \<Longrightarrow> sections n s u"
  by (simp add: sections_def)

lemma sections_before: "trace u = trace s \<Longrightarrow> sections n u t \<Longrightarrow> sections n s t"
  by (simp add: sections_def)

text \<open>A critical section with only sends inside.\<close>

lemma sections_one:
  assumes "trace u = trace s @ [Lock l]" and "sends_only u t" and "trace v = trace t @ [Unlock l]"
  shows "one_section s v"
proof -
  from assms(2) obtain as where as: "trace t = trace u @ as" "\<forall>a \<in> set as. \<exists>fd b n. a = Send fd b n"
    by (auto simp: sends_only_def)
  have "trace v = trace s @ ([Lock l] @ as @ [Unlock l])" by (simp add: assms(1,3) as(1))
  moreover have "held None ([Lock l] @ as @ [Unlock l]) = Some None"
    "length (filter is_lock ([Lock l] @ as @ [Unlock l])) \<le> Suc 0"
    using as(2) by (simp_all add: held_append held_sends sends_no_lock)
  ultimately show ?thesis unfolding sections_def by (intro exI conjI)
qed

lemma sections_decrement: "one_section s (decrement_clients w s)"
  by (rule sections_one [where u = "emit (Lock (Count_lock w)) s" and t = "emit (Lock (Count_lock w)) s"])
    (simp_all add: decrement_clients_def sends_only_eq)

lemmas send_sections = sections_sends [OF only_sends_only [OF send_InrD]]

section \<open>The operations of the rooms\<close>

lemma enter_sends_only:
  assumes "enter_room p m i s = Inr t"
  shows "sends_only s t"
proof (cases "first_index (\<lambda>k. r_clients (room_at s i) k = None) 0 MAX_CLIENTS_ROOM")
  case None
  with assms show ?thesis by (simp add: enter_room_def sends_only_eq)
next
  case (Some k)
  with assms obtain u v where
    u: "broadcast_message_in_room m i p (add_member p k i s) = Inr u" and
    v: "send_message_to_client (client_fd (client_at u p)) CMD_ROOM_JOIN_OK joined_text u = Inr v" and
    t: "t = move_into p i v"
    by (auto simp: enter_room_def res_bind_eq_Inr)
  have "sends_only s (add_member p k i s)" "sends_only v t"
    by (simp_all add: sends_only_eq add_member_def move_into_def t)
  moreover have "sends_only (add_member p k i s) u" "sends_only u v"
    by (rule only_sends_only [OF broadcast_InrD [OF u]], rule only_sends_only [OF send_InrD [OF v]])
  ultimately show ?thesis by (blast intro: sends_only_trans)
qed

lemma join_sections:
  assumes "join_chat_room p s = Inr t"
  shows "one_section s t"
proof -
  let ?ri = "parse_room_number (current_msg (client_at s p))"
  let ?i = "nat ?ri" and ?s1 = "emit (Lock (Room_lock (nat ?ri))) s"
  from assms consider
      (bad) "send_message_to_client (client_fd (client_at s p)) ERR_ROOM_NOT_FOUND
          bad_number_text s = Inr t"
    | (locked) u where "sends_only ?s1 u" "t = emit (Unlock (Room_lock ?i)) u"
    unfolding join_chat_room_def Let_def res_bind_eq_Inr
    by (auto simp: res_bind_eq_Inr split: if_split_asm dest: enter_sends_only only_sends_only [OF send_InrD])
  then show ?thesis
  proof cases
    case bad
    then show ?thesis by (rule send_sections)
  next
    case locked
    show ?thesis unfolding locked(2) by (rule sections_one [OF _ locked(1)]) simp_all
  qed
qed

lemma leave_sections:
  assumes "leave_room p ri s = Inr t"
  shows "one_section s t"
proof -
  let ?i = "nat ri" and ?s1 = "emit (Lock (Room_lock (nat ri))) s"
  from assms obtain m u where
    u: "broadcast_message_in_room m ?i p (remove_member p ?i ?s1) = Inr u" and
    t: "t = emit (Unlock (Room_lock ?i)) (clear_if_empty ?i u)"
    by (auto simp: leave_room_def Let_def res_bind_eq_Inr split: if_splits)
  have "trace (remove_member p ?i ?s1) = trace s @ [Lock (Room_lock ?i)]"
    by (simp add: remove_member_def split: option.splits)
  then show ?thesis
    by (rule sections_one [OF _ only_sends_only [OF broadcast_InrD [OF u]]])
      (simp add: t clear_if_empty_def)
qed

lemma found_room_sections:
  assumes "found_room p name success i (emit (Lock (Room_lock i)) s) = Inr t"
  shows "one_section s t"
proof -
  from assms obtain u where
    u: "send_message_to_client (client_fd (client_at s p)) CMD_ROOM_CREATE_OK success
      (open_room p name i (emit (Lock (Room_lock i)) s)) = Inr u" and
    t: "t = emit (Unlock (Room_lock i)) u"
    by (auto simp: found_room_def res_bind_eq_Inr c_store_eq_Inr)
  show ?thesis
    unfolding t by (rule sections_one [OF _ only_sends_only [OF send_InrD [OF u]]])
      (simp_all add: open_room_def)
qed

section \<open>The steps of a worker\<close>

lemma then_next_sections:
  assumes "then_next p rest m = Inr (c, t)" and "\<And>u. m = Inr u \<Longrightarrow> sections n s u"
  shows "sections n s t"
proof -
  from assms(1) obtain u where "m = Inr u" "t = clear_msg p u" by (auto simp: then_next_eq)
  then show ?thesis using sections_after [OF assms(2)] by (simp add: clear_msg_def)
qed

lemma disconnect_sections: "begin_disconnect p after s = Inr (c, t) \<Longrightarrow> one_section s t"
  by (auto simp: begin_disconnect_def res_bind_eq_Inr sections_eq split: if_splits
      dest: leave_sections)

lemma begin_create_sections: "begin_create p rest s = Inr (c, t) \<Longrightarrow> one_section s t"
  by (auto simp: begin_create_def Let_def res_bind_eq_Inr sections_eq split: if_splits
      elim!: then_next_sections dest: send_sections)

lemma begin_awaiting_sections: "begin_awaiting p rest s = Inr (c, t) \<Longrightarrow> one_section s t"
  by (auto simp: begin_awaiting_def Let_def res_bind_eq_Inr sections_eq split: if_splits
      elim!: then_next_sections dest: send_sections)

lemma next_sections: "next_message p rest s = (c, t) \<Longrightarrow> sections n s t"
  by (auto simp: next_message_def clear_msg_def intro: sections_eq)

lemma begin_lobby_sections: "begin_lobby p rest s = Inr (c, t) \<Longrightarrow> one_section s t"
  unfolding begin_lobby_def Let_def
  by (auto simp only: sections_eq Inr_inject prod.inject split: if_split_asm
      dest: begin_create_sections next_sections then_next_sections [OF _ join_sections])

lemma begin_in_room_sections:
  assumes "begin_in_room p rest s = Inr (c, t)"
  shows "one_section s t"
proof (cases "char_at (current_msg (client_at s p)) 0 = CMD_ROOM_MESSAGE_SEND")
  case True
  let ?i = "nat (room_index (client_at s p))"
  have "one_section s u" if "handle_in_chat_room p s = Inr u" for u
  proof -
    from that True obtain m v where
      v: "broadcast_message_in_room m ?i p (emit (Lock (Room_lock ?i)) s) = Inr v" and
      u: "u = emit (Unlock (Room_lock ?i)) v"
      by (auto simp: handle_in_chat_room_def Let_def res_bind_eq_Inr split: if_splits)
    show ?thesis
      unfolding u by (rule sections_one [OF _ only_sends_only [OF broadcast_InrD [OF v]]]) simp_all
  qed
  moreover from assms True have "then_next p rest (handle_in_chat_room p s) = Inr (c, t)"
    by (simp add: begin_in_room_def Let_def)
  ultimately show ?thesis by (rule then_next_sections [rotated])
next
  case False
  with assms show ?thesis
    by (auto simp: begin_in_room_def Let_def res_bind_eq_Inr dest: leave_sections)
qed

lemma begin_dispatch_sections: "begin_dispatch p rest s = Inr (c, t) \<Longrightarrow> one_section s t"
  by (auto simp: begin_dispatch_def split: if_splits client_state.splits
      dest: disconnect_sections begin_awaiting_sections begin_lobby_sections begin_in_room_sections)

lemma begin_route_sections:
  assumes "begin_route p rest s = Inr (c, t)"
  shows "one_section s t"
proof -
  from assms obtain b u where v: "validate_msg_format p s = Inr (b, u)" and
    rest: "(if \<not> b then Inr (next_message p rest u) else res_bind (command_valid_for_state p u)
      (\<lambda>(allowed, u). if \<not> allowed then Inr (next_message p rest u) else begin_dispatch p rest u)) = Inr (c, t)"
    by (auto simp: begin_route_def res_bind_eq_Inr)
  have quiet: "one_section s t" if "sends_only s x" "next_message p rest x = (c, t)" for x
    using sections_trans [OF sections_sends [OF that(1)] next_sections [OF that(2)], of 0 "Suc 0"] by simp
  show ?thesis
  proof (cases b)
    case False
    with validate_cases [OF v] rest quiet show ?thesis by (auto intro: only_sends_only)
  next
    case True
    with validate_cases [OF v] have u: "u = s" by auto
    from rest True u obtain a x where x: "command_valid_for_state p s = Inr (a, x)" and
      d: "(if \<not> a then Inr (next_message p rest x) else begin_dispatch p rest x) = Inr (c, t)"
      by (auto simp: res_bind_eq_Inr)
    from state_valid_cases [OF x] d quiet show ?thesis
      by (auto intro: only_sends_only begin_dispatch_sections split: if_splits)
  qed
qed

lemma append_trace: "append_msg p str s = Inr t \<Longrightarrow> trace t = trace s"
  by (auto simp: append_msg_def res_bind_eq_Inr)

lemma chunk_sections:
  assumes "micro w (Chunk p temp) s = Inr (c, t)"
  shows "one_section s t"
proof (cases "split_crlf temp")
  case None
  with assms show ?thesis
    by (auto simp: res_bind_eq_Inr append_trace split: if_splits intro: sections_eq)
next
  case (Some x)
  with assms obtain seg rest u where "append_msg p seg s = Inr u" "begin_route p rest u = Inr (c, t)"
    by (auto simp: res_bind_eq_Inr split: prod.splits)
  then show ?thesis by (intro sections_before [OF append_trace begin_route_sections])
qed

lemma empty_section: "one_section s (emit (Unlock l) (emit (Lock l) s))"
  by (rule sections_one [where u = "emit (Lock l) s" and t = "emit (Lock l) s"]) (simp_all add: sends_only_eq)

lemma create_step_sections: "create_step p name success i rest s = Inr (c, t) \<Longrightarrow> one_section s t"
  by (auto simp: create_step_def Let_def empty_section split: if_splits
      elim!: then_next_sections dest: found_room_sections send_sections)

lemma send_list_sections: "send_list p acc avail s = Inr t \<Longrightarrow> sections n s t"
  by (auto simp: send_list_def res_bind_eq_Inr dest: send_sections)

lemma list_step_sections:
  assumes "list_step p i acc avail rest s = Inr (c, t)"
  shows "one_section s t"
proof (cases "i < MAX_ROOMS")
  case True
  with assms have "t = emit (Unlock (Room_lock i)) (emit (Lock (Room_lock i)) s)"
    by (cases "r_in_use (room_at s i)") (auto simp: list_step_def Let_def res_bind_eq_Inr)
  then show ?thesis by (simp add: empty_section)
next
  case False
  with assms have "then_next p rest (send_list p acc avail s) = Inr (c, t)"
    by (simp add: list_step_def send_list_def)
  then show ?thesis by (rule then_next_sections) (rule send_list_sections)
qed

lemma left_step_sections:
  assumes "left_step p ri rest s = Inr (c, t)"
  shows "one_section s t"
proof -
  from assms obtain u where u: "send_message_to_client (client_fd (client_at s p)) CMD_ROOM_LEAVE_OK
      left_ok_text (emit (Lock (Room_lock (nat ri))) s) = Inr u"
    "t = clear_msg p (upd_client p (\<lambda>c. c\<lparr>cstate := IN_CHAT_LOBBY\<rparr>) (emit (Unlock (Room_lock (nat ri))) u))"
    by (auto simp: left_step_def Let_def then_next_eq res_bind_eq_Inr)
  show ?thesis
    unfolding u(2) by (rule sections_one [OF _ only_sends_only [OF send_InrD [OF u(1)]]])
      (simp_all add: clear_msg_def)
qed

lemma sections_quiet:
  "trace t = trace s @ [a] \<Longrightarrow> \<not> is_lock a \<Longrightarrow> held None [a] = Some None \<Longrightarrow> sections n s t"
  unfolding sections_def by (intro exI [of _ "[a]"]) simp

lemma sections_then:
  "sections n s t \<Longrightarrow> trace u = trace t @ [a] \<Longrightarrow> \<not> is_lock a \<Longrightarrow> held None [a] = Some None \<Longrightarrow> sections n s u"
  using sections_trans [OF _ sections_quiet, of n s t u a 0] by simp

lemma clear_slot_sections: "sections n s (clear_slot p s)"
  unfolding sections_def
  by (intro exI [of _ "[Epoll_del (epoll_fd (worker_at s (owner p))) (client_fd (client_at s p)),
      Close (client_fd (client_at s p))]"]) (simp add: clear_slot_def Let_def)

lemma micro_sections: "micro w c s = Inr (c', t) \<Longrightarrow> one_section s t"
proof (cases c)
  case (Uncounting p after)
  assume "micro w c s = Inr (c', t)"
  with Uncounting have "trace t = trace (decrement_clients (owner p) s)"
    by (auto simp: after_cleanup_def next_message_def clear_msg_def split: option.splits)
  then show ?thesis using sections_after [OF sections_decrement] by blast
qed (auto simp: sections_eq chunk_sections create_step_sections list_step_sections left_step_sections
    clear_slot_sections res_bind_eq_Inr send_sections simp del: micro.simps(2)
    intro: sections_then [OF sections_decrement])

lemma begin_event_sections:
  assumes e: "event_ok w e s" and t: "begin_event w e s = Inr (c, t)"
  shows "one_section s t"
proof (cases "ev_fd e = notification_fd (worker_at s w)")
  case True
  with e have v: "efd_counter (worker_at s w) \<noteq> 0" by (simp add: event_ok_def)
  obtain b u where u: "register_with_epoll w (efd_to_fd (efd_counter (worker_at s w))) (ev_add_ok e) (read_efd w s) = (b, u)"
    by fastforce
  have "one_section s (read_efd w s)"
    by (rule sections_quiet [where a = "Sem_post w"]) (simp_all add: read_efd_def)
  moreover have "sections 0 (read_efd w s) u"
    using u by (auto simp: register_with_epoll_def Let_def sections_eq split: if_splits
        intro: sections_quiet)
  moreover have "trace t = trace u"
    using t True v u by (auto simp: begin_event_def begin_register_def Let_def split: if_splits option.splits)
  ultimately show ?thesis using sections_trans sections_after by fastforce
next
  case False
  with t show ?thesis
    by (auto simp: begin_event_def begin_read_def sections_eq split: option.splits if_splits recv_result.splits
        dest: disconnect_sections)
qed

section \<open>The main thread, and every step\<close>

lemma choose_sections:
  assumes t: "choose_step fd left s = Inr (m, t)"
  shows "one_section s t"
proof -
  let ?l = "Count_lock (worker_index s)"
  let ?s2 = "next_index (emit (Unlock ?l) (emit (Lock ?l) s))"
  have 2: "one_section s ?s2"
    by (rule sections_after [OF empty_section]) (simp add: next_index_eq)
  show ?thesis
  proof (cases "int MAX_CLIENTS_PER_THREAD \<le> num_of_clients (worker_at s (worker_index s))")
    case True
    show ?thesis
    proof (cases left)
      case 0
      with t True obtain u where "send_message_to_client fd ERR_SERVER_FULL capacity_text ?s2 = Inr u"
        "t = emit (Close fd) u"
        by (auto simp: choose_step_def Let_def res_bind_eq_Inr)
      moreover from this have "one_section s u" using sections_trans [OF 2 send_sections, of fd _ _ u 0] by simp
      ultimately show ?thesis by (auto intro: sections_then)
    next
      case (Suc l)
      with t True 2 show ?thesis by (simp add: choose_step_def Let_def)
    qed
  next
    case False
    with t have "trace t = trace (emit (Unlock ?l) (emit (Lock ?l) s))"
      by (auto simp: choose_step_def Let_def next_index_eq)
    then show ?thesis by (rule sections_after [OF empty_section])
  qed
qed

lemma hand_over_sections:
  assumes t: "hand_over fd w write_ok s = Inr t"
  shows "one_section s t"
proof -
  let ?s1 = "emit (Sem_wait w) (upd_worker w (\<lambda>t. t\<lparr>new_client := new_client t - 1\<rparr>) s)"
  have 1: "sections 0 s ?s1" by (rule sections_quiet [where a = "Sem_wait w"]) simp_all
  show ?thesis
  proof (cases "written fd w write_ok s")
    case True
    with t have "trace t = trace ?s1" by (auto simp: hand_over_def written_def Let_def)
    then show ?thesis using sections_mono [OF sections_after [OF 1]] by simp
  next
    case False
    with t obtain u where u: "send_message_to_client fd ERR_CONNECTING connection_text
        (emit (Sem_post w) (upd_worker w (\<lambda>t. t\<lparr>new_client := new_client t + 1\<rparr>) ?s1)) = Inr u"
      and t: "t = decrement_clients w (emit (Close fd) u)"
      by (auto simp: hand_over_def written_def handle_write_error_def Let_def res_bind_eq_Inr)
    have "sections 0 s (emit (Sem_post w) (upd_worker w (\<lambda>t. t\<lparr>new_client := new_client t + 1\<rparr>) ?s1))"
      by (rule sections_then [OF 1, where a = "Sem_post w"]) simp_all
    from sections_trans [OF this send_sections [OF u, of 0]]
    have "sections 0 s (emit (Close fd) u)" by (auto intro: sections_then)
    from sections_trans [OF this sections_decrement] show ?thesis by (simp add: t)
  qed
qed

lemma fine_step_sections: "fine_step x y \<Longrightarrow> one_section (snd (snd x)) (snd (snd y))"
proof (induction rule: fine_step.induct)
  case (f_starts w cs s efd add_ok t m)
  then show ?case
    by (auto simp: worker_start_def register_with_epoll_def Let_def split: if_splits intro: sections_quiet)
qed (simp_all add: sections_eq choose_sections hand_over_sections begin_event_sections micro_sections)

end
