(* ===== verification/Field_Types.thy ===== *)
theory Field_Types
  imports Fine_Sections
begin

text \<open>
  What the declarations of \<open>server_config.h\<close> say about the fields of the structs: a string in an array is a
  C string that fits it, an index is an index, a descriptor is an \<open>int\<close>. That every step of every
  thread keeps this is what makes \<open>length\<close> in the model \<open>strlen\<close> in the program.
\<close>

section \<open>Fields\<close>

definition c_string :: "nat \<Rightarrow> string \<Rightarrow> bool" where
  "c_string n str \<longleftrightarrow> NUL \<notin> set str \<and> length str < n"

definition client_typed :: "client \<Rightarrow> bool" where
  "client_typed c \<longleftrightarrow>
     c_string (MAX_USERNAME_LEN + 1) (cname c) \<and>
     c_string (MAX_MESSAGE_LEN_TO_SERVER * 3) (current_msg c) \<and>
     0 \<le> room_index c \<and> room_index c < int MAX_ROOMS \<and>
     - (2 ^ 31) \<le> client_fd c \<and> client_fd c < 2 ^ 31"

definition room_typed :: "room \<Rightarrow> bool" where
  "room_typed r \<longleftrightarrow> c_string (MAX_ROOM_NAME_LEN + 1) (room_name r)"

text \<open>The counter of an eventfd has 64 bits; the count of clients never exceeds the slots.\<close>

definition worker_typed :: "worker \<Rightarrow> bool" where
  "worker_typed t \<longleftrightarrow> efd_counter t < 2 ^ 64 \<and> num_of_clients t \<le> int MAX_CLIENTS_PER_THREAD"

definition fields_ok :: "server \<Rightarrow> bool" where
  "fields_ok s \<longleftrightarrow> (\<forall>p. client_typed (client_at s p)) \<and> (\<forall>i. room_typed (room_at s i)) \<and>
     (\<forall>w. worker_typed (worker_at s w))"

fun pc_typed :: "pc \<Rightarrow> bool" where
  "pc_typed (Chunk p temp) \<longleftrightarrow> NUL \<notin> set temp"
| "pc_typed (Creating p name success i rest) \<longleftrightarrow> c_string (MAX_ROOM_NAME_LEN + 1) name \<and> NUL \<notin> set rest"
| "pc_typed (Listing p i acc avail rest) \<longleftrightarrow> NUL \<notin> set rest"
| "pc_typed (Left p ri rest) \<longleftrightarrow> NUL \<notin> set rest"
| "pc_typed (Closing p after) \<longleftrightarrow> (\<forall>rest. after = Some rest \<longrightarrow> NUL \<notin> set rest)"
| "pc_typed (Uncounting p after) \<longleftrightarrow> (\<forall>rest. after = Some rest \<longrightarrow> NUL \<notin> set rest)"
| "pc_typed c \<longleftrightarrow> True"

lemma c_string_Nil [simp]: "c_string n [] \<longleftrightarrow> 0 < n"
  by (simp add: c_string_def)

lemma room_limits [simp]: "0 < int MAX_ROOMS"
  by (simp add: limits)

lemma zero_client_typed [simp]: "client_typed zero_client"
  by (simp add: client_typed_def limits)

lemma zero_room_typed [simp]: "room_typed zero_room"
  by (simp add: room_typed_def)

lemma efd_to_fd_int: "- (2 ^ 31) \<le> efd_to_fd v \<and> efd_to_fd v < 2 ^ 31"
  using sint_ge [of "word_of_nat v :: 32 word"] sint_lt [of "word_of_nat v :: 32 word"]
  by (simp add: efd_to_fd_def)

lemma new_client_typed: "client_typed (new_client_in_slot (efd_to_fd v))"
  using efd_to_fd_int [of v] by (simp add: client_typed_def new_client_in_slot_def limits)

lemma client_typed_upd [simp]:
  "client_typed c \<Longrightarrow> client_typed (c\<lparr>cstate := x\<rparr>)"
  "client_typed c \<Longrightarrow> c_string (MAX_MESSAGE_LEN_TO_SERVER * 3) m \<Longrightarrow> client_typed (c\<lparr>current_msg := m\<rparr>)"
  "client_typed c \<Longrightarrow> c_string (MAX_USERNAME_LEN + 1) n \<Longrightarrow> client_typed (c\<lparr>cname := n\<rparr>)"
  "client_typed c \<Longrightarrow> i < MAX_ROOMS \<Longrightarrow> client_typed (c\<lparr>room_index := int i\<rparr>)"
  by (simp_all add: client_typed_def)

section \<open>Updates\<close>

lemma fields_structs: "same_structs s t \<Longrightarrow> fields_ok s \<Longrightarrow> fields_ok t"
  by (simp add: fields_ok_def same_structs_state)

lemma worker_typed_same:
  "worker_typed t \<Longrightarrow> efd_counter u = efd_counter t \<Longrightarrow> num_of_clients u \<le> num_of_clients t \<Longrightarrow> worker_typed u"
  by (simp add: worker_typed_def)

lemma worker_typed_client [simp]: "worker_typed (worker_at (upd_client p f s) v) = worker_typed (worker_at s v)"
  by (simp add: worker_typed_def)

lemma fields_client: "fields_ok s \<Longrightarrow> client_typed (f (client_at s p)) \<Longrightarrow> fields_ok (upd_client p f s)"
  by (auto simp: fields_ok_def worker_typed_def)

lemma fields_room: "fields_ok s \<Longrightarrow> room_typed (g (room_at s i)) \<Longrightarrow> fields_ok (upd_room i g s)"
  by (simp add: fields_ok_def)

lemma fields_same:
  assumes "fields_ok s" and "\<And>p. client_at t p = client_at s p" and "\<And>i. room_at t i = room_at s i"
    and "\<And>w. efd_counter (worker_at t w) = efd_counter (worker_at s w) \<and>
      num_of_clients (worker_at t w) \<le> num_of_clients (worker_at s w)"
  shows "fields_ok t"
  using assms by (auto simp: fields_ok_def intro: worker_typed_same)

lemma fields_clear: "fields_ok s \<Longrightarrow> fields_ok (clear_msg p s)"
  unfolding clear_msg_def by (rule fields_client) (simp_all add: fields_ok_def limits)

lemma fields_msg: "fields_ok s \<Longrightarrow> NUL \<notin> set (current_msg (client_at s p))"
  by (simp add: fields_ok_def client_typed_def c_string_def)

lemma append_types:
  assumes "append_msg p x s = Inr u" and "fields_ok s" and "NUL \<notin> set x"
  shows "fields_ok u"
proof -
  from assms(1) have u: "length (current_msg (client_at s p) @ x) < MAX_MESSAGE_LEN_TO_SERVER * 3"
    "u = upd_client p (\<lambda>c. c\<lparr>current_msg := current_msg (client_at s p) @ x\<rparr>) s"
    by (auto simp: append_msg_def res_bind_eq_Inr c_store_eq_Inr)
  show ?thesis
    unfolding u(2) using assms(2,3) u(1) fields_msg [OF assms(2)]
    by (intro fields_client client_typed_upd) (auto simp: fields_ok_def c_string_def)
qed

lemma leave_types: "leave_room p ri s = Inr t \<Longrightarrow> fields_ok s \<Longrightarrow> fields_ok t"
proof -
  assume t: "leave_room p ri s = Inr t" and s: "fields_ok s"
  from leave_index [OF t] obtain i where ri: "ri = int i" by (metis nat_0_le)
  have "fields_ok (remove_member p i s)"
    using s by (auto simp: remove_member_def room_typed_def fields_ok_def split: option.splits)
  then have "fields_ok (clear_if_empty i (remove_member p i s))"
    by (auto simp: clear_if_empty_def room_typed_def intro!: fields_room)
  with leave_structs [OF t [unfolded ri]] show ?thesis by (rule fields_structs)
qed

lemma disconnect_types:
  "begin_disconnect p after s = Inr (c, t) \<Longrightarrow> fields_ok s \<Longrightarrow> \<forall>rest. after = Some rest \<longrightarrow> NUL \<notin> set rest \<Longrightarrow>
     fields_ok t \<and> pc_typed c"
  by (auto simp: begin_disconnect_def res_bind_eq_Inr split: if_splits intro: leave_types)

section \<open>Steps of a worker\<close>

lemma move_types:
  assumes "move p rest s c t" and "fields_ok s" and "NUL \<notin> set rest"
  shows "fields_ok t \<and> pc_typed c"
  using assms
proof (induction rule: move.induct)
  case (answered t)
  then show ?case by (auto intro: fields_structs [OF _ fields_clear])
next
  case (named n t)
  then have "c_string (MAX_USERNAME_LEN + 1) n"
    using fields_msg [of s p] by (auto simp: c_string_def dest: in_set_dropD)
  with named show ?case
    by (auto intro!: fields_client simp: fields_ok_def client_typed_def)
next
  case (creates n success)
  then show ?case using fields_msg [of s p] by (auto simp: c_string_def dest: in_set_dropD)
next
  case (joins i k t)
  have "fields_ok (add_member p k i s)"
    unfolding add_member_def using joins(6) by (intro fields_room) (simp_all add: fields_ok_def room_typed_def)
  then have "fields_ok (move_into p i (add_member p k i s))"
    unfolding move_into_def using joins(2)
    by (intro fields_client) (simp_all add: fields_ok_def client_typed_def)
  with joins(5,7) show ?case by (auto intro: fields_structs [OF _ fields_clear])
next
  case (leaves t)
  then show ?case by (auto intro: leave_types)
next
  case (exits c t)
  from disconnect_types [OF exits(2,3)] exits(4) show ?case by simp
qed auto

lemma then_next_types:
  "then_next p rest m = Inr (c, t) \<Longrightarrow> (\<And>u. m = Inr u \<Longrightarrow> fields_ok u) \<Longrightarrow> NUL \<notin> set rest \<Longrightarrow>
     fields_ok t \<and> pc_typed c"
  by (auto simp: then_next_eq intro: fields_clear)

lemma chunk_types:
  assumes m: "micro w (Chunk p temp) s = Inr (c, t)" and s: "fields_ok s" and temp: "NUL \<notin> set temp"
  shows "fields_ok t \<and> pc_typed c"
proof (cases "split_crlf temp")
  case None
  with m have "c = Ready" "t = s \<or> append_msg p temp s = Inr t"
    by (auto simp: res_bind_eq_Inr split: if_splits)
  with s temp show ?thesis by (auto intro: append_types)
next
  case (Some x)
  with m obtain seg rest u where x: "x = (seg, rest)" and
    u: "append_msg p seg s = Inr u" "begin_route p rest u = Inr (c, t)"
    by (cases x) (auto simp: res_bind_eq_Inr)
  from split_crlf_eq [OF Some [unfolded x]] temp have "NUL \<notin> set seg" "NUL \<notin> set rest" by auto
  with move_types [OF begin_route_moves [OF u(2)]] append_types [OF u(1) s] show ?thesis by blast
qed

lemma create_types:
  assumes m: "create_step p name success i rest s = Inr (c, t)" and s: "fields_ok s"
    and name: "c_string (MAX_ROOM_NAME_LEN + 1) name" and rest: "NUL \<notin> set rest"
  shows "fields_ok t \<and> pc_typed c"
proof (cases "i < MAX_ROOMS \<and> r_in_use (room_at s i)")
  case True
  with m name rest have "same_structs s t" "pc_typed c"
    by (auto simp: create_step_def Let_def structs.keep_refl)
  with s show ?thesis by (blast intro: fields_structs)
next
  case False
  have found: "fields_ok u" if "i < MAX_ROOMS" "found_room p name success i (emit (Lock (Room_lock i)) s) = Inr u" for u
  proof -
    let ?s = "emit (Lock (Room_lock i)) s"
    have "fields_ok ?s" using s by (rule fields_structs [rotated]) (simp add: structs.keep_refl)
    then have "fields_ok (open_room p name i ?s)"
      unfolding open_room_def using name that(1)
      by (intro fields_client fields_room) (auto simp: fields_ok_def room_typed_def client_typed_def)
    with res_allD [OF found_room_structs that(2)] show ?thesis by (rule fields_structs)
  qed
  from False m consider
      "i < MAX_ROOMS" "then_next p rest (found_room p name success i (emit (Lock (Room_lock i)) s)) = Inr (c, t)"
    | "then_next p rest (send_message_to_client (client_fd (client_at s p)) ERR_ROOM_CAPACITY_FULL
        rooms_full_text s) = Inr (c, t)"
    by (cases "i < MAX_ROOMS") (simp_all add: create_step_def Let_def)
  then show ?thesis
  proof cases
    case 1
    show ?thesis by (rule then_next_types [OF 1(2) found [OF 1(1)] rest])
  next
    case 2
    show ?thesis by (rule then_next_types [OF 2 _ rest]) (use s in \<open>blast intro: fields_structs quiet_send\<close>)
  qed
qed

lemma list_types:
  assumes m: "list_step p i acc avail rest s = Inr (c, t)" and s: "fields_ok s" and rest: "NUL \<notin> set rest"
  shows "fields_ok t \<and> pc_typed c"
proof (cases "i < MAX_ROOMS")
  case True
  with m rest have "same_structs s t" "pc_typed c"
    by (auto simp: list_step_def Let_def res_bind_eq_Inr structs.keep_refl split: if_splits)
  with s show ?thesis by (blast intro: fields_structs)
next
  case False
  with m have "then_next p rest (send_list p acc avail s) = Inr (c, t)"
    by (simp add: list_step_def send_list_def)
  then show ?thesis
    by (rule then_next_types) (use s rest in \<open>auto simp: send_list_def res_bind_eq_Inr intro: fields_structs quiet_send\<close>)
qed

lemma left_types:
  assumes m: "left_step p ri rest s = Inr (c, t)" and s: "fields_ok s" and rest: "NUL \<notin> set rest"
  shows "fields_ok t \<and> pc_typed c"
proof -
  let ?f = "\<lambda>c. c\<lparr>cstate := IN_CHAT_LOBBY\<rparr>"
  from m obtain u where u: "send_message_to_client (client_fd (client_at s p)) CMD_ROOM_LEAVE_OK
      left_ok_text (emit (Lock (Room_lock (nat ri))) s) = Inr u" and
    ct: "c = Chunk p rest" "t = clear_msg p (upd_client p ?f (emit (Unlock (Room_lock (nat ri))) u))"
    by (auto simp: left_step_def Let_def then_next_eq res_bind_eq_Inr)
  have "fields_ok (emit (Unlock (Room_lock (nat ri))) u)"
    using s by (rule fields_structs [rotated]) (use quiet_send [OF u(1)] in simp)
  then have "fields_ok (upd_client p ?f (emit (Unlock (Room_lock (nat ri))) u))"
    by (intro fields_client client_typed_upd) (simp_all add: fields_ok_def)
  then show ?thesis unfolding ct using rest by (simp add: fields_clear)
qed

lemma micro_types:
  assumes "micro w c s = Inr (c', t)" and "fields_ok s" and "pc_typed c"
  shows "fields_ok t \<and> pc_typed c'"
proof (cases c)
  case (Greeting fd)
  with assms show ?thesis by (auto simp: res_bind_eq_Inr intro: fields_structs quiet_send)
next
  case (Uncounting p after)
  have "fields_ok (decrement_clients (owner p) s)"
    by (rule fields_same [OF assms(2)]) (simp_all add: decrement_clients_def)
  with Uncounting assms show ?thesis
    by (auto simp: after_cleanup_def next_message_def intro: fields_clear split: option.splits)
next
  case (Refusing fd)
  have "fields_ok (emit (Close fd) (decrement_clients w s))"
    by (rule fields_same [OF assms(2)]) (simp_all add: decrement_clients_def)
  with Refusing assms show ?thesis by auto
next
  case (Closing p after)
  have "fields_ok (clear_slot p s)"
    using assms(2) by (auto simp: fields_ok_def clear_slot_def Let_def worker_typed_def)
  with Closing assms show ?thesis by auto
qed (use assms chunk_types create_types list_types left_types in auto)

lemma begin_types:
  assumes b: "begin_event w e s = Inr (c, t)" and s: "fields_ok s"
  shows "fields_ok t \<and> pc_typed c"
proof (cases "ev_fd e = notification_fd (worker_at s w)")
  case True
  let ?fd = "efd_to_fd (efd_counter (worker_at s w))"
  obtain r u where u: "register_with_epoll w ?fd (ev_add_ok e) (read_efd w s) = (r, u)" by fastforce
  have "fields_ok (read_efd w s)"
    using s by (auto simp: fields_ok_def read_efd_def worker_typed_def)
  then have "fields_ok u"
    by (rule fields_same) (use u in \<open>auto simp: register_with_epoll_def Let_def split: if_splits\<close>)
  moreover have "fields_ok (emit (Sem_post w) (upd_worker w (\<lambda>t. t\<lparr>new_client := new_client t + 1\<rparr>)
      (decrement_clients w s)))"
    by (rule fields_same [OF s]) (simp_all add: decrement_clients_def)
  ultimately show ?thesis
    using b True u by (auto simp: begin_event_def begin_register_def Let_def new_client_typed
        intro: fields_client split: if_splits option.splits)
next
  case False
  have "NUL \<notin> set (cstr bs)" for bs by (auto simp: cstr_def dest: set_takeWhileD)
  with False b s show ?thesis
    by (auto simp: begin_event_def begin_read_def split: option.splits if_splits recv_result.splits
        dest!: disconnect_types)
qed

section \<open>Every step\<close>

lemma choose_clients: "choose_step fd left s = Inr (m, t) \<Longrightarrow> client_at t q = client_at s q"
  by (auto simp: choose_step_def Let_def res_bind_eq_Inr next_index_eq split: if_splits nat.splits
      dest!: send_InrD only_sends_state(1) [where p = q])

lemma choose_rooms: "choose_step fd left s = Inr (m, t) \<Longrightarrow> room_at t i = room_at s i"
  by (auto simp: choose_step_def Let_def res_bind_eq_Inr next_index_eq split: if_splits nat.splits
      dest!: send_InrD only_sends_state(2) [where i = i])

lemma choose_worker:
  "choose_step fd left s = Inr (m, t) \<Longrightarrow> worker_typed (worker_at s w) \<Longrightarrow> worker_typed (worker_at t w)"
  by (auto simp: choose_step_def Let_def res_bind_eq_Inr next_index_eq worker_typed_def
      split: if_splits nat.splits dest!: send_InrD only_sends_state(3) [where w = w])

definition types_ok :: "fine \<Rightarrow> bool" where
  "types_ok = (\<lambda>(m, cs, s). fields_ok s \<and> (\<forall>w. pc_typed (cs w)))"

lemma fine_step_types: "fine_step x y \<Longrightarrow> types_ok x \<Longrightarrow> types_ok y"
proof (induction rule: fine_step.induct)
  case (f_starts w cs s efd add_ok t m)
  have "fields_ok t" by (rule fields_same) (use f_starts worker_start_fields [OF f_starts(4)] in \<open>auto simp: types_ok_def\<close>)
  with f_starts show ?case by (simp add: types_ok_def)
next
  case (f_chooses fd left s m t cs)
  have "fields_ok t"
    using f_chooses choose_clients [OF f_chooses(1)] choose_rooms [OF f_chooses(1)] choose_worker [OF f_chooses(1)]
    by (auto simp: types_ok_def fields_ok_def)
  with f_chooses show ?case by (simp add: types_ok_def)
next
  case (f_resumes s w fd write_ok t cs)
  note f = hand_over_fields [OF f_resumes(2)]
  have "worker_typed (worker_at s v)" for v using f_resumes(3) by (simp add: types_ok_def fields_ok_def)
  moreover from this have "efd_counter (worker_at t v) < 2 ^ 64" for v
    unfolding worker_typed_def f(6) by (auto simp: written_def efd_accepts_def)
  moreover have "num_of_clients (worker_at t v) \<le> num_of_clients (worker_at s v)" for v
    unfolding f(4) by simp
  ultimately have "worker_typed (worker_at t v)" for v
    unfolding worker_typed_def by (meson order_trans)
  with f f_resumes(3) show ?case by (simp add: types_ok_def fields_ok_def)
next
  case (f_begins w cs s e c t m)
  with begin_types [OF f_begins(5)] show ?case by (simp add: types_ok_def)
next
  case (f_continues w cs s c t m)
  with micro_types [OF f_continues(3)] show ?case by (simp add: types_ok_def)
qed (simp add: types_ok_def)

lemma fine_reachable_types: "fine_reachable x \<Longrightarrow> types_ok x"
proof (induction rule: fine_reachable.induct)
  case (f_boots fds inits_ok rs s)
  have "worker_typed (worker_at s w)" for w
    using boot_state(4,5) [OF f_boots] by (cases "w < MAX_THREADS") (simp_all add: worker_typed_def)
  then show ?case using boot_state(1,2) [OF f_boots] by (simp add: types_ok_def fields_ok_def)
next
  case (f_steps x y)
  then show ?case by (blast intro: fine_step_types)
qed

lemma fine_reachable_names: "fine_reachable x \<Longrightarrow> names_ok (snd (snd x))"
  using fine_reachable_types [of x]
  by (auto simp: types_ok_def fields_ok_def client_typed_def c_string_def names_ok_def less_Suc_eq_le
      split: prod.splits)

end
