(* ===== verification/Fine_Progress.thy ===== *)
theory Fine_Progress
  imports Field_Types
begin

text \<open>
  What the fine-grained system can always do: a worker on its way is never stuck, except by writing
  past one of the two buffers that are too small; it is done after boundedly many steps of its own; and
  a main thread that waits for a worker is waiting for something that the worker can do.
\<close>

section \<open>No step is stuck\<close>

lemma names_appended: "names_kept s (upd_client p (\<lambda>c. c\<lparr>current_msg := m\<rparr>) s)"
  by (rule names_upd_client) simp

lemma returns_then_next: "returns (then_next p rest m) = returns m"
  by (simp add: then_next_def returns_section)

lemma room_index_valid:
  assumes inv: "sys_inv (m, settle cs s)" and room: "cstate (client_at s p) = IN_CHAT_ROOM"
    and tr: "transit (cs (owner p)) \<noteq> Some p"
  shows "0 \<le> room_index (client_at s p) \<and> room_index (client_at s p) < int MAX_ROOMS"
proof -
  have "cstate (client_at (settle cs s) p) = IN_CHAT_ROOM" using room tr by simp
  with sys_invD(1) [OF inv] obtain i k where
    "room_index (client_at (settle cs s) p) = int i" "i < MAX_ROOMS"
    by (auto simp: table_inv_def simp del: settle_client_at elim: linked_in_room)
  then show ?thesis by simp
qed

lemma disconnect_returns':
  assumes "names_ok s" and "cstate (client_at s p) = IN_CHAT_ROOM \<Longrightarrow>
    0 \<le> room_index (client_at s p) \<and> room_index (client_at s p) < int MAX_ROOMS"
  shows "returns (begin_disconnect p after s)"
  using assms leave_returns [of s p] by (simp add: begin_disconnect_def returns_section names_ok_def)

lemma begin_dispatch_returns:
  assumes names: "names_ok s" and acc: "acceptable (client_at s p)"
    and ri: "cstate (client_at s p) = IN_CHAT_ROOM \<Longrightarrow>
      0 \<le> room_index (client_at s p) \<and> room_index (client_at s p) < int MAX_ROOMS"
  shows "returns (begin_dispatch p rest s)"
proof -
  let ?c = "client_at s p"
  note len = acceptable_length [OF acc]
  have n: "length (cname ?c) \<le> 32" using names by (simp add: names_ok_def limits)
  have send: "returns (send_message_to_client fd code x t)" if "length x \<le> 200" for fd code x t
    using reply_sends [OF that] by (simp add: returns_iff)
  have "returns (begin_awaiting p rest s)"
    using send reply_text_lengths by (simp add: begin_awaiting_def Let_def returns_then_next)
  moreover have "returns (begin_create p rest s)"
    using send len by (simp add: begin_create_def Let_def returns_then_next text_lengths limits)
  moreover have "returns (join_chat_room p s)" using names by (intro join_returns) (simp add: names_ok_def)
  ultimately have lobby: "returns (begin_awaiting p rest s)" "returns (begin_lobby p rest s)"
    by (simp_all add: begin_lobby_def Let_def returns_then_next)
  have "returns (begin_in_room p rest s)" if room: "cstate ?c = IN_CHAT_ROOM"
  proof (cases "char_at (current_msg ?c) 0 = CMD_ROOM_MESSAGE_SEND")
    case True
    have "returns (broadcast_message_in_room (cname ?c @ '': '' @ drop 2 (current_msg ?c)) i p t)" for i t
      using broadcast_returns n len by (simp add: returns_iff limits)
    with True ri [OF room] n len show ?thesis
      by (simp add: begin_in_room_def handle_in_chat_room_def Let_def returns_then_next returns_section limits)
  next
    case False
    with n ri [OF room] leave_returns [of s p] show ?thesis
      by (simp add: begin_in_room_def Let_def returns_section limits)
  qed
  with lobby disconnect_returns' [OF names ri] show ?thesis
    by (simp add: begin_dispatch_def split: client_state.splits)
qed

lemma begin_route_returns:
  assumes names: "names_ok s"
    and ri: "cstate (client_at s p) = IN_CHAT_ROOM \<Longrightarrow>
      0 \<le> room_index (client_at s p) \<and> room_index (client_at s p) < int MAX_ROOMS"
  shows "returns (begin_route p rest s)"
proof -
  have v: "returns (validate_msg_format p s)"
    using reply_sends format_error_text
    by (fastforce simp: validate_msg_format_def returns_bind split: option.splits)
  have c: "returns (command_valid_for_state p s)"
    using reply_sends state_error_text
    by (fastforce simp: command_valid_for_state_def Let_def returns_bind split: option.splits)
  show ?thesis
  proof (cases "acceptable (client_at s p)")
    case True
    with begin_dispatch_returns [OF names _ ri] show ?thesis
      by (simp add: begin_route_def validate_msg_format_def command_valid_for_state_def acceptable_def)
  next
    case False
    from v obtain b u where u: "validate_msg_format p s = Inr (b, u)" by (auto simp: returns_iff)
    from c obtain a w where w: "command_valid_for_state p s = Inr (a, w)" by (auto simp: returns_iff)
    from validate_cases [OF u] state_valid_cases [OF w] False u w show ?thesis
      by (auto simp: begin_route_def acceptable_def)
  qed
qed

text \<open>Where the two small buffers are written.\<close>

definition overflows :: "pc \<Rightarrow> fault \<Rightarrow> bool" where
  "overflows c e \<longleftrightarrow>
     (case c of
        Chunk p temp \<Rightarrow> e = Overflow Current_msg
      | Listing p i acc avail rest \<Rightarrow> e = Overflow Room_list_msg \<or> e = Overflow Message_buffer
      | _ \<Rightarrow> False)"

lemma not_returns: "returns m \<Longrightarrow> m \<noteq> Inl e"
  by auto

lemma list_step_faults:
  assumes ok: "rooms_ok s" and e: "list_step p i acc avail rest s = Inl e"
  shows "e = Overflow Room_list_msg \<or> e = Overflow Message_buffer"
proof (cases "i < MAX_ROOMS")
  case True
  have "length (room_entry i (room_at s i)) < 100"
    using rooms_okD [OF ok True] True
    by (simp add: room_entry_def length_dec_digits room_ok_def limits MAX_ROOMS_def)
  with True e show ?thesis
    by (auto simp: list_step_def Let_def res_bind_eq_Inl c_store_eq_Inl split: if_splits)
next
  case False
  with e show ?thesis
    by (auto simp: list_step_def then_next_def res_bind_eq_Inl send_fault c_store_eq_Inl split: if_splits)
qed

lemma micro_faults:
  assumes inv: "fine_inv (m, cs, s)" and names: "names_ok s"
    and e: "micro w (cs w) s = Inl e"
  shows "overflows (cs w) e"
proof -
  note d = fine_invD [OF inv]
  have ok: "pc_ok w (cs w) s" by (rule d(3))
  have send: "returns (send_message_to_client fd code x t)" if "length x \<le> 200" for fd code x t
    using reply_sends [OF that] by (simp add: returns_iff)
  show ?thesis
  proof (cases "cs w")
    case (Chunk p temp)
    show ?thesis
    proof (cases "split_crlf temp")
      case None
      with e Chunk show ?thesis
        by (auto simp: overflows_def append_msg_def res_bind_eq_Inl c_store_eq_Inl split: if_splits)
    next
      case (Some x)
      obtain seg rest where x: "x = (seg, rest)" by (cases x)
      have p: "owner p = w" using ok Chunk by simp
      have "returns (begin_route p rest (upd_client p (\<lambda>c. c\<lparr>current_msg := n\<rparr>) s))" for n
      proof (rule begin_route_returns)
        show "names_ok (upd_client p (\<lambda>c. c\<lparr>current_msg := n\<rparr>) s)"
          using names names_appended by (auto simp: names_kept_def)
        show "cstate (client_at (upd_client p (\<lambda>c. c\<lparr>current_msg := n\<rparr>) s) p) = IN_CHAT_ROOM \<Longrightarrow>
            0 \<le> room_index (client_at (upd_client p (\<lambda>c. c\<lparr>current_msg := n\<rparr>) s) p) \<and>
            room_index (client_at (upd_client p (\<lambda>c. c\<lparr>current_msg := n\<rparr>) s) p) < int MAX_ROOMS"
          using room_index_valid [OF d(1), of p] p Chunk by simp
      qed
      then have "begin_route p rest (upd_client p (\<lambda>c. c\<lparr>current_msg := n\<rparr>) s) \<noteq> Inl e" for n
        by (rule not_returns)
      with e Chunk Some x show ?thesis
        by (auto simp: overflows_def append_msg_def res_bind_eq_Inl res_bind_eq_Inr c_store_eq_Inl)
    qed
  next
    case (Creating p name success i rest)
    then have "returns (micro w (cs w) s)"
      using ok send [of rooms_full_text] found_room_returns
      by (simp add: create_step_def Let_def returns_then_next text_lengths)
    with e show ?thesis by simp
  next
    case (Listing p i acc avail rest)
    have "rooms_ok s" using sys_invD(1) [OF d(1)] by (simp add: table_inv_def rooms_ok_def)
    from list_step_faults [OF this] e Listing show ?thesis by (simp add: overflows_def)
  next
    case (Left p ri rest)
    then have "returns (micro w (cs w) s)"
      using send [of left_ok_text] reply_text_lengths
      by (simp add: left_step_def Let_def returns_then_next returns_section)
    with e show ?thesis by simp
  next
    case (Greeting fd)
    then have "returns (micro w (cs w) s)"
      using send [of welcome_text] by (simp add: returns_section welcome_text_def)
    with e show ?thesis by simp
  qed (use e in simp_all)
qed

section \<open>Coming to rest\<close>

text \<open>The steps that finish something under way: all but those that take on a new event, a new
  connection or a new thread.\<close>

inductive busy_step :: "fine \<Rightarrow> fine \<Rightarrow> bool" where
  b_chooses: "choose_step fd left s = Inr (m, t) \<Longrightarrow> busy_step (Choosing fd left, cs, s) (m, cs, t)"
| b_resumes: "0 < new_client (worker_at s w) \<Longrightarrow> hand_over fd w write_ok s = Inr t \<Longrightarrow>
    busy_step (Waiting fd w, cs, s) (Accepting, cs, t)"
| b_continues: "w < MAX_THREADS \<Longrightarrow> cs w \<noteq> Ready \<Longrightarrow> micro w (cs w) s = Inr (c, t) \<Longrightarrow>
    busy_step (m, cs, s) (m, cs(w := c), t)"

lemma busy_fine: "busy_step x y \<Longrightarrow> fine_step x y"
  by (induction rule: busy_step.induct) (auto intro: fine_step.intros)

text \<open>What is left to do.\<close>

fun main_work :: "main_pc \<Rightarrow> nat" where
  "main_work Accepting = 0"
| "main_work (Choosing fd left) = left + 2"
| "main_work (Waiting fd w) = 1"

definition total_work :: "fine \<Rightarrow> nat" where
  "total_work = (\<lambda>(m, cs, s). main_work m + (\<Sum>w < MAX_THREADS. work (cs w)))"

lemma choose_work: "choose_step fd left s = Inr (m, t) \<Longrightarrow> main_work m < left + 2"
  by (auto simp: choose_step_def Let_def res_bind_eq_Inr split: if_splits nat.splits)

lemma sum_work_less:
  fixes w n :: nat and cs :: "nat \<Rightarrow> pc"
  assumes "w < n" and "work c < work (cs w)"
  shows "(\<Sum>v < n. work ((cs(w := c)) v)) < (\<Sum>v < n. work (cs v))"
  by (rule sum_strict_mono_ex1) (use assms in auto)

lemma busy_work: "busy_step x y \<Longrightarrow> total_work y < total_work x"
proof (induction rule: busy_step.induct)
  case (b_chooses fd left s m t cs)
  from choose_work [OF b_chooses] show ?case by (simp add: total_work_def)
next
  case (b_resumes s w fd write_ok t cs)
  then show ?case by (simp add: total_work_def)
next
  case (b_continues w cs s c t m)
  from sum_work_less [where cs = cs, OF b_continues(1) micro_work [OF b_continues(3,2)]] show ?case
    by (simp add: total_work_def)
qed

lemma busy_steps_work: "(busy_step ^^ n) x y \<Longrightarrow> n + total_work y \<le> total_work x"
proof (induction n arbitrary: y)
  case (Suc n)
  then obtain z where "(busy_step ^^ n) x z" "busy_step z y" by auto
  with Suc.IH [of z] busy_work [of z y] show ?case by simp
qed simp

text \<open>An event costs at most \<open>7921\<close> steps: its chunk has at most 132 characters.\<close>

definition event_work :: nat where "event_work = 7921"

lemma begin_work:
  assumes "begin_event w e s = Inr (c, t)"
  shows "work c \<le> event_work"
proof -
  have chunk: "chunk_work (cstr (take MAX_MESSAGE_LEN_TO_SERVER bs)) \<le> event_work" for bs
    using length_cstr [of "take MAX_MESSAGE_LEN_TO_SERVER bs"]
    by (simp add: chunk_work_def event_work_def limits)
  have small: "2 \<le> event_work" by (simp add: event_work_def)
  show ?thesis
  proof (cases "ev_fd e = notification_fd (worker_at s w)")
    case True
    obtain b u where "register_with_epoll w (efd_to_fd (efd_counter (worker_at s w))) (ev_add_ok e) (read_efd w s) = (b, u)"
      by fastforce
    with True assms small show ?thesis
      by (auto simp: begin_event_def begin_register_def Let_def split: if_splits option.splits)
  next
    case False
    with assms chunk small show ?thesis
      by (auto simp: begin_event_def begin_read_def split: option.splits if_splits recv_result.splits
          dest!: disconnect_work)
  qed
qed

definition work_ok :: "fine \<Rightarrow> bool" where
  "work_ok = (\<lambda>(m, cs, s). main_work m \<le> MAX_THREADS + 2 \<and> (\<forall>w. work (cs w) \<le> event_work))"

lemma fine_step_work: "fine_step x y \<Longrightarrow> work_ok x \<Longrightarrow> work_ok y"
proof (induction rule: fine_step.induct)
  case (f_chooses fd left s m t cs)
  with choose_work [OF f_chooses(1)] show ?case by (simp add: work_ok_def)
next
  case (f_begins w cs s e c t m)
  with begin_work [OF f_begins(5)] show ?case by (simp add: work_ok_def)
next
  case (f_continues w cs s c t m)
  with micro_work [OF f_continues(3,2)] show ?case
    by (auto simp: work_ok_def intro: le_trans [OF less_imp_le])
qed (simp_all add: work_ok_def)

lemma fine_reachable_work: "fine_reachable x \<Longrightarrow> work_ok x"
proof (induction rule: fine_reachable.induct)
  case (f_steps x y)
  then show ?case using fine_step_work by blast
qed (simp add: work_ok_def)

lemma total_work_bound: "work_ok x \<Longrightarrow> total_work x \<le> MAX_THREADS + 2 + MAX_THREADS * event_work"
proof -
  assume ok: "work_ok x"
  obtain m cs s where x: "x = (m, cs, s)" by (cases x)
  have "(\<Sum>w < MAX_THREADS. work (cs w)) \<le> (\<Sum>w < MAX_THREADS. event_work)"
    using ok by (intro sum_mono) (simp add: work_ok_def x)
  then show ?thesis using ok by (simp add: total_work_def work_ok_def x)
qed

section \<open>What a waiting thread waits for\<close>

lemma choose_returns: "\<exists>m t. choose_step fd left s = Inr (m, t)"
proof -
  have "length capacity_text \<le> 200" by (simp add: capacity_text_def)
  from reply_sends [OF this] obtain u where
    "send_message_to_client fd ERR_SERVER_FULL capacity_text
      (next_index (emit (Unlock (Count_lock (worker_index s))) (emit (Lock (Count_lock (worker_index s))) s))) = Inr u"
    by blast
  then show ?thesis by (cases left) (simp_all add: choose_step_def Let_def)
qed

text \<open>The end of a wait: the worker has an eventfd to read, and reading it frees the semaphore.\<close>

lemma wait_ends:
  assumes inv: "fine_inv (Waiting fd w, cs, s)" and busy: "new_client (worker_at s w) = 0"
  shows "w < MAX_THREADS \<and> efd_counter (worker_at s w) \<noteq> 0"
proof -
  note d = fine_invD [OF inv]
  have w: "w < MAX_THREADS" using sys_invD(4) [OF d(1)] by (simp add: main_ok_def)
  have "new_client (worker_at s w) + pending_efd (settle cs s) w = 1"
    using sys_invD(6) [OF d(1) w] by (simp add: worker_ok_def)
  with busy w show ?thesis by (simp add: pending_efd_def split: if_splits)
qed

lemma begin_register_frees:
  assumes "efd_counter (worker_at s w) \<noteq> 0"
  shows "\<exists>c t. begin_register w add_ok s = Inr (c, t) \<and> 0 < new_client (worker_at t w)"
proof -
  obtain b u where u: "register_with_epoll w (efd_to_fd (efd_counter (worker_at s w))) add_ok (read_efd w s) = (b, u)"
    by fastforce
  then have "new_client (worker_at u w) = new_client (worker_at s w) + 1"
    by (auto simp: register_with_epoll_def Let_def split: if_splits)
  with u assms show ?thesis
    by (auto simp: begin_register_def Let_def split: option.splits)
qed

end
