(* ===== verification/Thread_Steps.thy ===== *)
theory Thread_Steps
  imports Fine_Progress
begin

text \<open>
  The steps of \<open>fine_step\<close> again, with nothing assumed of what the clients send. They are told apart by
  thread, and by whether a thread goes on by itself (\<open>drive\<close>) or takes in something new (\<open>intake\<close>: a
  connection, or an event of a client). The bytes that are read are recorded, with the beginning of a
  message that stood in the client's buffer; \<open>nothing_after_exit\<close> says of such a record that no client sent
  anything after an EXIT in the same chunk. Under that condition, and only in this one point, the
  states are those of \<open>fine_reachable\<close>.
\<close>

section \<open>Threads\<close>

datatype thread = Main_thread | Worker_thread nat

abbreviation server_of :: "fine \<Rightarrow> server" where "server_of x \<equiv> snd (snd x)"
abbreviation point_of :: "fine \<Rightarrow> nat \<Rightarrow> pc" where "point_of x \<equiv> fst (snd x)"

text \<open>A worker between two events turns to its eventfd, which is readable.\<close>

inductive registers :: "nat \<Rightarrow> fine \<Rightarrow> fine \<Rightarrow> bool" where
  "w < MAX_THREADS \<Longrightarrow> cs w = Ready \<Longrightarrow> epoll_fd (worker_at s w) \<noteq> 0 \<Longrightarrow>
    efd_counter (worker_at s w) \<noteq> 0 \<Longrightarrow> begin_register w add_ok s = Inr (c, t) \<Longrightarrow>
    registers w (m, cs, s) (m, cs(w := c), t)"

inductive drive :: "thread \<Rightarrow> fine \<Rightarrow> fine \<Rightarrow> bool" where
  d_starts: "w < MAX_THREADS \<Longrightarrow> cs w = Ready \<Longrightarrow> epoll_fd (worker_at s w) = 0 \<Longrightarrow>
    worker_start w efd add_ok s = Some t \<Longrightarrow> drive (Worker_thread w) (m, cs, s) (m, cs, t)"
| d_chooses: "choose_step fd left s = Inr (m, t) \<Longrightarrow>
    drive Main_thread (Choosing fd left, cs, s) (m, cs, t)"
| d_resumes: "0 < new_client (worker_at s w) \<Longrightarrow> hand_over fd w write_ok s = Inr t \<Longrightarrow>
    drive Main_thread (Waiting fd w, cs, s) (Accepting, cs, t)"
| d_registers: "registers w x y \<Longrightarrow> drive (Worker_thread w) x y"
| d_continues: "w < MAX_THREADS \<Longrightarrow> cs w \<noteq> Ready \<Longrightarrow> micro w (cs w) s = Inr (c, t) \<Longrightarrow>
    drive (Worker_thread w) (m, cs, s) (m, cs(w := c), t)"

text \<open>What \<open>read_and_process_client_message\<close> finds: the client's \<open>current_msg\<close>, and the new bytes up to a NUL.\<close>

type_synonym chunk_read = "string \<times> string"

definition bytes_read :: "nat \<Rightarrow> epoll_event \<Rightarrow> server \<Rightarrow> chunk_read list" where
  "bytes_read w e s =
     (case find_client_by_fd w (ev_fd e) s of
        None \<Rightarrow> []
      | Some p \<Rightarrow>
          if ev_events e AND (EPOLLRDHUP OR EPOLLERR OR EPOLLHUP) \<noteq> 0 then []
          else (case ev_recv e of
                  Recv_nonpositive again \<Rightarrow> []
                | Received bs \<Rightarrow> [(current_msg (client_at s p), cstr (take MAX_MESSAGE_LEN_TO_SERVER bs))]))"

inductive intake :: "thread \<Rightarrow> chunk_read list \<Rightarrow> fine \<Rightarrow> fine \<Rightarrow> bool" where
  i_accepts: "fresh_fd Main_accepting s fd \<Longrightarrow> set_socket_keep_alive opts \<noteq> -1 \<Longrightarrow>
    intake Main_thread [] (Accepting, cs, s) (Choosing fd MAX_THREADS, cs, s)"
| i_serves: "w < MAX_THREADS \<Longrightarrow> cs w = Ready \<Longrightarrow> epoll_fd (worker_at s w) \<noteq> 0 \<Longrightarrow>
    ev_fd e \<noteq> notification_fd (worker_at s w) \<Longrightarrow> 0 < ev_fd e \<Longrightarrow> begin_event w e s = Inr (c, t) \<Longrightarrow>
    intake (Worker_thread w) (bytes_read w e s) (m, cs, s) (m, cs(w := c), t)"

inductive threads_reach :: "chunk_read list \<Rightarrow> fine \<Rightarrow> bool" where
  t_boots: "setup_threads fds inits_ok (init_server_rooms (zero_server rs)) = Some s \<Longrightarrow>
    threads_reach [] (Accepting, (\<lambda>_. Ready), s)"
| t_drives: "threads_reach reads x \<Longrightarrow> drive i x y \<Longrightarrow> threads_reach reads y"
| t_takes: "threads_reach reads x \<Longrightarrow> intake i new x y \<Longrightarrow> threads_reach (reads @ new) y"

definition nothing_after_exit :: "chunk_read list \<Rightarrow> bool" where
  "nothing_after_exit reads \<longleftrightarrow> list_all (\<lambda>(pending, chunk). exit_last pending chunk) reads"

lemma nothing_after_exit_simps [simp]:
  "nothing_after_exit []" "nothing_after_exit (reads @ new) \<longleftrightarrow> nothing_after_exit reads \<and> nothing_after_exit new"
  by (simp_all add: nothing_after_exit_def)

section \<open>The two relations\<close>

lemma register_event:
  "begin_event w \<lparr>ev_fd = notification_fd (worker_at s w), ev_events = 1, ev_recv = Recv_nonpositive True,
    ev_add_ok = add_ok\<rparr> s = begin_register w add_ok s"
  by (simp add: begin_event_def)

lemma registers_fine: "registers w x y \<Longrightarrow> fine_step x y"
proof (induction rule: registers.induct)
  case (1 w cs s add_ok c t m)
  then show ?case
    by (intro fine_step.f_begins [where e = "\<lparr>ev_fd = notification_fd (worker_at s w),
      ev_events = 1, ev_recv = Recv_nonpositive True, ev_add_ok = add_ok\<rparr>"])
      (simp_all add: register_event event_ok_def)
qed

lemma drive_fine: "drive i x y \<Longrightarrow> fine_step x y"
  by (induction rule: drive.induct) (blast intro: fine_step.intros registers_fine)+

text \<open>An event that reports an error is handled without a \<open>recv\<close>.\<close>

lemma quiet_event:
  assumes "nothing_after_exit (bytes_read w e s)" and "ev_fd e \<noteq> notification_fd (worker_at s w)" "0 < ev_fd e"
  obtains e' where "event_ok w e' s" "begin_event w e' s = begin_event w e s"
proof (cases "ev_events e AND (EPOLLRDHUP OR EPOLLERR OR EPOLLHUP) \<noteq> 0")
  case True
  show thesis
    by (rule that [of "e\<lparr>ev_recv := Recv_nonpositive True\<rparr>"])
      (use assms True in \<open>simp_all add: event_ok_def begin_event_def split: option.splits\<close>)
next
  case False
  show thesis
    by (rule that [of e]) (use assms False in
      \<open>auto simp: event_ok_def bytes_read_def nothing_after_exit_def split: option.splits recv_result.splits\<close>)
qed

lemma intake_fine: "intake i new x y \<Longrightarrow> nothing_after_exit new \<Longrightarrow> fine_step x y"
proof (induction rule: intake.induct)
  case (i_serves w cs s e c t m)
  from i_serves(7,4,5) obtain e' where "event_ok w e' s" "begin_event w e' s = begin_event w e s"
    by (rule quiet_event)
  with i_serves show ?case by (intro fine_step.f_begins [where e = e']) simp_all
qed (blast intro: fine_step.f_accepts)

lemma threads_fine: "threads_reach reads x \<Longrightarrow> nothing_after_exit reads \<Longrightarrow> fine_reachable x"
proof (induction rule: threads_reach.induct)
  case (t_drives reads x i y)
  then show ?case by (blast intro: fine_reachable.f_steps drive_fine)
next
  case (t_takes reads x i new y)
  then show ?case using fine_reachable.f_steps intake_fine nothing_after_exit_simps(2) by blast
qed (rule fine_reachable.f_boots)

lemma fine_threads_step:
  assumes "fine_step x y"
  shows "(\<exists>i. drive i x y) \<or> (\<exists>i new. intake i new x y \<and> nothing_after_exit new)"
  using assms
proof (induction rule: fine_step.induct)
  case (f_begins w cs s e c t m)
  show ?case
  proof (cases "ev_fd e = notification_fd (worker_at s w)")
    case True
    with f_begins have "registers w (m, cs, s) (m, cs(w := c), t)"
      by (intro registers.intros [where add_ok = "ev_add_ok e"]) (simp_all add: event_ok_def begin_event_def)
    then show ?thesis by (blast intro: drive.d_registers)
  next
    case False
    with f_begins(4) have "0 < ev_fd e" by (simp add: event_ok_def)
    with f_begins False have "intake (Worker_thread w) (bytes_read w e s) (m, cs, s) (m, cs(w := c), t)"
      by (intro intake.i_serves)
    moreover have "nothing_after_exit (bytes_read w e s)"
      using f_begins(4) False
      by (auto simp: event_ok_def bytes_read_def nothing_after_exit_def split: option.splits recv_result.splits)
    ultimately show ?thesis by blast
  qed
qed (blast intro: drive.intros intake.i_accepts nothing_after_exit_simps(1))+

lemma fine_threads: "fine_reachable x \<Longrightarrow> \<exists>reads. threads_reach reads x \<and> nothing_after_exit reads"
proof (induction rule: fine_reachable.induct)
  case (f_boots fds inits_ok rs s)
  then show ?case by (intro exI [of _ "[]"]) (simp add: threads_reach.t_boots)
next
  case (f_steps x y)
  then obtain reads where "threads_reach reads x" "nothing_after_exit reads" by blast
  with fine_threads_step [OF f_steps(2)] show ?case
    by (metis nothing_after_exit_simps(2) threads_reach.t_drives threads_reach.t_takes)
qed

end
