(* ===== verification/Blocking.thy ===== *)
theory Blocking
  imports Thread_Steps
begin

text \<open>
  The threads with locks that block. A thread whose critical section is free takes the lock together with what
  the section does to the structs, and then has the rest of the section's actions to play, one at a time: its
  sends, the \<open>pthread_mutex_unlock\<close>. Until the lock is given back no other thread can take it. A send to
  a socket of \<open>stuck\<close>, on which \<open>send\<close> answers \<open>EAGAIN\<close> for ever, is never played; then the thread
  stays where it is, with the lock it holds. The semaphore blocks in \<open>d_resumes\<close>.
\<close>

section \<open>Locks and actions\<close>

type_synonym lock_table = "lock \<Rightarrow> thread option"

fun can_play :: "int set \<Rightarrow> lock_table \<Rightarrow> action \<Rightarrow> bool" where
  "can_play stuck h (Lock l) \<longleftrightarrow> h l = None"
| "can_play stuck h (Send fd b n) \<longleftrightarrow> fd \<notin> stuck"
| "can_play stuck h (Unlock l) = True"
| "can_play stuck h (Close fd) = True"
| "can_play stuck h (Epoll_add e fd) = True"
| "can_play stuck h (Epoll_del e fd) = True"
| "can_play stuck h (Sem_wait w) = True"
| "can_play stuck h (Sem_post w) = True"

fun play :: "thread \<Rightarrow> action \<Rightarrow> lock_table \<Rightarrow> lock_table" where
  "play i (Lock l) h = h(l := Some i)"
| "play i (Unlock l) h = h(l := None)"
| "play i (Send fd b n) h = h"
| "play i (Close fd) h = h"
| "play i (Epoll_add e fd) h = h"
| "play i (Epoll_del e fd) h = h"
| "play i (Sem_wait w) h = h"
| "play i (Sem_post w) h = h"

text \<open>A step of \<open>Thread_Steps\<close> begins: the lock, if it starts with one, must be free and is taken; the
  actions that remain to be played are the result.\<close>

fun takes_lock :: "thread \<Rightarrow> action list \<Rightarrow> lock_table \<Rightarrow> (action list \<times> lock_table) option" where
  "takes_lock i (Lock l # as) h = (if h l = None then Some (as, h(l := Some i)) else None)"
| "takes_lock i as h = Some (as, h)"

section \<open>Configurations\<close>

record config =
  now :: fine
  todo :: "thread \<Rightarrow> action list"
  locked_by :: lock_table

definition plays_next :: "int set \<Rightarrow> thread \<Rightarrow> config \<Rightarrow> config \<Rightarrow> bool" where
  "plays_next stuck i c d \<longleftrightarrow> (\<exists>a as. todo c i = a # as \<and> can_play stuck (locked_by c) a \<and>
     d = c\<lparr>todo := (todo c)(i := as), locked_by := play i a (locked_by c)\<rparr>)"

definition enters :: "thread \<Rightarrow> fine \<Rightarrow> config \<Rightarrow> config \<Rightarrow> bool" where
  "enters i y c d \<longleftrightarrow> todo c i = [] \<and> (\<exists>as bs h. trace (server_of y) = trace (server_of (now c)) @ as \<and>
     takes_lock i as (locked_by c) = Some (bs, h) \<and>
     d = \<lparr>now = y, todo = (todo c)(i := bs), locked_by = h\<rparr>)"

inductive own_move :: "int set \<Rightarrow> thread \<Rightarrow> config \<Rightarrow> config \<Rightarrow> bool" where
  o_acts: "plays_next stuck i c d \<Longrightarrow> own_move stuck i c d"
| o_drives: "drive i (now c) y \<Longrightarrow> enters i y c d \<Longrightarrow> own_move stuck i c d"

inductive sched_step :: "int set \<Rightarrow> thread \<Rightarrow> chunk_read list \<Rightarrow> config \<Rightarrow> config \<Rightarrow> bool" where
  r_moves: "own_move stuck i c d \<Longrightarrow> sched_step stuck i [] c d"
| r_takes: "intake i new (now c) y \<Longrightarrow> enters i y c d \<Longrightarrow> sched_step stuck i new c d"

inductive runs_reach :: "int set \<Rightarrow> chunk_read list \<Rightarrow> config \<Rightarrow> bool" where
  c_boots: "setup_threads fds inits_ok (init_server_rooms (zero_server rs)) = Some s \<Longrightarrow>
    runs_reach stuck [] \<lparr>now = (Accepting, (\<lambda>_. Ready), s), todo = (\<lambda>_. []), locked_by = (\<lambda>_. None)\<rparr>"
| c_steps: "runs_reach stuck reads c \<Longrightarrow> sched_step stuck i new c d \<Longrightarrow> runs_reach stuck (reads @ new) d"

text \<open>The blocking only leaves out runs.\<close>

lemma runs_threads: "runs_reach stuck reads c \<Longrightarrow> threads_reach reads (now c)"
proof (induction rule: runs_reach.induct)
  case (c_boots fds inits_ok rs s stuck)
  then show ?case by (simp add: threads_reach.t_boots)
next
  case (c_steps stuck reads c i new d)
  from c_steps(2) show ?case
  proof cases
    case r_moves
    from r_moves(2) show ?thesis
    proof cases
      case o_acts
      then show ?thesis using c_steps(3) r_moves(1) by (auto simp: plays_next_def)
    next
      case (o_drives y)
      then have "now d = y" by (auto simp: enters_def)
      with o_drives(1) c_steps(3) r_moves(1) show ?thesis by (simp add: threads_reach.t_drives)
    qed
  next
    case (r_takes y)
    then have "now d = y" by (auto simp: enters_def)
    with r_takes(1) c_steps(3) show ?thesis by (simp add: threads_reach.t_takes)
  qed
qed

lemma runs_inv:
  assumes "runs_reach stuck reads c" and "nothing_after_exit reads" and "now c = (m, cs, s)"
  shows "fine_inv (m, cs, s)" "names_ok s"
proof -
  have "fine_reachable (now c)" by (rule threads_fine [OF runs_threads [OF assms(1)] assms(2)])
  with assms(3) show "fine_inv (m, cs, s)" "names_ok s"
    using fine_reachable_inv fine_reachable_names by auto
qed

section \<open>Who holds what\<close>

text \<open>A thread holds at most one lock, and what it has yet to play gives it back.\<close>

definition locks_ok :: "config \<Rightarrow> bool" where
  "locks_ok c \<longleftrightarrow> (\<forall>i. \<exists>h. held h (todo c i) = Some None \<and> (\<forall>l. locked_by c l = Some i \<longleftrightarrow> h = Some l))"

lemma locks_okE:
  assumes "locks_ok c"
  obtains h where "held h (todo c i) = Some None" "\<forall>l. locked_by c l = Some i \<longleftrightarrow> h = Some l"
  using assms unfolding locks_ok_def by blast

lemma locks_ok_upd:
  assumes ok: "locks_ok c" and h: "held h as = Some None" "\<forall>l. t l = Some i \<longleftrightarrow> h = Some l"
    and others: "\<And>j l. j \<noteq> i \<Longrightarrow> t l = Some j \<longleftrightarrow> locked_by c l = Some j"
    and d: "todo d = (todo c)(i := as)" "locked_by d = t"
  shows "locks_ok d"
  unfolding locks_ok_def
proof
  fix j
  show "\<exists>h. held h (todo d j) = Some None \<and> (\<forall>l. locked_by d l = Some j \<longleftrightarrow> h = Some l)"
  proof (cases "j = i")
    case True
    then show ?thesis using h by (auto simp: d)
  next
    case False
    from locks_okE [OF ok, of j] obtain g where
      "held g (todo c j) = Some None" "\<forall>l. locked_by c l = Some j \<longleftrightarrow> g = Some l" .
    with False others [OF False] show ?thesis by (auto simp: d)
  qed
qed

lemma acts_ok:
  assumes ok: "locks_ok c" and a: "plays_next stuck i c d"
  shows "locks_ok d"
proof -
  from a obtain x as where x: "todo c i = x # as" "can_play stuck (locked_by c) x" and
    d: "todo d = (todo c)(i := as)" "locked_by d = play i x (locked_by c)"
    by (auto simp: plays_next_def)
  from locks_okE [OF ok, of i] obtain h where
    h: "held h (x # as) = Some None" "\<forall>l. locked_by c l = Some i \<longleftrightarrow> h = Some l"
    unfolding x(1) .
  have "\<exists>g. held g as = Some None \<and> (\<forall>l. play i x (locked_by c) l = Some i \<longleftrightarrow> g = Some l)"
    using h x(2) by (cases x) (auto split: if_splits)
  then obtain g where g: "held g as = Some None" "\<forall>l. play i x (locked_by c) l = Some i \<longleftrightarrow> g = Some l"
    by blast
  have mine: "locked_by c l = Some i" if "x = Unlock l" for l
    using h that by (simp split: if_splits)
  have "play i x (locked_by c) l = Some j \<longleftrightarrow> locked_by c l = Some j" if "j \<noteq> i" for j l
    using x(2) that by (cases x) (auto simp: mine)
  then show ?thesis by (rule locks_ok_upd [OF ok g _ d])
qed

lemma enters_ok:
  assumes ok: "locks_ok c" and e: "enters i y c d" and y: "fine_step (now c) y"
  shows "locks_ok d"
proof -
  from e obtain as bs t where as: "todo c i = []" "trace (server_of y) = trace (server_of (now c)) @ as" and
    t: "takes_lock i as (locked_by c) = Some (bs, t)" and d: "todo d = (todo c)(i := bs)" "locked_by d = t"
    by (auto simp: enters_def)
  have sec: "held None as = Some None"
    using fine_step_sections [OF y] as(2) by (auto simp: sections_def)
  from locks_okE [OF ok, of i] obtain h where
    "held h [] = Some None" "\<forall>l. locked_by c l = Some i \<longleftrightarrow> h = Some l" unfolding as(1) .
  then have free: "locked_by c l \<noteq> Some i" for l by simp
  show ?thesis
  proof (cases "\<exists>l bs. as = Lock l # bs")
    case True
    then obtain l where l: "as = Lock l # bs" "locked_by c l = None" "t = (locked_by c)(l := Some i)"
      using t by (auto split: if_splits)
    have g: "held (Some l) bs = Some None" using sec l(1) by simp
    show ?thesis
      by (rule locks_ok_upd [OF ok g _ _ d]) (use l free in auto)
  next
    case False
    then have l: "bs = as" "t = locked_by c" using t by (cases "(i, as, locked_by c)" rule: takes_lock.cases; simp)+
    show ?thesis
      by (rule locks_ok_upd [OF ok sec _ _ d [unfolded l]]) (use free in auto)
  qed
qed

lemma runs_locks: "runs_reach stuck reads c \<Longrightarrow> nothing_after_exit reads \<Longrightarrow> locks_ok c"
proof (induction rule: runs_reach.induct)
  case (c_boots fds inits_ok rs s stuck)
  then show ?case by (auto simp: locks_ok_def intro!: exI [of _ None])
next
  case (c_steps stuck reads c i new d)
  then have ok: "locks_ok c" and new: "nothing_after_exit new" by simp_all
  from c_steps(2) show ?case
  proof cases
    case r_moves
    from r_moves(2) show ?thesis
      by cases (use ok in \<open>auto intro: acts_ok enters_ok drive_fine\<close>)
  next
    case (r_takes y)
    then show ?thesis using ok new by (auto intro: enters_ok intake_fine)
  qed
qed

section \<open>Waiting\<close>

text \<open>A thread wants a lock as the next thing of what it has yet to play, or to begin its next step.\<close>

inductive wants :: "config \<Rightarrow> thread \<Rightarrow> lock \<Rightarrow> bool" where
  w_plays: "todo c i = Lock l # as \<Longrightarrow> wants c i l"
| w_begins: "todo c i = [] \<Longrightarrow> drive i (now c) y \<Longrightarrow>
    trace (server_of y) = trace (server_of (now c)) @ Lock l # as \<Longrightarrow> wants c i l"

text \<open>It waits for the thread that holds the lock; or the main thread waits in \<open>sem_wait\<close> for a worker.\<close>

inductive waits_for :: "config \<Rightarrow> thread \<Rightarrow> thread \<Rightarrow> bool" for c where
  w_lock: "wants c i l \<Longrightarrow> locked_by c l = Some j \<Longrightarrow> j \<noteq> i \<Longrightarrow> waits_for c i j"
| w_sem: "todo c Main_thread = [] \<Longrightarrow> now c = (Waiting fd w, cs, s) \<Longrightarrow> new_client (worker_at s w) = 0 \<Longrightarrow>
    waits_for c Main_thread (Worker_thread w)"

fun has_work :: "config \<Rightarrow> thread \<Rightarrow> bool" where
  "has_work c Main_thread \<longleftrightarrow> todo c Main_thread \<noteq> [] \<or> fst (now c) \<noteq> Accepting"
| "has_work c (Worker_thread w) \<longleftrightarrow> w < MAX_THREADS \<and> (todo c (Worker_thread w) \<noteq> [] \<or>
     point_of (now c) w \<noteq> Ready \<or> efd_counter (worker_at (server_of (now c)) w) \<noteq> 0)"

definition at_socket :: "int set \<Rightarrow> config \<Rightarrow> thread \<Rightarrow> bool" where
  "at_socket stuck c i \<longleftrightarrow> (\<exists>fd b n as. todo c i = Send fd b n # as \<and> fd \<in> stuck)"

inductive overruns :: "config \<Rightarrow> thread \<Rightarrow> bool" where
  "todo c (Worker_thread w) = [] \<Longrightarrow> now c = (m, cs, s) \<Longrightarrow> micro w (cs w) s = Inl e \<Longrightarrow>
    overflows (cs w) e \<Longrightarrow> overruns c (Worker_thread w)"

inductive starting :: "config \<Rightarrow> thread \<Rightarrow> bool" where
  "todo c (Worker_thread w) = [] \<Longrightarrow> now c = (m, cs, s) \<Longrightarrow> epoll_fd (worker_at s w) = 0 \<Longrightarrow> starting c (Worker_thread w)"

text \<open>What can be said of a thread at the end of a chain of waiting.\<close>

definition may_move :: "int set \<Rightarrow> config \<Rightarrow> thread \<Rightarrow> bool" where
  "may_move stuck c i \<longleftrightarrow> (\<exists>d. own_move stuck i c d) \<or> at_socket stuck c i \<or> overruns c i \<or> starting c i"

abbreviation leads_on :: "int set \<Rightarrow> config \<Rightarrow> thread \<Rightarrow> bool" where
  "leads_on stuck c i \<equiv> \<exists>j. (waits_for c)\<^sup>*\<^sup>* i j \<and> may_move stuck c j"

lemma plays_move: "todo c i = a # as \<Longrightarrow> can_play stuck (locked_by c) a \<Longrightarrow> may_move stuck c i"
  unfolding may_move_def by (blast intro: own_move.o_acts plays_next_def [THEN iffD2])

text \<open>The holder of a lock never wants another one.\<close>

lemma holder_moves:
  assumes ok: "locks_ok c" and l: "locked_by c l = Some j"
  shows "may_move stuck c j"
proof -
  from locks_okE [OF ok, of j] obtain h where
    h: "held h (todo c j) = Some None" "\<forall>l. locked_by c l = Some j \<longleftrightarrow> h = Some l" .
  with l have h': "held (Some l) (todo c j) = Some None" by auto
  then obtain a as where a: "todo c j = a # as" by (cases "todo c j") auto
  show ?thesis
  proof (cases "can_play stuck (locked_by c) a")
    case True
    with a show ?thesis by (rule plays_move)
  next
    case False
    with h' a show ?thesis by (cases a) (auto simp: may_move_def at_socket_def)
  qed
qed

lemma plays_on:
  assumes ok: "locks_ok c" and "todo c i = a # as"
  shows "leads_on stuck c i"
proof (cases "can_play stuck (locked_by c) a")
  case True
  with plays_move [OF assms(2)] show ?thesis by blast
next
  case False
  show ?thesis
  proof (cases "\<exists>l j. a = Lock l \<and> locked_by c l = Some j \<and> j \<noteq> i")
    case True
    then obtain l j where "a = Lock l" "locked_by c l = Some j" "j \<noteq> i" by blast
    with assms(2) have "waits_for c i j" by (blast intro: waits_for.w_lock wants.w_plays)
    with holder_moves [OF ok \<open>locked_by c l = Some j\<close>] show ?thesis by blast
  next
    case own: False
    from locks_okE [OF ok, of i] obtain h where
      "held h (a # as) = Some None" "\<forall>l. locked_by c l = Some i \<longleftrightarrow> h = Some l" unfolding assms(2) .
    with False own assms(2) have "at_socket stuck c i"
      by (cases a) (auto simp: at_socket_def split: if_splits)
    then show ?thesis unfolding may_move_def by blast
  qed
qed

lemma drives_on:
  assumes ok: "locks_ok c" and idle: "todo c i = []" and y: "drive i (now c) y"
  shows "leads_on stuck c i"
proof -
  from fine_step_sections [OF drive_fine [OF y]] obtain as where
    as: "trace (server_of y) = trace (server_of (now c)) @ as"
    by (auto simp: sections_def)
  show ?thesis
  proof (cases "takes_lock i as (locked_by c)")
    case (Some x)
    with as idle have "enters i y c \<lparr>now = y, todo = (todo c)(i := fst x), locked_by = snd x\<rparr>"
      unfolding enters_def by (metis prod.collapse)
    with y have "may_move stuck c i" unfolding may_move_def by (blast intro: own_move.o_drives)
    then show ?thesis by blast
  next
    case None
    then obtain l bs j where l: "as = Lock l # bs" "locked_by c l = Some j"
      by (cases "(i, as, locked_by c)" rule: takes_lock.cases) (auto split: if_splits)
    from locks_okE [OF ok, of i] obtain h where
      "held h [] = Some None" "\<forall>l. locked_by c l = Some i \<longleftrightarrow> h = Some l" unfolding idle .
    with l(2) have "j \<noteq> i" by auto
    moreover have "wants c i l" using wants.w_begins [OF idle y] as l(1) by blast
    ultimately have "waits_for c i j" using l(2) by (blast intro: waits_for.w_lock)
    with holder_moves [OF ok l(2)] show ?thesis by blast
  qed
qed

section \<open>No deadlock\<close>

lemma worker_leads_on:
  assumes ok: "locks_ok c" and x: "now c = (m, cs, s)" and inv: "fine_inv (m, cs, s)" "names_ok s"
    and work: "has_work c (Worker_thread w)"
  shows "leads_on stuck c (Worker_thread w)"
proof -
  let ?i = "Worker_thread w"
  consider (plays) "todo c ?i \<noteq> []" | (starts) "todo c ?i = []" "epoll_fd (worker_at s w) = 0"
    | (continues) "todo c ?i = []" "cs w \<noteq> Ready"
    | (registers) "todo c ?i = []" "cs w = Ready" "epoll_fd (worker_at s w) \<noteq> 0" "efd_counter (worker_at s w) \<noteq> 0"
    using work x by auto
  then show ?thesis
  proof cases
    case plays
    then show ?thesis using plays_on [OF ok] by (cases "todo c ?i") auto
  next
    case starts
    with x have "may_move stuck c ?i" unfolding may_move_def by (blast intro: starting.intros)
    then show ?thesis by blast
  next
    case continues
    show ?thesis
    proof (cases "micro w (cs w) s")
      case (Inl e)
      with micro_faults [OF inv, of w] continues x have "may_move stuck c ?i"
        unfolding may_move_def by (blast intro: overruns.intros)
      then show ?thesis by blast
    next
      case (Inr z)
      with continues work x have "drive ?i (now c) (m, cs(w := fst z), snd z)"
        by (auto intro: drive.d_continues)
      with continues(1) show ?thesis by (rule drives_on [OF ok])
    qed
  next
    case registers
    from begin_register_frees [OF registers(4)] obtain d t where "begin_register w True s = Inr (d, t)" by blast
    with registers work x have "drive ?i (now c) (m, cs(w := d), t)"
      by (auto intro: drive.d_registers registers.intros)
    with registers(1) show ?thesis by (rule drives_on [OF ok])
  qed
qed

lemma main_leads_on:
  assumes ok: "locks_ok c" and x: "now c = (m, cs, s)" and inv: "fine_inv (m, cs, s)" "names_ok s"
    and work: "has_work c Main_thread"
  shows "leads_on stuck c Main_thread"
proof (cases "todo c Main_thread")
  case (Cons a as)
  then show ?thesis by (rule plays_on [OF ok])
next
  case Nil
  note drives = drives_on [OF ok Nil]
  from Nil work x consider fd left where "m = Choosing fd left" | fd w where "m = Waiting fd w"
    by (cases m) auto
  then show ?thesis
  proof cases
    case (1 fd left)
    with choose_returns [of fd left s] x show ?thesis by (metis drives drive.d_chooses)
  next
    case (2 fd w)
    show ?thesis
    proof (cases "new_client (worker_at s w) = 0")
      case False
      then have "0 < new_client (worker_at s w)" by simp
      with hand_over_returns [of fd w True s] x 2 show ?thesis by (metis drives drive.d_resumes)
    next
      case True
      with wait_ends [of fd w cs s] inv(1) 2 have "w < MAX_THREADS" "efd_counter (worker_at s w) \<noteq> 0" by auto
      with x have "has_work c (Worker_thread w)" by simp
      from worker_leads_on [OF ok x inv this] obtain j where
        "(waits_for c)\<^sup>*\<^sup>* (Worker_thread w) j" "may_move stuck c j" by blast
      moreover have "waits_for c Main_thread (Worker_thread w)" using Nil x 2 True by (blast intro: waits_for.w_sem)
      ultimately show ?thesis by (meson converse_rtranclp_into_rtranclp)
    qed
  qed
qed

lemma all_lead_on:
  assumes "runs_reach stuck reads c" and "nothing_after_exit reads" and "has_work c i"
  shows "leads_on stuck c i"
proof -
  obtain m cs s where x: "now c = (m, cs, s)" by (cases "now c")
  note ok = runs_locks [OF assms(1,2)] and inv = runs_inv [OF assms(1,2) x]
  show ?thesis
    using worker_leads_on [OF ok x inv] main_leads_on [OF ok x inv] assms(3) by (cases i) auto
qed

end
