(* ===== verification/Kernel_Objects.thy ===== *)
theory Kernel_Objects
  imports Blocking
begin

text \<open>
  What the steps do to the epoll descriptors and the semaphores of the workers: nothing, except that handling
  the eventfd posts a semaphore, the main thread waits on one, and a worker that starts gets its descriptor.
\<close>

section \<open>Steps of a worker\<close>

definition kernel_kept :: "server \<Rightarrow> server \<Rightarrow> bool" where
  "kernel_kept s t \<longleftrightarrow> (\<forall>v. epoll_fd (worker_at t v) = epoll_fd (worker_at s v) \<and>
     new_client (worker_at t v) = new_client (worker_at s v))"

interpretation kernel: effect_preorder kernel_kept
  by unfold_locales (simp_all add: kernel_kept_def)

lemma kernel_own: "only_own p s t \<Longrightarrow> kernel_kept s t"
  by (simp add: only_own_def kernel_kept_def)

lemma kernel_structs: "same_structs s t \<Longrightarrow> kernel_kept s t"
  by (rule kernel_own [OF own_structs])

lemma kernel_client: "kernel_kept s (upd_client p f s)"
  by (rule kernel_own [OF own_upd_client])

lemma kernel_clear: "kernel_kept s u \<Longrightarrow> kernel_kept s (clear_msg p u)"
  unfolding clear_msg_def using kernel.keep_trans kernel_client by blast

lemma kernel_leave: "leave_room p ri s = Inr t \<Longrightarrow> kernel_kept s t"
  using leave_own by (blast intro: kernel_own dest: res_allD)

lemma kernel_disconnect: "begin_disconnect p after s = Inr (c, t) \<Longrightarrow> kernel_kept s t"
  by (auto simp: begin_disconnect_def res_bind_eq_Inr kernel.keep_refl split: if_splits dest: kernel_leave)

lemma kernel_move: "move p rest s c t \<Longrightarrow> kernel_kept s t"
proof (induction rule: move.induct)
  case (answered t)
  then show ?case using kernel.keep_trans kernel_structs kernel_clear [OF kernel.keep_refl] by blast
next
  case (joins i k t)
  have "kernel_kept s (move_into p i (add_member p k i s))"
    by (simp add: kernel_kept_def move_into_def add_member_def)
  from kernel.keep_trans [OF kernel_clear [OF this] kernel_structs [OF joins(5)]] show ?case .
qed (auto simp: kernel_client kernel.keep_refl intro: kernel_leave kernel_disconnect)

lemma kernel_then_next:
  "then_next p rest m = Inr (c, t) \<Longrightarrow> (\<And>u. m = Inr u \<Longrightarrow> kernel_kept s u) \<Longrightarrow> kernel_kept s t"
  by (auto simp: then_next_eq intro: kernel_clear)

lemma kernel_append: "append_msg p x s = Inr u \<Longrightarrow> kernel_kept s u"
  by (auto simp: append_msg_def res_bind_eq_Inr kernel_client)

lemma kernel_send: "send_message_to_client fd code m s = Inr t \<Longrightarrow> kernel_kept s t"
  by (rule kernel_structs [OF quiet_send])

lemma kernel_chunk:
  assumes "micro w (Chunk p temp) s = Inr (c, t)"
  shows "kernel_kept s t"
proof (cases "split_crlf temp")
  case None
  with assms show ?thesis
    by (auto simp: res_bind_eq_Inr kernel.keep_refl kernel_append split: if_splits)
next
  case (Some x)
  with assms obtain seg rest u where "append_msg p seg s = Inr u" "begin_route p rest u = Inr (c, t)"
    by (cases x) (auto simp: res_bind_eq_Inr)
  with kernel_append kernel_move [OF begin_route_moves] show ?thesis by (blast intro: kernel.keep_trans)
qed

lemma kernel_found: "found_room p name success i (emit (Lock (Room_lock i)) s) = Inr t \<Longrightarrow> kernel_kept s t"
proof -
  assume t: "found_room p name success i (emit (Lock (Room_lock i)) s) = Inr t"
  have "kernel_kept s (open_room p name i (emit (Lock (Room_lock i)) s))"
    by (simp add: kernel_kept_def open_room_def)
  from kernel.keep_trans [OF this kernel_structs [OF res_allD [OF found_room_structs t]]] show ?thesis .
qed

lemma kernel_create: "create_step p name success i rest s = Inr (c, t) \<Longrightarrow> kernel_kept s t"
  by (auto simp: create_step_def Let_def split: if_splits elim!: kernel_then_next
      intro: kernel_found kernel_send) (simp add: kernel_kept_def)

lemma kernel_list:
  assumes "list_step p i acc avail rest s = Inr (c, t)"
  shows "kernel_kept s t"
proof (cases "i < MAX_ROOMS")
  case True
  with assms show ?thesis
    by (auto simp: list_step_def Let_def res_bind_eq_Inr kernel_kept_def split: if_splits)
next
  case False
  with assms have "then_next p rest (send_list p acc avail s) = Inr (c, t)"
    by (simp add: list_step_def send_list_def)
  then show ?thesis
    by (rule kernel_then_next) (auto simp: send_list_def res_bind_eq_Inr intro: kernel_send)
qed

lemma kernel_left:
  assumes "left_step p ri rest s = Inr (c, t)"
  shows "kernel_kept s t"
proof -
  from assms obtain u where u: "send_message_to_client (client_fd (client_at s p)) CMD_ROOM_LEAVE_OK
      left_ok_text (emit (Lock (Room_lock (nat ri))) s) = Inr u" and
    t: "t = clear_msg p (upd_client p (\<lambda>c. c\<lparr>cstate := IN_CHAT_LOBBY\<rparr>) (emit (Unlock (Room_lock (nat ri))) u))"
    by (auto simp: left_step_def Let_def then_next_eq res_bind_eq_Inr)
  from kernel_send [OF u] show ?thesis unfolding t by (intro kernel_clear) (simp add: kernel_kept_def)
qed

lemma kernel_emit [simp]: "kernel_kept s (emit a u) = kernel_kept s u"
  by (simp add: kernel_kept_def)

lemma kernel_decrement: "kernel_kept s (decrement_clients w s)"
  by (simp add: kernel_kept_def decrement_clients_def)

lemma kernel_slot: "kernel_kept s (clear_slot p s)"
  by (simp add: kernel_kept_def clear_slot_def Let_def)

lemma kernel_micro: "micro w c s = Inr (c', t) \<Longrightarrow> kernel_kept s t"
proof (cases c)
  case (Uncounting p after)
  assume "micro w c s = Inr (c', t)"
  with Uncounting have "t = decrement_clients (owner p) s \<or> (\<exists>q. t = clear_msg q (decrement_clients (owner p) s))"
    by (auto simp: after_cleanup_def next_message_def split: option.splits)
  then show ?thesis using kernel_clear kernel_decrement by blast
qed (auto simp: kernel.keep_refl kernel_chunk kernel_create kernel_list kernel_left kernel_send kernel_decrement
    kernel_slot res_bind_eq_Inr simp del: micro.simps(2))

lemma kernel_begin:
  assumes "begin_event w e s = Inr (c, t)"
  shows "epoll_fd (worker_at t v) = epoll_fd (worker_at s v)"
    "new_client (worker_at s v) \<le> new_client (worker_at t v)"
proof -
  have "epoll_fd (worker_at t v) = epoll_fd (worker_at s v) \<and>
    new_client (worker_at s v) \<le> new_client (worker_at t v)"
  proof (cases "ev_fd e = notification_fd (worker_at s w)")
    case True
    let ?fd = "efd_to_fd (efd_counter (worker_at s w))"
    obtain r u where u: "register_with_epoll w ?fd (ev_add_ok e) (read_efd w s) = (r, u)" by fastforce
    then have "epoll_fd (worker_at u v) = epoll_fd (worker_at s v)"
      "new_client (worker_at s v) \<le> new_client (worker_at u v)"
      by (auto simp: register_with_epoll_def Let_def read_efd_def split: if_splits)
    with assms True u show ?thesis
      by (auto simp: begin_event_def begin_register_def Let_def decrement_clients_def split: if_splits option.splits)
  next
    case False
    have "kernel_kept s t"
      using assms False
      by (auto simp: begin_event_def begin_read_def kernel.keep_refl split: option.splits if_splits
          recv_result.splits dest: kernel_disconnect)
    then show ?thesis by (simp add: kernel_kept_def)
  qed
  then show "epoll_fd (worker_at t v) = epoll_fd (worker_at s v)"
    "new_client (worker_at s v) \<le> new_client (worker_at t v)" by simp_all
qed

section \<open>Every step\<close>

lemma start_kernel:
  assumes "worker_start w efd add_ok s = Some t"
  shows "v \<noteq> w \<Longrightarrow> epoll_fd (worker_at t v) = epoll_fd (worker_at s v)"
    "new_client (worker_at t v) = new_client (worker_at s v)"
  using assms by (auto simp: worker_start_def register_with_epoll_def Let_def split: if_splits)

lemma choose_epoll: "choose_step fd left s = Inr (m, t) \<Longrightarrow> epoll_fd (worker_at t v) = epoll_fd (worker_at s v)"
  by (auto simp: choose_step_def Let_def res_bind_eq_Inr next_index_eq split: if_splits nat.splits
      dest!: send_InrD only_sends_state(3) [where w = v])

lemma hand_over_epoll_fd: "hand_over fd w ok s = Inr t \<Longrightarrow> epoll_fd (worker_at t v) = epoll_fd (worker_at s v)"
  by (auto simp: hand_over_def handle_write_error_def Let_def res_bind_eq_Inr decrement_clients_def
      split: if_splits dest!: send_InrD only_sends_state(3) [where w = v])

text \<open>A worker that has its epoll instance keeps it.\<close>

lemma epoll_stays:
  "fine_step x y \<Longrightarrow> epoll_fd (worker_at (server_of x) v) \<noteq> 0 \<Longrightarrow> epoll_fd (worker_at (server_of y) v) \<noteq> 0"
proof (induction rule: fine_step.induct)
  case (f_starts w cs s efd add_ok t m)
  then have "v \<noteq> w" by auto
  with f_starts start_kernel(1) [OF f_starts(4)] show ?case by simp
next
  case (f_continues w cs s c t m)
  with kernel_micro [OF f_continues(3)] show ?case by (simp add: kernel_kept_def)
qed (simp_all add: choose_epoll hand_over_epoll_fd kernel_begin(1))

text \<open>While the main thread waits for a semaphore, the semaphore does not lose anything.\<close>

lemma waiting_step:
  "fine_step x y \<Longrightarrow> fst x = Waiting fd v \<Longrightarrow>
    fst y = Accepting \<or> fst y = Waiting fd v \<and>
      new_client (worker_at (server_of x) v) \<le> new_client (worker_at (server_of y) v)"
proof (induction rule: fine_step.induct)
  case (f_continues w cs s c t m)
  with kernel_micro [OF f_continues(3)] show ?case by (simp add: kernel_kept_def)
qed (simp_all add: start_kernel(2) kernel_begin(2))

end
