(* ===== verification/Fairness.thy ===== *)
theory Fairness
  imports Kernel_Objects "HOL-Library.Product_Lexorder"
begin

text \<open>
  Infinite runs of the threads with blocking locks, and what fairness brings about in them: a lock that is
  taken is given back, a worker that is under way comes back to epoll, and a main thread that waits for a worker
  gets its semaphore. No socket answers \<open>EAGAIN\<close> for ever in these runs (\<open>stuck\<close> is empty).
\<close>

section \<open>Runs\<close>

text \<open>From a reachable state on; nothing need happen at a moment.\<close>

definition run_of_threads :: "(nat \<Rightarrow> config) \<Rightarrow> bool" where
  "run_of_threads r \<longleftrightarrow>
     (\<exists>reads. runs_reach {} reads (r 0) \<and> nothing_after_exit reads) \<and>
     (\<forall>n. r (Suc n) = r n \<or>
       (\<exists>i new. sched_step {} i new (r n) (r (Suc n)) \<and> nothing_after_exit new))"

text \<open>A thread has something that it can do by itself, when its locks are free.\<close>

definition pending :: "thread \<Rightarrow> config \<Rightarrow> bool" where
  "pending i c \<longleftrightarrow> todo c i \<noteq> [] \<or> (\<exists>y. drive i (now c) y)"

definition thread_moves :: "thread \<Rightarrow> config \<Rightarrow> config \<Rightarrow> bool" where
  "thread_moves i c d \<longleftrightarrow> (\<exists>new. sched_step {} i new c d)"

inductive eventfd_waits :: "nat \<Rightarrow> config \<Rightarrow> bool" where
  "todo c (Worker_thread w) = [] \<Longrightarrow> now c = (m, cs, s) \<Longrightarrow> cs w = Ready \<Longrightarrow>
    epoll_fd (worker_at s w) \<noteq> 0 \<Longrightarrow> efd_counter (worker_at s w) \<noteq> 0 \<Longrightarrow> eventfd_waits w c"

section \<open>Fairness\<close>

text \<open>The scheduler: a thread that can go on with what it has begun does.\<close>

definition plays_fairly :: "(nat \<Rightarrow> config) \<Rightarrow> bool" where
  "plays_fairly r \<longleftrightarrow> (\<forall>i n. (\<forall>m \<ge> n. \<exists>d. plays_next {} i (r m) d) \<longrightarrow> (\<exists>m \<ge> n. plays_next {} i (r m) (r (Suc m))))"

text \<open>The mutexes: if no lock is held for ever, no thread waits for one for ever.\<close>

definition locks_fairly :: "(nat \<Rightarrow> config) \<Rightarrow> thread \<Rightarrow> bool" where
  "locks_fairly r i \<longleftrightarrow>
     (\<forall>l j n. locked_by (r n) l = Some j \<longrightarrow> (\<exists>m \<ge> n. locked_by (r m) l \<noteq> Some j)) \<longrightarrow>
     (\<forall>n. (\<forall>m \<ge> n. pending i (r m)) \<longrightarrow> (\<exists>m \<ge> n. thread_moves i (r m) (r (Suc m))))"

text \<open>epoll is level triggered: a worker that comes back to it again and again with its eventfd readable is told
  of it at last.\<close>

definition polls_fairly :: "(nat \<Rightarrow> config) \<Rightarrow> nat \<Rightarrow> bool" where
  "polls_fairly r w \<longleftrightarrow> (\<forall>n. \<exists>m \<ge> n. eventfd_waits w (r m)) \<longrightarrow>
     (\<exists>n y. registers w (now (r n)) y \<and> enters (Worker_thread w) y (r n) (r (Suc n)))"

text \<open>The thread of the worker gets its epoll instance.\<close>

definition gets_started :: "(nat \<Rightarrow> config) \<Rightarrow> nat \<Rightarrow> bool" where
  "gets_started r w \<longleftrightarrow> (\<exists>n. epoll_fd (worker_at (server_of (now (r n))) w) \<noteq> 0)"

definition fair_run :: "(nat \<Rightarrow> config) \<Rightarrow> nat \<Rightarrow> bool" where
  "fair_run r w \<longleftrightarrow> plays_fairly r \<and> locks_fairly r Main_thread \<and> locks_fairly r (Worker_thread w) \<and>
     polls_fairly r w \<and> gets_started r w"

section \<open>Runs and single steps\<close>

lemma leads_to_by_measure:
  fixes f :: "nat \<Rightarrow> 'a :: wellorder"
  assumes keeps: "\<And>n. n0 \<le> n \<Longrightarrow> \<not> P n \<Longrightarrow> \<not> P (Suc n) \<Longrightarrow> f (Suc n) \<le> f n"
    and drops: "\<And>n. n0 \<le> n \<Longrightarrow> \<forall>m \<ge> n. \<not> P m \<Longrightarrow> \<exists>m \<ge> n. f (Suc m) < f m"
    and n: "n0 \<le> n"
  shows "\<exists>m \<ge> n. P m"
  using n
proof (induction "f n" arbitrary: n rule: less_induct)
  case less
  show ?case
  proof (rule ccontr)
    assume no: "\<not> (\<exists>m \<ge> n. P m)"
    then have never: "\<not> P m" if "n \<le> m" for m using that by blast
    from drops [OF less.prems] never obtain m where m: "n \<le> m" "f (Suc m) < f m" by blast
    have "f k \<le> f n" if "n \<le> k" for k
      using that
    proof (induction k rule: dec_induct)
      case (step k)
      with keeps [of k] never [of k] never [of "Suc k"] less.prems show ?case by simp
    qed simp
    with m have "f (Suc m) < f n" by (meson le_less_trans less_le_trans not_le)
    from less.hyps [OF this] less.prems m(1) no show False by (meson le_SucI le_trans)
  qed
qed

lemma run_reach:
  assumes "run_of_threads r"
  shows "\<exists>reads. runs_reach {} reads (r n) \<and> nothing_after_exit reads"
proof (induction n)
  case 0
  then show ?case using assms by (simp add: run_of_threads_def)
next
  case (Suc n)
  then obtain reads where reads: "runs_reach {} reads (r n)" "nothing_after_exit reads" by blast
  from assms consider "r (Suc n) = r n"
    | i new where "sched_step {} i new (r n) (r (Suc n))" "nothing_after_exit new"
    unfolding run_of_threads_def by blast
  then show ?case
  proof cases
    case 1
    with reads show ?thesis by auto
  next
    case 2
    with reads have "runs_reach {} (reads @ new) (r (Suc n))" "nothing_after_exit (reads @ new)"
      by (simp_all add: runs_reach.c_steps)
    then show ?thesis by blast
  qed
qed

lemma run_ok:
  assumes "run_of_threads r"
  shows "locks_ok (r n)" and "now (r n) = (m, cs, s) \<Longrightarrow> fine_inv (m, cs, s) \<and> names_ok s"
  using run_reach [OF assms, of n] runs_locks runs_inv by blast+

lemma run_cases:
  assumes "run_of_threads r"
  obtains "r (Suc n) = r n" | i where "thread_moves i (r n) (r (Suc n))"
  using assms unfolding run_of_threads_def thread_moves_def by metis

lemma acts_now: "plays_next stuck i c d \<Longrightarrow> now d = now c"
  by (auto simp: plays_next_def)

lemma acts_length: "plays_next stuck i c d \<Longrightarrow> length (todo d i) < length (todo c i)"
  by (auto simp: plays_next_def)

lemma moves_cases:
  assumes "thread_moves i c d"
  obtains "plays_next {} i c d" | y where "todo c i = []" "now d = y" "drive i (now c) y"
    | new y where "todo c i = []" "now d = y" "intake i new (now c) y"
  using assms unfolding thread_moves_def
  by (elim exE sched_step.cases own_move.cases) (auto simp: enters_def)

text \<open>A thread's point and its actions are its own.\<close>

lemma others_move:
  assumes "thread_moves i c d" and "i \<noteq> j"
  shows "todo d j = todo c j"
    and "j = Worker_thread w \<Longrightarrow> point_of (now d) w = point_of (now c) w"
    and "j = Main_thread \<Longrightarrow> fst (now d) = fst (now c)"
proof -
  have "todo d j = todo c j \<and> (j = Worker_thread w \<longrightarrow> point_of (now d) w = point_of (now c) w) \<and>
    (j = Main_thread \<longrightarrow> fst (now d) = fst (now c))"
  proof -
    from assms(1) obtain new where "sched_step {} i new c d" by (auto simp: thread_moves_def)
    then show ?thesis
      using assms(2)
      by (elim sched_step.cases own_move.cases)
        (auto simp: plays_next_def enters_def split: if_splits elim!: drive.cases intake.cases registers.cases)
  qed
  then show "todo d j = todo c j" "j = Worker_thread w \<Longrightarrow> point_of (now d) w = point_of (now c) w"
    "j = Main_thread \<Longrightarrow> fst (now d) = fst (now c)" by simp_all
qed

text \<open>A step on the run is a step of the system without locks, or none.\<close>

lemma run_fine:
  assumes "run_of_threads r"
  shows "now (r (Suc n)) = now (r n) \<or> fine_step (now (r n)) (now (r (Suc n)))"
proof -
  from assms consider "r (Suc n) = r n"
    | i new where "sched_step {} i new (r n) (r (Suc n))" "nothing_after_exit new"
    unfolding run_of_threads_def by blast
  then show ?thesis
  proof cases
    case 2
    then show ?thesis
      by (elim sched_step.cases own_move.cases) (auto simp: acts_now enters_def intro: drive_fine intake_fine)
  qed simp
qed

section \<open>Locks are given back\<close>

lemma locks_come_free:
  assumes r: "run_of_threads r" and fair: "plays_fairly r" and l: "locked_by (r n) l = Some j"
  shows "\<exists>m \<ge> n. locked_by (r m) l \<noteq> Some j"
proof (rule leads_to_by_measure [where f = "\<lambda>n. length (todo (r n) j)" and ?n0.0 = n])
  have busy: "todo (r k) j \<noteq> [] \<and> (\<exists>d. plays_next {} j (r k) d)" if "\<not> locked_by (r k) l \<noteq> Some j" for k
  proof -
    from that have k: "locked_by (r k) l = Some j" by simp
    from locks_okE [OF run_ok(1) [OF r, of k], of j] obtain h where
      h: "held h (todo (r k) j) = Some None" "\<forall>l. locked_by (r k) l = Some j \<longleftrightarrow> h = Some l" .
    with k have h': "held (Some l) (todo (r k) j) = Some None" by auto
    then obtain a as where a: "todo (r k) j = a # as" by (cases "todo (r k) j") auto
    with h' have "can_play {} (locked_by (r k)) a" by (cases a) auto
    with a show ?thesis by (simp add: plays_next_def)
  qed
  fix k
  show "length (todo (r (Suc k)) j) \<le> length (todo (r k) j)" if "\<not> locked_by (r k) l \<noteq> Some j"
    using r
  proof (cases rule: run_cases [where n = k])
    case (2 i)
    show ?thesis
    proof (cases "i = j")
      case True
      with 2 busy [OF that] show ?thesis by (auto elim!: moves_cases dest: acts_length)
    next
      case False
      from others_move(1) [OF 2 False] show ?thesis by simp
    qed
  qed simp
  show "\<exists>m \<ge> k. length (todo (r (Suc m)) j) < length (todo (r m) j)"
    if "\<forall>m \<ge> k. \<not> locked_by (r m) l \<noteq> Some j"
  proof -
    from that busy have "\<forall>m \<ge> k. \<exists>d. plays_next {} j (r m) d" by blast
    with fair obtain m where "k \<le> m" "plays_next {} j (r m) (r (Suc m))" unfolding plays_fairly_def by blast
    then show ?thesis by (blast dest: acts_length)
  qed
qed simp

lemma fair_moves:
  assumes "run_of_threads r" and "plays_fairly r" and "locks_fairly r i" and "\<forall>m \<ge> n. pending i (r m)"
  shows "\<exists>m \<ge> n. thread_moves i (r m) (r (Suc m))"
  using assms locks_come_free unfolding locks_fairly_def by blast

section \<open>A worker comes back to epoll\<close>

definition idle :: "nat \<Rightarrow> config \<Rightarrow> bool" where
  "idle w c \<longleftrightarrow> todo c (Worker_thread w) = [] \<and> point_of (now c) w = Ready"

definition left_to_do :: "nat \<Rightarrow> config \<Rightarrow> nat \<times> nat" where
  "left_to_do w c = (work (point_of (now c) w), length (todo c (Worker_thread w)))"

lemma worker_gets_on:
  assumes "thread_moves (Worker_thread w) c d" and "\<not> idle w c"
  shows "left_to_do w d < left_to_do w c"
  using assms(1)
proof (cases rule: moves_cases)
  case 1
  then show ?thesis by (simp add: left_to_do_def acts_now acts_length)
next
  case (2 y)
  with assms(2) have "point_of (now c) w \<noteq> Ready" by (simp add: idle_def)
  with 2(3) have "work (point_of y w) < work (point_of (now c) w)"
    by cases (auto elim: registers.cases dest: micro_work)
  with 2(2) show ?thesis by (simp add: left_to_do_def)
next
  case (3 new y)
  from 3(3) have "point_of (now c) w = Ready" by cases auto
  with 3(1) assms(2) show ?thesis by (simp add: idle_def)
qed

lemma worker_pending:
  assumes "now c = (m, cs, s)" and "fine_inv (m, cs, s)" "names_ok s"
    and "\<not> overruns c (Worker_thread w)" and "\<not> idle w c"
  shows "pending (Worker_thread w) c"
proof (cases "todo c (Worker_thread w) = []")
  case True
  with assms(1,5) have busy: "cs w \<noteq> Ready" by (simp add: idle_def)
  with fine_invD(4) [OF assms(2)] have "w < MAX_THREADS" by (meson not_le)
  have "\<nexists>e. micro w (cs w) s = Inl e"
    using micro_faults [OF assms(2,3)] assms(1,4) True by (blast intro: overruns.intros)
  then obtain d t where "micro w (cs w) s = Inr (d, t)" by (cases "micro w (cs w) s") auto
  with busy \<open>w < MAX_THREADS\<close> assms(1) show ?thesis
    by (auto simp: pending_def intro: drive.d_continues)
qed (simp add: pending_def)

lemma worker_comes_back:
  assumes r: "run_of_threads r" and fair: "fair_run r w"
    and sound: "\<And>n. \<not> overruns (r n) (Worker_thread w)"
  shows "\<exists>m \<ge> n. idle w (r m)"
proof (rule leads_to_by_measure [where f = "\<lambda>n. left_to_do w (r n)" and ?n0.0 = n])
  have pend: "pending (Worker_thread w) (r m)" if "\<not> idle w (r m)" for m
  proof -
    obtain a cs s where x: "now (r m) = (a, cs, s)" by (cases "now (r m)")
    from worker_pending [OF x _ _ sound that] run_ok(2) [OF r x] show ?thesis by blast
  qed
  fix k
  show "left_to_do w (r (Suc k)) \<le> left_to_do w (r k)" if "\<not> idle w (r k)"
    using r
  proof (cases rule: run_cases [where n = k])
    case (2 i)
    show ?thesis
    proof (cases "i = Worker_thread w")
      case True
      from worker_gets_on [OF 2 [unfolded True] that] show ?thesis by (rule less_imp_le)
    next
      case False
      from others_move(1,2) [OF 2 False] show ?thesis by (simp add: left_to_do_def)
    qed
  qed simp
  show "\<exists>m \<ge> k. left_to_do w (r (Suc m)) < left_to_do w (r m)" if "\<forall>m \<ge> k. \<not> idle w (r m)"
  proof -
    from that pend have "\<forall>m \<ge> k. pending (Worker_thread w) (r m)" by blast
    with fair_moves [OF r, of "Worker_thread w" k] fair obtain m where
      "k \<le> m" "thread_moves (Worker_thread w) (r m) (r (Suc m))" unfolding fair_run_def by blast
    with worker_gets_on that show ?thesis by blast
  qed
qed simp

section \<open>The main thread goes on\<close>

lemma waits_forever:
  assumes r: "run_of_threads r" and "fst (now (r 0)) = Waiting fd w"
    and never: "\<And>n. fst (now (r n)) \<noteq> Accepting"
  shows "fst (now (r n)) = Waiting fd w"
proof (induction n)
  case (Suc n)
  with run_fine [OF r, of n] waiting_step [of "now (r n)" "now (r (Suc n))" fd w] never [of "Suc n"]
  show ?case by auto
qed (rule assms(2))

lemma semaphore_stays:
  assumes r: "run_of_threads r" and wait: "\<And>n. fst (now (r n)) = Waiting fd w"
    and "n \<le> m" and "0 < new_client (worker_at (server_of (now (r n))) w)"
  shows "0 < new_client (worker_at (server_of (now (r m))) w)"
  using assms(3)
proof (induction m rule: dec_induct)
  case base
  then show ?case by (rule assms(4))
next
  case (step m)
  with run_fine [OF r, of m] waiting_step [of "now (r m)" "now (r (Suc m))" fd w] wait [of m] wait [of "Suc m"]
  show ?case by auto
qed

lemma started_stays:
  assumes r: "run_of_threads r"
    and "n \<le> m" and "epoll_fd (worker_at (server_of (now (r n))) w) \<noteq> 0"
  shows "epoll_fd (worker_at (server_of (now (r m))) w) \<noteq> 0"
  using assms(2)
proof (induction m rule: dec_induct)
  case base
  then show ?case by (rule assms(3))
next
  case (step m)
  with run_fine [OF r, of m] epoll_stays show ?case by metis
qed

text \<open>A free semaphore is taken.\<close>

lemma free_semaphore_taken:
  assumes r: "run_of_threads r" and fair: "fair_run r w" and wait: "\<And>n. fst (now (r n)) = Waiting fd w"
    and free: "0 < new_client (worker_at (server_of (now (r n))) w)"
  shows False
proof -
  have pend: "pending Main_thread (r m)" if "n \<le> m" for m
  proof -
    obtain cs s where x: "now (r m) = (Waiting fd w, cs, s)" using wait [of m] by (cases "now (r m)") auto
    have "0 < new_client (worker_at s w)" using semaphore_stays [OF r wait that free] x by simp
    with hand_over_returns [of fd w True s] x show ?thesis by (auto simp: pending_def intro: drive.d_resumes)
  qed
  have step: "length (todo (r (Suc m)) Main_thread) < length (todo (r m) Main_thread)"
    if "thread_moves Main_thread (r m) (r (Suc m))" for m
    using that
  proof (cases rule: moves_cases)
    case (2 y)
    from 2(3) have "fst y = Accepting" by (cases rule: drive.cases) (use wait [of m] in auto)
    with wait [of "Suc m"] 2(2) show ?thesis by simp
  next
    case (3 new y)
    from 3(3) have "fst (now (r m)) = Accepting" by cases auto
    with wait [of m] show ?thesis by simp
  qed (simp add: acts_length)
  have "\<exists>m \<ge> n. False"
  proof (rule leads_to_by_measure [where f = "\<lambda>n. length (todo (r n) Main_thread)" and ?n0.0 = n])
    fix k
    show "length (todo (r (Suc k)) Main_thread) \<le> length (todo (r k) Main_thread)"
      using r
    proof (cases rule: run_cases [where n = k])
      case (2 i)
      show ?thesis
      proof (cases "i = Main_thread")
        case True
        from step [OF 2 [unfolded True]] show ?thesis by simp
      next
        case False
        from others_move(1) [OF 2 False] show ?thesis by simp
      qed
    qed simp
    show "\<exists>m \<ge> k. length (todo (r (Suc m)) Main_thread) < length (todo (r m) Main_thread)" if "n \<le> k"
    proof -
      have "\<forall>m \<ge> k. pending Main_thread (r m)" using pend that by simp
      with fair_moves [OF r, of Main_thread k] fair obtain m where
        "k \<le> m" "thread_moves Main_thread (r m) (r (Suc m))" unfolding fair_run_def by blast
      with step show ?thesis by blast
    qed
  qed simp
  then show False by simp
qed

lemma registers_frees:
  assumes "registers w x y"
  shows "0 < new_client (worker_at (server_of y) w)"
  using assms
proof cases
  case (1 cs s add_ok c t m)
  from begin_register_frees [OF 1(6), of add_ok] 1 show ?thesis by auto
qed

lemma wait_is_over:
  assumes r: "run_of_threads r" and fair: "fair_run r w" and wait: "fst (now (r 0)) = Waiting fd w"
    and sound: "\<And>n. \<not> overruns (r n) (Worker_thread w)"
  shows "\<exists>n. fst (now (r n)) = Accepting"
proof (rule ccontr)
  assume "\<not> ?thesis"
  then have always: "fst (now (r n)) = Waiting fd w" for n using waits_forever [OF r wait] by blast
  have taken: "new_client (worker_at (server_of (now (r n))) w) = 0" for n
    using free_semaphore_taken [OF r fair always] by blast
  from fair obtain n0 where n0: "epoll_fd (worker_at (server_of (now (r n0))) w) \<noteq> 0"
    by (auto simp: fair_run_def gets_started_def)
  have "\<exists>m \<ge> n. eventfd_waits w (r m)" for n
  proof -
    from worker_comes_back [OF r fair sound] obtain m where m: "max n n0 \<le> m" "idle w (r m)" by blast
    obtain cs s where x: "now (r m) = (Waiting fd w, cs, s)" using always [of m] by (cases "now (r m)") auto
    have "epoll_fd (worker_at s w) \<noteq> 0" using started_stays [OF r _ n0, of m] m(1) x by simp
    moreover have "efd_counter (worker_at s w) \<noteq> 0"
      using wait_ends [of fd w cs s] run_ok(2) [OF r x] taken [of m] x by simp
    ultimately have "eventfd_waits w (r m)"
      using m(2) x by (intro eventfd_waits.intros [OF _ x]) (simp_all add: idle_def)
    with m(1) show ?thesis by (metis max.boundedE)
  qed
  with fair obtain n y where y: "registers w (now (r n)) y" and e: "enters (Worker_thread w) y (r n) (r (Suc n))"
    unfolding fair_run_def polls_fairly_def by blast
  from e have "now (r (Suc n)) = y" by (auto simp: enters_def)
  with registers_frees [OF y] have "0 < new_client (worker_at (server_of (now (r (Suc n)))) w)" by simp
  with taken [of "Suc n"] show False by simp
qed

end
