(* ===== verification/Room_Spec.thy ===== *)
theory Room_Spec
  imports Client_Facts
begin

text \<open>
  What the rooms promise, without arrays, slots and locks: every room that exists has a name and a
  set of members, every client is without a name, in the lobby or in one room. The operations of
  the server implement the operations on this hall.
\<close>

section \<open>The specification\<close>

datatype place = Unnamed | In_lobby | Sits_in nat

record hall =
  h_rooms :: "nat \<Rightarrow> (string \<times> cptr set) option"
  h_place :: "cptr \<Rightarrow> place"

text \<open>The least number of a room that does not exist.\<close>

definition free_number :: "hall \<Rightarrow> nat option" where
  "free_number h = first_index (\<lambda>i. h_rooms h i = None) 0 MAX_ROOMS"

definition spec_create :: "cptr \<Rightarrow> string \<Rightarrow> hall \<Rightarrow> hall" where
  "spec_create p name h =
     (if MAX_ROOM_NAME_LEN < length name then h
      else (case free_number h of
              None \<Rightarrow> h
            | Some i \<Rightarrow> h\<lparr>h_rooms := (h_rooms h)(i := Some (name, {p})),
                h_place := (h_place h)(p := Sits_in i)\<rparr>))"

definition spec_join :: "cptr \<Rightarrow> int \<Rightarrow> hall \<Rightarrow> hall" where
  "spec_join p number h =
     (if number < 0 \<or> int MAX_ROOMS \<le> number then h
      else (case h_rooms h (nat number) of
              None \<Rightarrow> h
            | Some (name, ps) \<Rightarrow>
                if card ps = MAX_CLIENTS_ROOM then h
                else h\<lparr>h_rooms := (h_rooms h)(nat number := Some (name, insert p ps)),
                  h_place := (h_place h)(p := Sits_in (nat number))\<rparr>))"

text \<open>A room without members ceases to exist.\<close>

definition spec_leave :: "cptr \<Rightarrow> place \<Rightarrow> hall \<Rightarrow> hall" where
  "spec_leave p to h =
     (case h_place h p of
        Sits_in i \<Rightarrow>
          h\<lparr>h_rooms := (h_rooms h)(i := (case h_rooms h i of
               None \<Rightarrow> None
             | Some (name, ps) \<Rightarrow> if ps - {p} = {} then None else Some (name, ps - {p}))),
            h_place := (h_place h)(p := to)\<rparr>
      | _ \<Rightarrow> h\<lparr>h_place := (h_place h)(p := to)\<rparr>)"

definition spec_message :: "cptr \<Rightarrow> string \<Rightarrow> hall \<Rightarrow> hall" where
  "spec_message p msg h =
     (let command = char_at msg 0; content = drop 2 msg in
      if command = CMD_EXIT then spec_leave p Unnamed h
      else (case h_place h p of
              Unnamed \<Rightarrow>
                if MAX_USERNAME_LEN < length content then h
                else h\<lparr>h_place := (h_place h)(p := In_lobby)\<rparr>
            | In_lobby \<Rightarrow>
                if command = CMD_ROOM_CREATE_REQUEST then spec_create p content h
                else if command = CMD_ROOM_JOIN_REQUEST then spec_join p (parse_room_number msg) h
                else h
            | Sits_in i \<Rightarrow>
                if command = CMD_ROOM_MESSAGE_SEND then h else spec_leave p In_lobby h))"

section \<open>The abstraction\<close>

definition room_of :: "server \<Rightarrow> nat \<Rightarrow> (string \<times> cptr set) option" where
  "room_of s i =
     (if i < MAX_ROOMS \<and> r_in_use (room_at s i)
      then Some (room_name (room_at s i), set (members_of s i)) else None)"

definition place_of :: "client \<Rightarrow> place" where
  "place_of c =
     (case cstate c of
        AWAITING_USERNAME \<Rightarrow> Unnamed
      | IN_CHAT_LOBBY \<Rightarrow> In_lobby
      | IN_CHAT_ROOM \<Rightarrow> Sits_in (nat (room_index c)))"

definition hall_of :: "server \<Rightarrow> hall" where
  "hall_of s = \<lparr>h_rooms = room_of s, h_place = (\<lambda>p. place_of (client_at s p))\<rparr>"

lemma hall_eqI:
  "h_rooms h = h_rooms h' \<Longrightarrow> h_place h = h_place h' \<Longrightarrow> (h :: hall) = h'"
  by (cases h; cases h') simp

lemma hall_simps [simp]:
  "h_rooms (hall_of s) = room_of s" "h_place (hall_of s) p = place_of (client_at s p)"
  by (simp_all add: hall_of_def)

lemma hall_updates [simp]:
  "h_place (hall_of (upd_client p f s)) = (h_place (hall_of s))(p := place_of (f (client_at s p)))"
  "h_place (hall_of (upd_room i g s)) = h_place (hall_of s)"
  "room_of (upd_client p f s) = room_of s"
  by (auto simp: hall_of_def room_of_def members_of_def)

lemma hall_cong:
  assumes "\<And>p. place_of (client_at t p) = place_of (client_at s p)" "\<And>i. room_at t i = room_at s i"
  shows "hall_of t = hall_of s"
  by (rule hall_eqI) (rule ext, simp add: hall_of_def room_of_def members_of_def assms)+

lemma hall_structs: "same_structs s t \<Longrightarrow> hall_of t = hall_of s"
  by (rule hall_cong) (simp_all add: same_structs_state)

lemma set_members: "i < MAX_ROOMS \<Longrightarrow> set (members_of s i) = {q. \<exists>k. sits s i k q}"
  by (auto simp: members_of_def List.map_filter_def sits_def) (metis (mono_tags) atLeastLessThan_iff bot_nat_0.extremum imageI mem_Collect_eq option.sel option.simps(3))+

lemma room_sits:
  "i < MAX_ROOMS \<Longrightarrow> r_in_use (room_at s i) \<Longrightarrow>
   room_of s i = Some (room_name (room_at s i), {q. \<exists>k. sits s i k q})"
  by (simp add: room_of_def set_members)

text \<open>A room stores a client once.\<close>

definition seated_once :: "server \<Rightarrow> bool" where
  "seated_once s \<longleftrightarrow> (\<forall>i k l q. sits s i k q \<longrightarrow> sits s i l q \<longrightarrow> k = l)"

lemma linked_seated: "linked s \<Longrightarrow> seated_once s"
  unfolding seated_once_def by (blast intro: linked_slot)

lemma card_members:
  assumes "seated_once s" and "i < MAX_ROOMS"
  shows "card {q. \<exists>k. sits s i k q} = member_count (room_at s i)"
proof -
  let ?K = "occupied non_null MAX_CLIENTS_ROOM (r_clients (room_at s i))"
  have K: "k \<in> ?K \<longleftrightarrow> (\<exists>q. sits s i k q)" for k
    using assms(2) by (auto simp: occupied_def sits_def non_null_def)
  have "bij_betw (\<lambda>k. the (r_clients (room_at s i) k)) ?K {q. \<exists>k. sits s i k q}"
    unfolding bij_betw_def
  proof
    show "inj_on (\<lambda>k. the (r_clients (room_at s i) k)) ?K"
    proof (rule inj_onI)
      fix k l assume "k \<in> ?K" "l \<in> ?K" "the (r_clients (room_at s i) k) = the (r_clients (room_at s i) l)"
      then obtain q where "sits s i k q" "sits s i l q" by (auto simp: K sits_def)
      then show "k = l" using assms(1) unfolding seated_once_def by blast
    qed
    show "(\<lambda>k. the (r_clients (room_at s i) k)) ` ?K = {q. \<exists>k. sits s i k q}"
    proof (intro equalityI subsetI)
      fix q assume "q \<in> {q. \<exists>k. sits s i k q}"
      then obtain k where "sits s i k q" by blast
      then have "k \<in> ?K" "q = the (r_clients (room_at s i) k)" by (auto simp: K sits_def)
      then show "q \<in> (\<lambda>k. the (r_clients (room_at s i) k)) ` ?K" by blast
    qed (auto simp: K sits_def)
  qed
  then show ?thesis by (simp add: slot_count_def bij_betw_same_card)
qed

text \<open>What each operation does, without a choice left open.\<close>

lemma create_exact:
  assumes "create_chat_room p s = Inr t"
  shows "if MAX_ROOM_NAME_LEN < length (drop 2 (current_msg (client_at s p))) then same_structs s t
    else (case first_index (\<lambda>j. \<not> r_in_use (room_at s j)) 0 MAX_ROOMS of
            None \<Rightarrow> same_structs s t
          | Some i \<Rightarrow> same_structs (open_room p (drop 2 (current_msg (client_at s p))) i s) t)"
  using assms
  by (auto simp: create_chat_room_def Let_def res_bind_eq_Inr dest: send_InrD same_structs_sends
      dest!: create_loop_structs split: if_splits)

lemma join_exact:
  assumes t: "join_chat_room p s = Inr t"
  defines "n \<equiv> parse_room_number (current_msg (client_at s p))"
  shows "if n < 0 \<or> int MAX_ROOMS \<le> n \<or> \<not> r_in_use (room_at s (nat n)) \<or>
      num_clients (room_at s (nat n)) = int MAX_CLIENTS_ROOM then same_structs s t
    else (case first_index (\<lambda>k. r_clients (room_at s (nat n)) k = None) 0 MAX_CLIENTS_ROOM of
            None \<Rightarrow> same_structs s t
          | Some k \<Rightarrow> same_structs (move_into p (nat n) (add_member p k (nat n) s)) t)"
proof (cases "n < 0 \<or> int MAX_ROOMS \<le> n \<or> \<not> r_in_use (room_at s (nat n)) \<or>
      num_clients (room_at s (nat n)) = int MAX_CLIENTS_ROOM")
  case True
  with join_structs [OF t] show ?thesis by (auto simp: n_def)
next
  case False
  let ?s1 = "emit (Lock (Room_lock (nat n))) s"
  from t False obtain m u where u: "enter_room p m (nat n) ?s1 = Inr u" and
    t': "t = emit (Unlock (Room_lock (nat n))) u"
    unfolding join_chat_room_def Let_def n_def [symmetric]
    by (auto simp: res_bind_eq_Inr split: if_split_asm)
  have "same_structs (move_into p (nat n) (add_member p k (nat n) s))
      (move_into p (nat n) (add_member p k (nat n) ?s1))" for k
    unfolding move_into_def add_member_def
    by (intro same_structs_upd) (simp add: structs.keep_refl)
  with enter_structs [OF u] False t' show ?thesis
    by (auto simp: structs.keep_refl split: option.splits intro: structs.keep_trans)
qed

section \<open>Refinement\<close>

lemma free_number_hall: "free_number (hall_of s) = first_index (\<lambda>j. \<not> r_in_use (room_at s j)) 0 MAX_ROOMS"
  unfolding free_number_def by (rule first_index_cong) (simp add: room_of_def)

lemma in_use_sits:
  "rooms_ok s \<Longrightarrow> i < MAX_ROOMS \<Longrightarrow> r_in_use (room_at s i) \<longleftrightarrow> (\<exists>k q. sits s i k q)"
  using member_slots.count_zero [of "r_clients (room_at s i)"]
  by (auto simp: rooms_ok_def room_ok_def sits_def non_null_def)

lemma hall_of_open:
  assumes ok: "rooms_ok s" and i: "i < MAX_ROOMS" "\<not> r_in_use (room_at s i)"
  shows "hall_of (open_room p n i s) =
    (hall_of s)\<lparr>h_rooms := (h_rooms (hall_of s))(i := Some (n, {p})),
       h_place := (h_place (hall_of s))(p := Sits_in i)\<rparr>"
proof (rule hall_eqI)
  have "\<not> sits s i k q" for k q using in_use_sits [OF ok i(1)] i(2) by blast
  then have "{q. \<exists>k. sits (open_room p n i s) i k q} = {p}"
    using i(1) by (auto simp: open_room_def sits_upd_room) (auto simp: sits_def split: if_splits)
  then show "h_rooms (hall_of (open_room p n i s)) = h_rooms ((hall_of s)\<lparr>h_rooms :=
      (h_rooms (hall_of s))(i := Some (n, {p})), h_place := (h_place (hall_of s))(p := Sits_in i)\<rparr>)"
    using i(1) room_sits [of i "open_room p n i s"]
    by (intro ext) (simp add: open_room_def, simp add: room_of_def members_of_def)
qed (simp add: open_room_def place_of_def)

lemma create_refines:
  assumes inv: "table_inv s" and t: "create_chat_room p s = Inr t"
  shows "hall_of t = spec_create p (drop 2 (current_msg (client_at s p))) (hall_of s)"
proof -
  have ok: "rooms_ok s" using inv by (simp add: table_inv_def)
  show ?thesis
  proof (cases "first_index (\<lambda>j. \<not> r_in_use (room_at s j)) 0 MAX_ROOMS")
    case None
    with create_exact [OF t] show ?thesis
      by (simp add: spec_create_def free_number_hall hall_structs split: if_splits)
  next
    case (Some i)
    with create_exact [OF t] hall_of_open [OF ok, of i p] first_index_bound [OF Some] show ?thesis
      by (auto simp: spec_create_def free_number_hall hall_structs split: if_splits)
  qed
qed

lemma hall_of_enter:
  assumes i: "i < MAX_ROOMS" "r_in_use (room_at s i)"
    and k: "k < MAX_CLIENTS_ROOM" "r_clients (room_at s i) k = None"
  shows "hall_of (move_into p i (add_member p k i s)) =
    (hall_of s)\<lparr>h_rooms := (h_rooms (hall_of s))(i := Some (room_name (room_at s i),
         insert p {q. \<exists>k. sits s i k q})),
       h_place := (h_place (hall_of s))(p := Sits_in i)\<rparr>"
proof (rule hall_eqI)
  let ?t = "move_into p i (add_member p k i s)"
  have "{q. \<exists>k. sits ?t i k q} = insert p {q. \<exists>k. sits s i k q}"
  proof -
    have "sits ?t i l q \<longleftrightarrow> (l = k \<and> q = p) \<or> sits s i l q" for l q
      using i k by (auto simp: move_into_def add_member_def sits_upd_room sits_def)
    then show ?thesis by auto
  qed
  then show "h_rooms (hall_of ?t) = h_rooms ((hall_of s)\<lparr>h_rooms := (h_rooms (hall_of s))(i :=
      Some (room_name (room_at s i), insert p {q. \<exists>k. sits s i k q})),
      h_place := (h_place (hall_of s))(p := Sits_in i)\<rparr>)"
    using i room_sits [of i ?t]
    by (intro ext) (simp add: move_into_def add_member_def, simp add: room_of_def members_of_def)
qed (simp add: move_into_def add_member_def place_of_def)

lemma join_refines:
  assumes ok: "rooms_ok s" and seats: "seated_once s" and t: "join_chat_room p s = Inr t"
  shows "hall_of t = spec_join p (parse_room_number (current_msg (client_at s p))) (hall_of s)"
proof -
  let ?n = "parse_room_number (current_msg (client_at s p))"
  let ?r = "room_at s (nat ?n)"
  show ?thesis
  proof (cases "?n < 0 \<or> int MAX_ROOMS \<le> ?n \<or> \<not> r_in_use ?r")
    case True
    then have "if ?n < 0 \<or> int MAX_ROOMS \<le> ?n then True else room_of s (nat ?n) = None"
      by (auto simp: room_of_def)
    then have "spec_join p ?n (hall_of s) = hall_of s"
      by (simp add: spec_join_def split: if_splits)
    moreover have "same_structs s t" using join_exact [OF t] True by (simp split: if_splits)
    ultimately show ?thesis by (simp add: hall_structs)
  next
    case False
    then have i: "nat ?n < MAX_ROOMS" "r_in_use ?r" by (auto simp: nat_less_iff)
    have ok: "room_ok ?r" using ok i(1) by (rule rooms_okD)
    have crd: "card {q. \<exists>k. sits s (nat ?n) k q} = member_count ?r"
      using seats i(1) by (rule card_members)
    show ?thesis
    proof (cases "member_count ?r = MAX_CLIENTS_ROOM")
      case True
      with join_exact [OF t] False ok crd show ?thesis
        by (simp add: spec_join_def hall_structs room_ok_def room_sits [OF i])
    next
      case no: False
      then have "member_count ?r < MAX_CLIENTS_ROOM"
        using member_slots.count_le [of "r_clients ?r"] by simp
      from member_slots.first_free_Some [OF this] obtain k where
        k: "first_index (\<lambda>k. r_clients ?r k = None) 0 MAX_CLIENTS_ROOM = Some k"
        by (auto simp: non_null_def)
      with join_exact [OF t] False ok no have
        "same_structs (move_into p (nat ?n) (add_member p k (nat ?n) s)) t"
        by (simp add: room_ok_def)
      with hall_of_enter [OF i] first_index_bound [OF k] False no crd show ?thesis
        by (simp add: hall_structs spec_join_def room_sits [OF i])
    qed
  qed
qed

lemma room_of_cong: "(\<And>i. room_at t i = room_at s i) \<Longrightarrow> room_of t = room_of s"
  by (rule ext) (simp add: room_of_def members_of_def)

text \<open>The rooms when \<open>p\<close> has left: a room without members ceases to exist.\<close>

definition without :: "cptr \<Rightarrow> (string \<times> cptr set) option \<Rightarrow> (string \<times> cptr set) option" where
  "without p r = (case r of None \<Rightarrow> None
     | Some (name, ps) \<Rightarrow> if ps - {p} = {} then None else Some (name, ps - {p}))"

lemma spec_leave_sits:
  "h_place h p = Sits_in i \<Longrightarrow> spec_leave p to h =
     h\<lparr>h_rooms := (h_rooms h)(i := without p (h_rooms h i)), h_place := (h_place h)(p := to)\<rparr>"
  by (simp add: spec_leave_def without_def)

lemma room_of_left:
  assumes l: "linked s" and ok: "rooms_ok s" and s: "sits s i k p"
  shows "room_of (upd_room i (room_left p) s) = (room_of s)(i := without p (room_of s i))"
proof
  let ?u = "upd_room i (room_left p) s"
  have i: "i < MAX_ROOMS" using s by (simp add: sits_def)
  have oku: "rooms_ok ?u" using ok i by (simp add: rooms_ok_upd_room room_ok_left rooms_okD)
  have use: "r_in_use (room_at s i)" using in_use_sits [OF ok i] s by blast
  have members: "{q. \<exists>k. sits ?u i k q} = {q. \<exists>k. sits s i k q} - {p}"
    using sits_left [OF l ok s] by auto
  have use': "r_in_use (room_at ?u i) \<longleftrightarrow> {q. \<exists>k. sits s i k q} - {p} \<noteq> {}"
    unfolding in_use_sits [OF oku i] using members by blast
  have nm: "r_in_use (room_at ?u i) \<Longrightarrow> room_name (room_at ?u i) = room_name (room_at s i)"
    by (auto simp: room_left_def Let_def split: option.splits if_splits)
  fix j
  show "room_of ?u j = ((room_of s)(i := without p (room_of s i))) j"
  proof (cases "j = i")
    case True
    show ?thesis
    proof (cases "r_in_use (room_at ?u i)")
      case u: True
      with room_sits [OF i u] True use' nm members show ?thesis
        by (simp add: without_def room_sits [OF i use])
    next
      case u: False
      then have "room_of ?u i = None" by (simp only: room_of_def) simp
      with True use' u show ?thesis by (simp add: without_def room_sits [OF i use])
    qed
  qed (simp add: room_of_def members_of_def)
qed

lemma leave_refines:
  assumes inv: "table_inv s" and room: "cstate (client_at s p) = IN_CHAT_ROOM"
    and t: "leave_room p (room_index (client_at s p)) s = Inr t"
  shows "hall_of (upd_client p f t) = spec_leave p (place_of (f (client_at s p))) (hall_of s)"
proof -
  have ok: "rooms_ok s" and l: "linked s" using inv by (simp_all add: table_inv_def)
  from linked_in_room [OF l room] obtain i k where
    ik: "sits s i k p" "room_index (client_at s p) = int i" "i < MAX_ROOMS" .
  let ?u = "upd_room i (room_left p) s"
  have st: "same_structs ?u t"
    using leave_structs [OF t [unfolded ik(2)]] by (simp only: leave_as_update)
  have place: "h_place (hall_of s) p = Sits_in i" using room ik(2) by (simp add: place_of_def)
  have "hall_of (upd_client p f t) = hall_of (upd_client p f ?u)"
    by (rule hall_structs [OF same_structs_upd(1) [OF st]])
  also have "\<dots> = spec_leave p (place_of (f (client_at s p))) (hall_of s)"
    unfolding spec_leave_sits [OF place]
    by (rule hall_eqI) (simp_all add: room_of_left [OF l ok ik(1)])
  finally show ?thesis .
qed

lemma disconnect_refines:
  assumes inv: "table_inv s" and t: "handle_client_disconnection p s = Inr t"
  shows "hall_of t = spec_leave p Unnamed (hall_of s)"
proof -
  have cleanup: "hall_of (cleanup_client p u) = hall_of (upd_client p (\<lambda>_. zero_client) u)" for u
    by (rule hall_cong) (simp_all add: cleanup_unfold)
  have zero: "place_of zero_client = Unnamed" by (simp add: place_of_def)
  show ?thesis
  proof (cases "cstate (client_at s p) = IN_CHAT_ROOM")
    case True
    with t obtain u where u: "leave_room p (room_index (client_at s p)) s = Inr u"
      "t = cleanup_client p u"
      by (auto simp: handle_client_disconnection_def res_bind_eq_Inr)
    from leave_refines [OF inv True u(1), of "\<lambda>_. zero_client"] show ?thesis
      by (simp add: u(2) cleanup zero)
  next
    case False
    with t have "t = cleanup_client p s" by (auto simp: handle_client_disconnection_def)
    moreover have "\<forall>i. place_of (client_at s p) \<noteq> Sits_in i"
      using False by (simp add: place_of_def split: client_state.splits)
    ultimately show ?thesis
      by (auto simp: cleanup spec_leave_def zero intro!: hall_eqI split: place.splits)
  qed
qed

lemma dispatch_refines:
  assumes inv: "table_inv s" and acc: "acceptable (client_at s p)" and t: "dispatch p s = Inr t"
  shows "hall_of t = spec_message p (current_msg (client_at s p)) (hall_of s)"
proof (cases "char_at (current_msg (client_at s p)) 0 = CMD_EXIT")
  case True
  with t disconnect_refines [OF inv] show ?thesis by (simp add: dispatch_def spec_message_def)
next
  case not_exit: False
  let ?c = "client_at s p"
  let ?cmd = "char_at (current_msg ?c) 0"
  show ?thesis
  proof (cases "cstate ?c")
    case AWAITING_USERNAME
    with t not_exit have h: "handle_awaiting_username p s = Inr t" by (simp add: dispatch_def)
    have "hall_of t = (if MAX_USERNAME_LEN < length (drop 2 (current_msg ?c)) then hall_of s
        else hall_of (upd_client p (\<lambda>c. c\<lparr>cname := drop 2 (current_msg ?c), cstate := IN_CHAT_LOBBY\<rparr>) s))"
      using h by (auto simp: handle_awaiting_username_def Let_def res_bind_eq_Inr c_store_eq_Inr
          intro!: hall_structs dest!: send_InrD same_structs_sends send_avail_rooms_structs)
    moreover have "hall_of (upd_client p (\<lambda>c. c\<lparr>cname := n, cstate := IN_CHAT_LOBBY\<rparr>) s) =
        (hall_of s)\<lparr>h_place := (h_place (hall_of s))(p := In_lobby)\<rparr>" for n
      by (rule hall_eqI) (simp_all add: place_of_def)
    ultimately show ?thesis
      using not_exit AWAITING_USERNAME by (simp add: spec_message_def Let_def place_of_def)
  next
    case IN_CHAT_LOBBY
    with t not_exit have h: "handle_in_chat_lobby p s = Inr t" by (simp add: dispatch_def)
    have place: "place_of ?c = In_lobby" using IN_CHAT_LOBBY by (simp add: place_of_def)
    from h consider (create) "?cmd = CMD_ROOM_CREATE_REQUEST" "create_chat_room p s = Inr t"
      | (join) "?cmd \<noteq> CMD_ROOM_CREATE_REQUEST" "?cmd = CMD_ROOM_JOIN_REQUEST" "join_chat_room p s = Inr t"
      | (other) "?cmd \<noteq> CMD_ROOM_CREATE_REQUEST" "?cmd \<noteq> CMD_ROOM_JOIN_REQUEST" "same_structs s t"
      by (auto simp: handle_in_chat_lobby_def Let_def structs.keep_refl split: if_splits
          dest: send_avail_rooms_structs)
    then show ?thesis
    proof cases
      case create
      with create_refines [OF inv] not_exit place show ?thesis by (simp add: spec_message_def Let_def)
    next
      case join
      have "rooms_ok s" "seated_once s" using inv by (simp_all add: table_inv_def linked_seated)
      with join join_refines not_exit place show ?thesis by (simp add: spec_message_def Let_def)
    next
      case other
      with not_exit place show ?thesis by (simp add: spec_message_def Let_def hall_structs)
    qed
  next
    case IN_CHAT_ROOM
    with t not_exit have h: "handle_in_chat_room p s = Inr t" by (simp add: dispatch_def)
    have place: "place_of ?c = Sits_in (nat (room_index ?c))" using IN_CHAT_ROOM by (simp add: place_of_def)
    show ?thesis
    proof (cases "?cmd = CMD_ROOM_MESSAGE_SEND")
      case True
      with h have "same_structs s t"
        by (auto simp: handle_in_chat_room_def Let_def res_bind_eq_Inr split: if_splits
            dest!: broadcast_InrD same_structs_sends)
      with True not_exit place show ?thesis by (simp add: spec_message_def Let_def hall_structs)
    next
      case False
      with h obtain u v where u: "leave_room p (room_index ?c) s = Inr u" and
        v: "send_message_to_client (client_fd (client_at u p)) CMD_ROOM_LEAVE_OK left_ok_text
          (emit (Lock (Room_lock (nat (room_index ?c)))) u) = Inr v" and
        t': "t = upd_client p (\<lambda>c. c\<lparr>cstate := IN_CHAT_LOBBY\<rparr>)
          (emit (Unlock (Room_lock (nat (room_index ?c)))) v)"
        by (auto simp: handle_in_chat_room_def Let_def res_bind_eq_Inr)
      have "same_structs u (emit (Unlock (Room_lock (nat (room_index ?c)))) v)"
        using same_structs_sends [OF send_InrD [OF v]] by simp
      then have "hall_of t = hall_of (upd_client p (\<lambda>c. c\<lparr>cstate := IN_CHAT_LOBBY\<rparr>) u)"
        unfolding t' by (intro hall_structs same_structs_upd)
      also have "\<dots> = spec_leave p In_lobby (hall_of s)"
        using leave_refines [OF inv IN_CHAT_ROOM u, of "\<lambda>c. c\<lparr>cstate := IN_CHAT_LOBBY\<rparr>"]
        by (simp add: place_of_def)
      finally show ?thesis using False not_exit place by (simp add: spec_message_def Let_def)
    qed
  qed
qed

section \<open>The states of a client\<close>

fun state_of :: "place \<Rightarrow> client_state" where
  "state_of Unnamed = AWAITING_USERNAME"
| "state_of In_lobby = IN_CHAT_LOBBY"
| "state_of (Sits_in i) = IN_CHAT_ROOM"

lemma state_of_place [simp]: "state_of (place_of c) = cstate c"
  by (simp add: place_of_def split: client_state.splits)

text \<open>How a message other than EXIT can change the state.\<close>

definition moves :: "(client_state \<times> client_state) set" where
  "moves = {(AWAITING_USERNAME, IN_CHAT_LOBBY), (IN_CHAT_LOBBY, IN_CHAT_ROOM), (IN_CHAT_ROOM, IN_CHAT_LOBBY)}"

lemma spec_leave_place: "h_place (spec_leave p to h) p = to"
  by (simp add: spec_leave_def split: place.splits)

lemma spec_message_moves:
  assumes "char_at msg 0 \<noteq> CMD_EXIT"
  shows "(state_of (h_place h p), state_of (h_place (spec_message p msg h) p)) \<in> Id \<union> moves"
  using assms
  by (cases "h_place h p")
    (auto simp: spec_message_def Let_def spec_create_def spec_join_def spec_leave_place moves_def
      split: option.splits)

end
