(* ===== verification/Client_Protocol.thy ===== *)
theory Client_Protocol
  imports Protocol
begin

text \<open>
  The client has its own copy of the header (\<open>client/protocol.h\<close>). Its macros as a table, and that they are
  those of the server's header, on which the definitions of \<open>Protocol\<close> rest.
\<close>

definition client_codes :: "(string \<times> char) list" where
  "client_codes =
    [(''CMD_EXIT'', CHR 0x01),
     (''CMD_USERNAME_SUBMIT'', CHR 0x02),
     (''CMD_ROOM_CREATE_REQUEST'', CHR 0x03),
     (''CMD_ROOM_LIST_REQUEST'', CHR 0x04),
     (''CMD_ROOM_JOIN_REQUEST'', CHR 0x05),
     (''CMD_LEAVE_ROOM'', CHR 0x06),
     (''CMD_ROOM_MESSAGE_SEND'', CHR 0x07),
     (''CMD_WELCOME_REQUEST'', CHR 0x16),
     (''CMD_ROOM_NOTIFY_JOINED'', CHR 0x17),
     (''CMD_ROOM_CREATE_OK'', CHR 0x18),
     (''CMD_ROOM_LIST_RESPONSE'', CHR 0x1A),
     (''CMD_ROOM_JOIN_OK'', CHR 0x1B),
     (''CMD_ROOM_MSG'', CHR 0x1C),
     (''CMD_ROOM_LEAVE_OK'', CHR 0x1D),
     (''ERR_ROOM_NAME_INVALID'', CHR 0x24),
     (''ERR_ROOM_CAPACITY_FULL'', CHR 0x25),
     (''ERR_ROOM_NOT_FOUND'', CHR 0x26),
     (''ERR_PROTOCOL_INVALID_STATE_CMD'', CHR 0x28),
     (''ERR_PROTOCOL_INVALID_FORMAT'', CHR 0x29),
     (''ERR_MSG_EMPTY_CONTENT'', CHR 0x2A),
     (''ERR_SERVER_FULL'', CHR 0x2B),
     (''ERR_CONNECTING'', CHR 0x2C),
     (''ERR_USERNAME_LENGTH'', CHR 0x2D)]"

definition client_limits :: "(string \<times> nat) list" where
  "client_limits =
    [(''MAX_USERNAME_LEN'', 32), (''MAX_ROOM_NAME_LEN'', 24), (''MAX_MESSAGE_LEN_TO_SERVER'', 132),
     (''MAX_MESSAGE_LEN_FROM_SERVER'', 24 * 50 + 256), (''MAX_CONTENT_LEN'', 128)]"

definition client_terminator :: string where "client_terminator = [CR, LF]"

lemma codes_agree:
  "filter (\<lambda>(n, v). n \<noteq> ''CMD_ROOM_NOTIFY_JOINED'') client_codes =
     [(''CMD_EXIT'', CMD_EXIT), (''CMD_USERNAME_SUBMIT'', CMD_USERNAME_SUBMIT),
      (''CMD_ROOM_CREATE_REQUEST'', CMD_ROOM_CREATE_REQUEST), (''CMD_ROOM_LIST_REQUEST'',
      CMD_ROOM_LIST_REQUEST), (''CMD_ROOM_JOIN_REQUEST'', CMD_ROOM_JOIN_REQUEST),
      (''CMD_LEAVE_ROOM'', CMD_LEAVE_ROOM), (''CMD_ROOM_MESSAGE_SEND'', CMD_ROOM_MESSAGE_SEND),
      (''CMD_WELCOME_REQUEST'', CMD_WELCOME_REQUEST), (''CMD_ROOM_CREATE_OK'',
      CMD_ROOM_CREATE_OK), (''CMD_ROOM_LIST_RESPONSE'', CMD_ROOM_LIST_RESPONSE),
      (''CMD_ROOM_JOIN_OK'', CMD_ROOM_JOIN_OK), (''CMD_ROOM_MSG'', CMD_ROOM_MSG),
      (''CMD_ROOM_LEAVE_OK'', CMD_ROOM_LEAVE_OK), (''ERR_ROOM_NAME_INVALID'',
      ERR_ROOM_NAME_INVALID), (''ERR_ROOM_CAPACITY_FULL'', ERR_ROOM_CAPACITY_FULL),
      (''ERR_ROOM_NOT_FOUND'', ERR_ROOM_NOT_FOUND), (''ERR_PROTOCOL_INVALID_STATE_CMD'',
      ERR_PROTOCOL_INVALID_STATE_CMD), (''ERR_PROTOCOL_INVALID_FORMAT'',
      ERR_PROTOCOL_INVALID_FORMAT), (''ERR_MSG_EMPTY_CONTENT'', ERR_MSG_EMPTY_CONTENT),
      (''ERR_SERVER_FULL'', ERR_SERVER_FULL), (''ERR_CONNECTING'', ERR_CONNECTING),
      (''ERR_USERNAME_LENGTH'', ERR_USERNAME_LENGTH)]"
  by (simp add: client_codes_def command_codes reply_codes)

lemma limits_agree:
  "client_limits =
    [(''MAX_USERNAME_LEN'', MAX_USERNAME_LEN), (''MAX_ROOM_NAME_LEN'', MAX_ROOM_NAME_LEN),
     (''MAX_MESSAGE_LEN_TO_SERVER'', MAX_MESSAGE_LEN_TO_SERVER),
     (''MAX_MESSAGE_LEN_FROM_SERVER'', MAX_MESSAGE_LEN_FROM_SERVER), (''MAX_CONTENT_LEN'', MAX_CONTENT_LEN)]"
  by (simp add: client_limits_def limits)

lemma terminators_agree: "client_terminator = MSG_TERMINATOR"
  by (simp add: client_terminator_def MSG_TERMINATOR_def)

text \<open>No two codes are equal, and none is a byte of the terminator or the NUL that ends a C string.\<close>

lemma codes_distinct: "distinct (List.map snd client_codes)"
  by (simp add: client_codes_def)

lemma codes_in_strings: "(n, v) \<in> set client_codes \<Longrightarrow> v \<noteq> NUL \<and> v \<noteq> CR \<and> v \<noteq> LF"
  by (auto simp: client_codes_def)

end
