(* ===== verification/Terminal_Interface.thy ===== *)
theory Terminal_Interface
  imports Prelude
begin

text \<open>
  The windows of the client (\<open>client/user_interface.c\<close>): where \<open>ui_init\<close> puts them for a terminal of
  a given size, and \<open>ui_cleanup\<close>. What the windows show is in \<open>Chat_Client\<close> (\<open>ui_msg_display\<close>,
  \<open>ui_input_prompt\<close>). ncurses is outside: the model keeps the sizes and positions it is asked for.
\<close>

section \<open>Windows\<close>

definition OUTPUT_WINDOW_HEIGHT :: int where [limits]: "OUTPUT_WINDOW_HEIGHT = 20"
definition INPUT_WINDOW_HEIGHT :: int where [limits]: "INPUT_WINDOW_HEIGHT = 3"

datatype window = Boarder_win | Output_win | Msg_win | Info_win | Input_win

text \<open>The arguments of \<open>newwin\<close> and \<open>derwin\<close>: lines, columns, first row, first column. The subwindows
  are placed relative to the border window, which starts in the corner of the screen.\<close>

record rect =
  r_lines :: int
  r_cols :: int
  r_row :: int
  r_col :: int

text \<open>The window pointers (None for NULL), the vertical lines drawn in the border window (row, column,
  length), and whether the terminal is in the mode of ncurses.\<close>

record screen =
  windows :: "window \<Rightarrow> rect option"
  vlines :: "(int \<times> int \<times> int) list"
  curses_mode :: bool

definition no_screen :: screen where
  "no_screen = \<lparr>windows = (\<lambda>_. None), vlines = [], curses_mode = False\<rparr>"

section \<open>The layout\<close>

text \<open>The conversions of \<open>screen_width * 0.2\<close> and \<open>screen_width * 0.5\<close> to \<open>int\<close>, for a width that
  is not negative: the doubles round to the quotient where it is exact, and are cut off elsewhere.\<close>

definition msg_width :: "int \<Rightarrow> int" where "msg_width w = w div 5"
definition info_width :: "int \<Rightarrow> int" where "info_width w = w div 2"
definition output_width :: "int \<Rightarrow> int" where
  "output_width w = w - info_width w - msg_width w - 4"

definition inner_height :: int where "inner_height = OUTPUT_WINDOW_HEIGHT - 2"

fun ui_rect :: "int \<Rightarrow> window \<Rightarrow> rect" where
  "ui_rect w Boarder_win = \<lparr>r_lines = OUTPUT_WINDOW_HEIGHT, r_cols = w, r_row = 0, r_col = 0\<rparr>"
| "ui_rect w Output_win = \<lparr>r_lines = inner_height, r_cols = output_width w, r_row = 1, r_col = 1\<rparr>"
| "ui_rect w Msg_win = \<lparr>r_lines = inner_height, r_cols = msg_width w, r_row = 1, r_col = output_width w + 2\<rparr>"
| "ui_rect w Info_win =
     \<lparr>r_lines = inner_height, r_cols = info_width w, r_row = 1, r_col = output_width w + msg_width w + 3\<rparr>"
| "ui_rect w Input_win = \<lparr>r_lines = INPUT_WINDOW_HEIGHT, r_cols = w, r_row = OUTPUT_WINDOW_HEIGHT, r_col = 0\<rparr>"

text \<open>\<open>ui_init\<close> for a screen of \<open>h\<close> rows and \<open>w\<close> columns; a terminal that is too small ends the
  process with \<open>exit (1)\<close>, after \<open>endwin\<close>.\<close>

definition ui_init :: "int \<Rightarrow> int \<Rightarrow> screen res" where
  "ui_init h w =
     (if h < OUTPUT_WINDOW_HEIGHT + INPUT_WINDOW_HEIGHT + 1 \<or> w < 6 then Inl Exit_failure
      else Inr \<lparr>windows = (\<lambda>x. Some (ui_rect w x)),
        vlines = [(1, output_width w + 1, inner_height),
                  (1, output_width w + msg_width w + 2, inner_height)],
        curses_mode = True\<rparr>)"

definition delwin :: "window \<Rightarrow> screen \<Rightarrow> screen" where
  "delwin x s = s\<lparr>windows := (windows s)(x := None)\<rparr>"

definition endwin :: "screen \<Rightarrow> screen" where
  "endwin s = s\<lparr>curses_mode := False\<rparr>"

text \<open>The subwindows go before the window they lie in.\<close>

definition ui_cleanup :: "screen \<Rightarrow> screen" where
  "ui_cleanup s =
     endwin (delwin Boarder_win (delwin Input_win (delwin Info_win (delwin Msg_win
       (delwin Output_win s)))))"

lemma ui_cleanup_all: "windows (ui_cleanup s) x = None" "\<not> curses_mode (ui_cleanup s)"
  by (cases x; simp add: ui_cleanup_def delwin_def endwin_def)
    (simp add: ui_cleanup_def endwin_def)

section \<open>What a layout has to satisfy\<close>

definition panes :: "window list" where "panes = [Output_win, Msg_win, Info_win]"

definition nonempty :: "rect \<Rightarrow> bool" where
  "nonempty r \<longleftrightarrow> 0 < r_lines r \<and> 0 < r_cols r"

definition inside :: "rect \<Rightarrow> rect \<Rightarrow> bool" where
  "inside r b \<longleftrightarrow> r_row b < r_row r \<and> r_row r + r_lines r < r_row b + r_lines b \<and>
     r_col b < r_col r \<and> r_col r + r_cols r < r_col b + r_cols b"

definition apart :: "rect \<Rightarrow> rect \<Rightarrow> bool" where
  "apart r b \<longleftrightarrow> r_row r + r_lines r \<le> r_row b \<or> r_row b + r_lines b \<le> r_row r \<or>
     r_col r + r_cols r \<le> r_col b \<or> r_col b + r_cols b \<le> r_col r"

definition clear_of :: "rect \<Rightarrow> int \<times> int \<times> int \<Rightarrow> bool" where
  "clear_of r v = (case v of (y, x, n) \<Rightarrow> x < r_col r \<or> r_col r + r_cols r \<le> x)"

text \<open>All windows have room, the panes lie inside the border and beside each other and the lines
  between them, and the input window is below, on the screen.\<close>

definition well_laid :: "int \<Rightarrow> int \<Rightarrow> screen \<Rightarrow> bool" where
  "well_laid h w s \<longleftrightarrow>
     (\<exists>rs. (\<forall>x. windows s x = Some (rs x) \<and> nonempty (rs x) \<and> r_col (rs x) + r_cols (rs x) \<le> w \<and>
              r_row (rs x) + r_lines (rs x) \<le> h) \<and>
           (\<forall>x \<in> set panes. inside (rs x) (rs Boarder_win) \<and> list_all (clear_of (rs x)) (vlines s) \<and>
              (\<forall>y \<in> set panes. x \<noteq> y \<longrightarrow> apart (rs x) (rs y))) \<and>
           apart (rs Boarder_win) (rs Input_win))"

lemma output_width_pos: "13 \<le> w \<Longrightarrow> 0 < output_width w"
  unfolding output_width_def info_width_def msg_width_def by presburger

lemma output_width_short: "w < 13 \<Longrightarrow> 0 \<le> w \<Longrightarrow> output_width w \<le> 0"
  unfolding output_width_def info_width_def msg_width_def by presburger

lemma widths_add: "output_width w + msg_width w + info_width w + 4 = w"
  by (simp add: output_width_def)

lemma all_windows: "(\<forall>x. P x) \<longleftrightarrow>
    P Boarder_win \<and> P Output_win \<and> P Msg_win \<and> P Info_win \<and> P Input_win"
  by (metis window.exhaust)

lemma wide_layout:
  assumes "24 \<le> h" and "13 \<le> w" and "ui_init h w = Inr s"
  shows "well_laid h w s"
proof -
  have w: "0 < output_width w" "0 < msg_width w" "0 < info_width w"
    using output_width_pos [OF assms(2)] assms(2) by (simp_all add: msg_width_def info_width_def)
  have s: "windows s = (\<lambda>x. Some (ui_rect w x))" "vlines s = [(1, output_width w + 1, inner_height),
      (1, output_width w + msg_width w + 2, inner_height)]"
    using assms by (auto simp: ui_init_def split: if_splits)
  note widths_add [of w]
  then show ?thesis
    unfolding well_laid_def
    by (intro exI [of _ "ui_rect w"])
      (use w assms(1,2) in \<open>simp add: s all_windows panes_def nonempty_def inside_def apart_def clear_of_def
        inner_height_def limits\<close>)
qed

lemma narrow_layout:
  assumes "w < 13" and "0 \<le> w" and "ui_init h w = Inr s"
  shows "\<not> well_laid h w s"
proof
  assume "well_laid h w s"
  then obtain r where "windows s Output_win = Some r" "nonempty r" unfolding well_laid_def by blast
  moreover have "windows s Output_win = Some (ui_rect w Output_win)"
    using assms(3) by (auto simp: ui_init_def split: if_splits)
  ultimately show False using output_width_short [OF assms(1,2)] by (auto simp: nonempty_def)
qed

end
