(* ===== verification/Chat_Client.thy ===== *)
theory Chat_Client
  imports Client_Protocol Terminal_Interface
begin

text \<open>
  The chat client (\<open>client/main.c\<close>): a thread that turns the lines a user types into messages to
  the server, and a thread that shows what the server sends and learns from it whether the user is
  in a room. The terminal library is outside: what \<open>wgetnstr\<close> reads is an argument, what is printed
  goes to a list. So is the socket: what \<open>recv\<close> returns and how much \<open>send\<close> takes are arguments.
\<close>

section \<open>State\<close>

record app =
  is_running :: bool
  is_in_room :: bool
  to_server :: string
  shown :: "(window \<times> string) list"
  prompt :: string
  closings :: nat

text \<open>The two flags are the globals of the program. \<open>to_server\<close> are the bytes the kernel has taken,
  \<open>shown\<close> and \<open>prompt\<close> what the windows hold, \<open>closings\<close> counts the calls of \<open>close\<close> on the socket.\<close>

abbreviation socket_open :: "app \<Rightarrow> bool" where
  "socket_open a \<equiv> closings a = 0"

abbreviation TAB :: char where "TAB \<equiv> CHR 0x09"

text \<open>\<open>ui_msg_display\<close>, with the text its format and arguments make.\<close>

definition ui_msg_display :: "window \<Rightarrow> string \<Rightarrow> app \<Rightarrow> app" where
  "ui_msg_display w str a = a\<lparr>shown := shown a @ [(w, str)]\<rparr>"

text \<open>\<open>ui_input_prompt\<close> writes over the line of the input window and clears the rest of it.\<close>

definition ui_input_prompt :: "string \<Rightarrow> app \<Rightarrow> app" where
  "ui_input_prompt str a = a\<lparr>prompt := str\<rparr>"

text \<open>One call of \<open>send\<close>: a negative answer ends the process, a short one is not followed up.\<close>

definition send_message :: "(string \<Rightarrow> int) \<Rightarrow> string \<Rightarrow> app \<Rightarrow> app res" where
  "send_message sends msg a =
     (let n = sends msg in
      if n < 0 then Inl Exit_failure else Inr (a\<lparr>to_server := to_server a @ take (nat n) msg\<rparr>))"

definition exit_client :: "app \<Rightarrow> app" where
  "exit_client a =
     (ui_msg_display Output_win ('' Exiting client'' @ [LF]) a)\<lparr>is_running := False, closings := Suc (closings a)\<rparr>"

section \<open>Formatting commands\<close>

record command_format =
  command :: string
  cmd_code :: char
  argc :: nat
  cformat :: string

text \<open>The table of the commands; \<open>%s\<close> in a format stands for the argument.\<close>

definition commands :: "command_format list" where
  "commands =
    [\<lparr>command = ''submit'', cmd_code = CHR 0x02, argc = 1, cformat = CHR 0x02 # '' %s'' @ [CR, LF]\<rparr>,
     \<lparr>command = ''/create'', cmd_code = CHR 0x03, argc = 1, cformat = CHR 0x03 # '' %s'' @ [CR, LF]\<rparr>,
     \<lparr>command = ''/join'', cmd_code = CHR 0x05, argc = 1, cformat = CHR 0x05 # '' %s'' @ [CR, LF]\<rparr>,
     \<lparr>command = ''/exit'', cmd_code = CHR 0x01, argc = 0, cformat = CHR 0x01 # '' dummy'' @ [CR, LF]\<rparr>,
     \<lparr>command = ''/msg'', cmd_code = CHR 0x07, argc = 1, cformat = CHR 0x07 # '' %s'' @ [CR, LF]\<rparr>,
     \<lparr>command = ''/leave'', cmd_code = CHR 0x06, argc = 0, cformat = CHR 0x06 # '' dummy'' @ [CR, LF]\<rparr>,
     \<lparr>command = ''/list'', cmd_code = CHR 0x04, argc = 0, cformat = CHR 0x04 # '' dummy'' @ [CR, LF]\<rparr>]"

definition snprintf :: "nat \<Rightarrow> string \<Rightarrow> string" where
  "snprintf n str = take (n - 1) str"

fun c_format :: "string \<Rightarrow> string option \<Rightarrow> string res" where
  "c_format (c # d # r) arg =
     (if c = CHR ''%'' \<and> d = CHR ''s'' then
        (case arg of
           None \<Rightarrow> Inl (Uninitialised Arg1_buf)
         | Some x \<Rightarrow> res_bind (c_format r arg) (\<lambda>t. Inr (x @ t)))
      else res_bind (c_format (d # r) arg) (\<lambda>t. Inr (c # t)))"
| "c_format str arg = Inr str"

text \<open>A conversion \<open>%s\<close> of \<open>sscanf\<close>: the next word, and what follows it.\<close>

definition scan_word :: "string \<Rightarrow> (string \<times> string) option" where
  "scan_word str =
     (let t = dropWhile c_isspace str in
      if t = [] then None
      else Some (takeWhile (\<lambda>c. \<not> c_isspace c) t, dropWhile (\<lambda>c. \<not> c_isspace c) t))"

text \<open>\<open>sscanf (input, "%s %s", cmd, arg1)\<close>.\<close>

definition scan_command :: "string \<Rightarrow> (string option \<times> string option) res" where
  "scan_command input =
     (case scan_word input of
        None \<Rightarrow> Inr (None, None)
      | Some (w, r) \<Rightarrow>
          res_bind (c_store Cmd_buf 512 w) (\<lambda>cmd.
            case scan_word r of
              None \<Rightarrow> Inr (Some cmd, None)
            | Some (v, _) \<Rightarrow>
                res_bind (c_store Arg1_buf MAX_CONTENT_LEN v) (\<lambda>arg1. Inr (Some cmd, Some arg1))))"

definition room_commands_text :: string where
  "room_commands_text =
     LF # '' Invalid command. Available commands while in a room:'' @ [LF, TAB] @ ''/leave, /exit.'' @ [LF]"
definition lobby_commands_text :: string where
  "lobby_commands_text =
     LF # '' Invalid command. Available commands while not in a room are:'' @ [LF, TAB] @
       ''/create, /join, /list, /exit.'' @ [LF]"
definition usage_text :: string where
  "usage_text = LF # '' Improper Usage. Type HELP for a list of commands.'' @ [LF]"

text \<open>The result is the message that was formatted, or None for \<open>return false\<close>.\<close>

definition handle_commands :: "string \<Rightarrow> nat \<Rightarrow> app \<Rightarrow> (string option \<times> app) res" where
  "handle_commands input out_size a =
     res_bind (scan_command input) (\<lambda>(cmd_read, arg1).
       case cmd_read of
         None \<Rightarrow> Inl (Uninitialised Cmd_buf)
       | Some cmd \<Rightarrow>
           let num_args = (case arg1 of None \<Rightarrow> 1 | Some _ \<Rightarrow> 2);
               found = find (\<lambda>f. cmd = command f) commands in
           if is_in_room a then
             if cmd = ''/leave'' \<or> cmd = ''/exit'' then
               (case found of
                  None \<Rightarrow> Inr (None, a)
                | Some f \<Rightarrow> res_bind (c_format (cformat f) arg1)
                    (\<lambda>str. Inr (Some (snprintf out_size str), a)))
             else Inr (None, ui_msg_display Output_win room_commands_text a)
           else
             if cmd = ''/create'' \<or> cmd = ''/join'' \<or> cmd = ''/list'' \<or> cmd = ''/exit'' then
               (case found of
                  None \<Rightarrow> Inr (None, a)
                | Some f \<Rightarrow>
                    if num_args - 1 = argc f then
                      res_bind (c_format (cformat f) arg1)
                        (\<lambda>str. Inr (Some (snprintf out_size str), a))
                    else Inr (None, ui_msg_display Output_win usage_text a))
             else Inr (None, ui_msg_display Output_win lobby_commands_text a))"

definition terminated_text :: string where
  "terminated_text = '' Server has terminated the connection.'' @ [LF] @
     ''No further commands can be processed.'' @ [LF]"
definition message_long_text :: string where
  "message_long_text = LF # '' Message too long please keep it under 128 characters'' @ [LF]"
definition invalid_input_text :: string where
  "invalid_input_text = ''Invalid input. type HELP for list of commands'' @ [LF]"

definition validate_and_format :: "string \<Rightarrow> nat \<Rightarrow> app \<Rightarrow> (string option \<times> app) res" where
  "validate_and_format input out_size a =
     (if \<not> is_running a then Inr (None, ui_msg_display Output_win terminated_text a)
      else if char_at input 0 = CHR ''/'' then handle_commands input out_size a
      else if is_in_room a then
        if MAX_CONTENT_LEN < length input then
          Inr (None, ui_msg_display Output_win message_long_text a)
        else
          res_bind (c_format (CHR 0x07 # '' %s'' @ [CR, LF]) (Some input))
            (\<lambda>str. Inr (Some (snprintf out_size str), a))
      else Inr (None, ui_msg_display Output_win invalid_input_text a))"

definition send_command :: "(string \<Rightarrow> int) \<Rightarrow> string \<Rightarrow> app \<Rightarrow> app res" where
  "send_command sends message a =
     (if length message = 0 then
        Inr (ui_msg_display Output_win ('' Invalid input. Command cannot be empty.'' @ [LF]) a)
      else
        res_bind (validate_and_format message MAX_MESSAGE_LEN_TO_SERVER a) (\<lambda>(output, b).
          case output of
            Some str \<Rightarrow> send_message sends str b
          | None \<Rightarrow>
              Inr (ui_msg_display Output_win ('' Failed to send command. Please retry'' @ [LF, LF]) b)))"

section \<open>The input thread\<close>

definition help_all_text :: string where
  "help_all_text =
     LF # '' List of commands:'' @ [LF, TAB] @
     ''/exit -this will allow you to close the client *NOT AVAILABLE WHEN ENTERING USERNAME*'' @ [LF, TAB] @
     ''/create '' @ [CHR 0x27] @ ''enter room name'' @ [CHR 0x27] @
     '' -this will allow you to create and enter a room'' @ [LF, TAB] @
     ''/list -this will allow you to view available rooms'' @ [LF, TAB] @
     ''/join '' @ [CHR 0x27] @ ''enter room NUMBER'' @ [CHR 0x27] @
     '' -this will allow you to join a room'' @ [LF, TAB] @
     ''/leave -this will allow you to leave a room'' @ [LF, LF] @
     '' For a list of commands available in a room or not in a room type HELP'' @ [LF]"

definition help_text :: string where
  "help_text =
     LF # '' List of commands available when NOT IN a room:'' @ [LF, TAB] @
     ''/exit , /create , /join '' @ [CHR 0x27] @ ''room #'' @ [CHR 0x27] @ '' , /list'' @ [LF] @
     '' List of commands available when IN a room:'' @ [LF, TAB] @ ''/exit , /leave'' @ [LF, LF]"

text \<open>\<open>wgetnstr (.., buf, n)\<close> delivers at most \<open>n\<close> characters (None for \<open>ERR\<close>) and puts a NUL
  after them, into a buffer of \<open>bytes\<close> bytes.\<close>

definition read_line :: "buffer \<Rightarrow> nat \<Rightarrow> nat \<Rightarrow> string \<Rightarrow> string res" where
  "read_line buf bytes n typed = c_store buf bytes (take n typed)"

definition strip_newline :: "string \<Rightarrow> string" where
  "strip_newline str = takeWhile (\<lambda>c. c \<noteq> LF) str"

text \<open>One round of the loop of \<open>handle_user_input\<close>: the prompt and the test of \<open>is_running\<close>, then what
  becomes of the line that is typed. The flag says whether the loop goes on.\<close>

definition input_line :: "(string \<Rightarrow> int) \<Rightarrow> string option \<Rightarrow> app \<Rightarrow> (bool \<times> app) res" where
  "input_line sends typed a =
     (case typed of
        None \<Rightarrow> Inr (False, ui_msg_display Output_win ('' Input error'' @ [LF]) a)
      | Some line \<Rightarrow>
          res_bind (read_line Command_buf MAX_CONTENT_LEN MAX_CONTENT_LEN line) (\<lambda>str.
          let cmd = strip_newline str in
          if length cmd = 0 then
            Inr (True, ui_msg_display Output_win ('' Invalid input, cannot be empty.'' @ [LF]) a)
          else if cmd = ''/exit'' then
            res_bind (send_command sends cmd a) (\<lambda>b. Inr (False, exit_client b))
          else if cmd = ''HELP!'' then Inr (True, ui_msg_display Output_win help_all_text a)
          else if cmd = ''HELP'' then Inr (True, ui_msg_display Output_win help_text a)
          else
            res_bind (send_command sends cmd a) (\<lambda>b.
              Inr (True,
                if is_in_room b then ui_msg_display Msg_win ('' You: '' @ cmd @ [LF]) b else b))))"

definition input_round :: "(string \<Rightarrow> int) \<Rightarrow> string option \<Rightarrow> app \<Rightarrow> (bool \<times> app) res" where
  "input_round sends typed a =
     (let b = ui_input_prompt ''> '' a in
      if \<not> is_running b then Inr (False, b) else input_line sends typed b)"

fun handle_user_input :: "(string \<Rightarrow> int) \<Rightarrow> string option list \<Rightarrow> app \<Rightarrow> app res" where
  "handle_user_input sends [] a = Inr a"
| "handle_user_input sends (x # xs) a =
     res_bind (input_round sends x a) (\<lambda>(again, b). if again then handle_user_input sends xs b else Inr b)"

section \<open>The user name\<close>

text \<open>What is wrong with a name, in the order of the tests; None when it passes them.\<close>

definition username_error :: "string \<Rightarrow> string option" where
  "username_error str =
     (if MAX_USERNAME_LEN - 1 < length str then
        Some (''Username too long. Maximum allowed is '' @ dec_digits (MAX_USERNAME_LEN - 1) @
          '' characters. Try again.'' @ [LF])
      else
        let name = strip_newline str in
        if length name = 0 then Some (''Username cannot be empty. Try again.'' @ [LF])
        else if list_ex c_isspace name then
          Some (''Username cannot contain spaces or whitespace. Try again.'' @ [LF])
        else if name = ''/exit'' \<or> name = ''HELP'' then
          Some (''Username cannot be '' @ [CHR 0x22] @ ''/exit'' @ [CHR 0x22] @ '' or '' @ [CHR 0x22] @
            ''HELP'' @ [CHR 0x22] @ ''. Try again.'' @ [LF])
        else None)"

text \<open>The loop reads lines until one passes; with no line left it waits (None).\<close>

definition username_prompt :: string where
  "username_prompt =
     ''Enter username (Must not contain spaces and be no more than 31 characters in length): ''"

fun get_username :: "(string \<Rightarrow> int) \<Rightarrow> string option list \<Rightarrow> app \<Rightarrow> app option res" where
  "get_username sends [] a = Inr None"
| "get_username sends (None # xs) a =
     get_username sends xs
       (ui_msg_display Output_win (''Error reading username. Try again.'' @ [LF])
         (ui_input_prompt username_prompt a))"
| "get_username sends (Some line # xs) a0 =
     (let a = ui_input_prompt username_prompt a0 in
     res_bind (read_line Username_buf MAX_USERNAME_LEN MAX_USERNAME_LEN line) (\<lambda>str.
       case username_error str of
         Some err \<Rightarrow> get_username sends xs (ui_msg_display Output_win err a)
       | None \<Rightarrow>
           let name = strip_newline str;
               b = ui_msg_display Output_win
                     ([TAB, LF, LF] @ ''Live Long And Prosper '' @ name @ [LF, LF]) a in
           res_bind (c_format (CHR 0x02 # '' %s'' @ [CR, LF]) (Some name)) (\<lambda>msg.
             res_bind (send_message sends (snprintf 256 msg) b) (\<lambda>c. Inr (Some c)))))"

section \<open>The receiving thread\<close>

definition set_in_room :: "bool \<Rightarrow> app \<Rightarrow> app" where
  "set_in_room b a = a\<lparr>is_in_room := b\<rparr>"

text \<open>The buffer holds the bytes of one \<open>recv\<close>, at least one; the command is the first byte, the
  text runs to the next NUL.\<close>

definition parse_server_msg :: "string \<Rightarrow> app \<Rightarrow> app" where
  "parse_server_msg buffer a =
     (let code = char_at buffer 0; content = cstr (drop 1 buffer) in
      if code = CMD_WELCOME_REQUEST then
        ui_msg_display Output_win
          ('' Server: Welcome request received. Please submit your username.'' @ [LF]) a
      else if code = CMD_ROOM_CREATE_OK then
        set_in_room True (ui_msg_display Output_win
          ('' Server: Room created successfully'' @ [LF] @ ''Please type a message:'' @ [LF]) a)
      else if code = CMD_ROOM_LIST_RESPONSE then
        ui_msg_display Output_win
          ('' Server: Room list received:'' @ [LF] @ content @ [LF]) a
      else if code = CMD_ROOM_JOIN_OK then
        set_in_room True (ui_msg_display Output_win
          ('' Server: Room joined successfully'' @ [LF] @ ''Please type a message:'' @ [LF]) a)
      else if code = CMD_ROOM_MSG then
        ui_msg_display Msg_win ('' '' @ filter (\<lambda>c. c \<noteq> CR) content) a
      else if code = CMD_ROOM_LEAVE_OK then
        set_in_room False (ui_msg_display Output_win ('' Server: You have left the room.'' @ [LF]) a)
      else ui_msg_display Output_win (LF # '' Server: '' @ content @ [LF]) a)"

datatype client_recv = Recv_bytes string | Recv_closed | Recv_error

definition recv_chunk :: "client_recv \<Rightarrow> app \<Rightarrow> (bool \<times> app) res" where
  "recv_chunk r a =
     (case r of
        Recv_error \<Rightarrow> Inl Exit_failure
      | Recv_closed \<Rightarrow>
          Inr (False, exit_client
            (ui_msg_display Output_win (''Server has terminated connection'' @ [LF]) a))
      | Recv_bytes bs \<Rightarrow>
          Inr (True, parse_server_msg (take (MAX_MESSAGE_LEN_FROM_SERVER - 1) bs) a))"

definition recv_round :: "client_recv \<Rightarrow> app \<Rightarrow> (bool \<times> app) res" where
  "recv_round r a = (if \<not> is_running a then Inr (False, a) else recv_chunk r a)"

fun receive_message :: "client_recv list \<Rightarrow> app \<Rightarrow> app res" where
  "receive_message [] a = Inr a"
| "receive_message (r # rs) a =
     res_bind (recv_round r a) (\<lambda>(again, b). if again then receive_message rs b else Inr b)"

section \<open>Start-up\<close>

definition info_text :: string where
  "info_text =
     '' Thank you for choosing the Quantum Chatroom as your chatroom of choice'' @ [LF] @
     '' The descriptive HELP message below can be shown at anytime by typing HELP!'' @ [LF] @
     help_all_text"

text \<open>
  \<open>main\<close> after the connection is made, up to the start of the two threads: the banner, the
  server's greeting (shown without its first byte, if \<open>recv\<close> delivers any), and the user name.
\<close>

definition client_start ::
    "(string \<Rightarrow> int) \<Rightarrow> string \<Rightarrow> string \<Rightarrow> client_recv \<Rightarrow> string option list \<Rightarrow> app \<Rightarrow> app option res" where
  "client_start sends server_ip port greeting lines a =
     (let b = ui_msg_display Info_win info_text
                (ui_msg_display Info_win
                  ([TAB] @ ''Connected to server at IP: '' @ server_ip @ '' PORT: '' @
                    signed_digits (c_atoi port) @ [LF]) a);
          c = (case greeting of
                 Recv_bytes bs \<Rightarrow>
                   ui_msg_display Info_win
                     (cstr (drop 1 (take (MAX_MESSAGE_LEN_FROM_SERVER - 1) bs)) @ [LF]) b
               | _ \<Rightarrow> b)
      in get_username sends lines c)"

section \<open>What displaying changes\<close>

lemma ui_fields [simp]:
  "is_in_room (ui_msg_display w str a) = is_in_room a"
  "is_running (ui_msg_display w str a) = is_running a"
  "to_server (ui_msg_display w str a) = to_server a"
  "closings (ui_msg_display w str a) = closings a"
  by (simp_all add: ui_msg_display_def)

lemma prompt_fields [simp]:
  "is_in_room (ui_input_prompt str a) = is_in_room a"
  "is_running (ui_input_prompt str a) = is_running a"
  "to_server (ui_input_prompt str a) = to_server a"
  "closings (ui_input_prompt str a) = closings a"
  by (simp_all add: ui_input_prompt_def)

lemma set_in_room_fields [simp]:
  "is_in_room (set_in_room b a) = b" "is_running (set_in_room b a) = is_running a"
  "to_server (set_in_room b a) = to_server a" "closings (set_in_room b a) = closings a"
  by (simp_all add: set_in_room_def)

lemma exit_fields [simp]:
  "is_in_room (exit_client a) = is_in_room a" "\<not> is_running (exit_client a)"
  "to_server (exit_client a) = to_server a" "closings (exit_client a) = Suc (closings a)"
  by (simp_all add: exit_client_def)

end
