(* ===== verification/Room_View.thy ===== *)
theory Room_View
  imports Client_Facts Chat_Client
begin

text \<open>
  What a client believes. The client learns from the first byte of a reply whether it is in a
  room; the server keeps that in the state of the client's slot. The replies to a message carry
  exactly the changes of the state, so a client that has seen them all is right.
\<close>

section \<open>The client's side\<close>

definition reply_effect :: "char \<Rightarrow> bool \<Rightarrow> bool" where
  "reply_effect code b =
     (if code = CMD_ROOM_CREATE_OK \<or> code = CMD_ROOM_JOIN_OK then True
      else if code = CMD_ROOM_LEAVE_OK then False else b)"

lemma parse_in_room:
  "is_in_room (parse_server_msg buffer a) = reply_effect (char_at buffer 0) (is_in_room a)"
  by (simp add: parse_server_msg_def Let_def reply_effect_def reply_codes)

text \<open>The frames for one socket, and what a client makes of a sequence of them.\<close>

definition frames_to :: "int \<Rightarrow> (int \<times> string) list \<Rightarrow> string list" where
  "frames_to fd fs = map snd (filter (\<lambda>f. fst f = fd) fs)"

text \<open>Two clients in use have different sockets.\<close>

definition sockets_differ :: "server \<Rightarrow> bool" where
  "sockets_differ s \<longleftrightarrow> (\<forall>p q. c_in_use (client_at s p) \<longrightarrow> c_in_use (client_at s q) \<longrightarrow>
     client_fd (client_at s p) = client_fd (client_at s q) \<longrightarrow> p = q)"

definition view :: "string list \<Rightarrow> bool \<Rightarrow> bool" where
  "view fs b = foldl (\<lambda>b f. reply_effect (char_at f 0) b) b fs"

lemma frames_to_simps [simp]:
  "frames_to fd [] = []" "frames_to fd (fs @ gs) = frames_to fd fs @ frames_to fd gs"
  "frames_to fd (f # fs) = (if fst f = fd then snd f # frames_to fd fs else frames_to fd fs)"
  by (simp_all add: frames_to_def)

lemma view_simps [simp]:
  "view [] b = b" "view (f # fs) b = view fs (reply_effect (char_at f 0) b)"
  "view (fs @ gs) b = view gs (view fs b)"
  by (simp_all add: view_def)

lemma char_at_frame [simp]: "char_at (frame code m) 0 = code"
  by (simp add: frame_def char_at_def)

text \<open>Replies that do not change what the client believes.\<close>

definition neutral :: "char \<Rightarrow> bool" where
  "neutral code \<longleftrightarrow> code \<noteq> CMD_ROOM_CREATE_OK \<and> code \<noteq> CMD_ROOM_JOIN_OK \<and> code \<noteq> CMD_ROOM_LEAVE_OK"

lemma neutral_effect [simp]: "neutral code \<Longrightarrow> reply_effect code b = b"
  by (simp add: neutral_def reply_effect_def)

lemma neutral_codes [simp]:
  "neutral CMD_ROOM_LIST_RESPONSE" "neutral CMD_ROOM_MSG" "neutral ERR_ROOM_NAME_INVALID"
  "neutral ERR_ROOM_CAPACITY_FULL" "neutral ERR_ROOM_NOT_FOUND"
  "neutral ERR_PROTOCOL_INVALID_STATE_CMD" "neutral ERR_PROTOCOL_INVALID_FORMAT"
  "neutral ERR_MSG_EMPTY_CONTENT" "neutral ERR_USERNAME_LENGTH" "neutral ERR_SERVER_FULL"
  "neutral ERR_CONNECTING" "neutral CMD_WELCOME_REQUEST"
  by (simp_all add: neutral_def reply_codes)

section \<open>The server's side\<close>

text \<open>
  \<open>informed p s t\<close>: the frames sent to \<open>p\<close> between the two states tell it the difference.
  \<open>follows p s t\<close>: moreover the step is one of the thread that serves \<open>p\<close>: no other client is changed,
  and every frame to another socket is one that changes no client's mind.
\<close>

definition in_room :: "server \<Rightarrow> cptr \<Rightarrow> bool" where
  "in_room s p \<longleftrightarrow> cstate (client_at s p) = IN_CHAT_ROOM"

definition informed :: "cptr \<Rightarrow> server \<Rightarrow> server \<Rightarrow> bool" where
  "informed p s t \<longleftrightarrow> client_fd (client_at t p) = client_fd (client_at s p) \<and>
     (\<exists>new. sent_frames (trace t) = sent_frames (trace s) @ new \<and>
        view (frames_to (client_fd (client_at s p)) new) (in_room s p) = in_room t p)"

definition own_or_neutral :: "int \<Rightarrow> (int \<times> string) list \<Rightarrow> bool" where
  "own_or_neutral fd new \<longleftrightarrow> (\<forall>f \<in> set new. fst f = fd \<or> neutral (char_at (snd f) 0))"

definition follows :: "cptr \<Rightarrow> server \<Rightarrow> server \<Rightarrow> bool" where
  "follows p s t \<longleftrightarrow> client_fd (client_at t p) = client_fd (client_at s p) \<and>
     (\<forall>q. q \<noteq> p \<longrightarrow> client_at t q = client_at s q) \<and>
     (\<exists>new. sent_frames (trace t) = sent_frames (trace s) @ new \<and>
        own_or_neutral (client_fd (client_at s p)) new \<and>
        view (frames_to (client_fd (client_at s p)) new) (in_room s p) = in_room t p)"

lemma own_or_neutral_simps [simp]:
  "own_or_neutral fd []"
  "own_or_neutral fd (f # fs) \<longleftrightarrow> (fst f = fd \<or> neutral (char_at (snd f) 0)) \<and> own_or_neutral fd fs"
  "own_or_neutral fd (fs @ gs) \<longleftrightarrow> own_or_neutral fd fs \<and> own_or_neutral fd gs"
  by (auto simp: own_or_neutral_def)

lemma view_others: "own_or_neutral fd new \<Longrightarrow> fd' \<noteq> fd \<Longrightarrow> view (frames_to fd' new) b = b"
proof (induction new arbitrary: b)
  case (Cons f fs)
  then have "own_or_neutral fd fs" "fst f = fd' \<Longrightarrow> neutral (char_at (snd f) 0)" by auto
  with Cons.IH Cons.prems(2) show ?case by (cases "fst f = fd'") simp_all
qed simp

interpretation inform: effect_preorder "informed p" for p
proof unfold_locales
  show "informed p s s" for s by (simp add: informed_def)
next
  fix s t u assume st: "informed p s t" and tu: "informed p t u"
  let ?fd = "client_fd (client_at s p)"
  from st obtain a where a: "client_fd (client_at t p) = ?fd"
    "sent_frames (trace t) = sent_frames (trace s) @ a"
    "view (frames_to ?fd a) (in_room s p) = in_room t p"
    unfolding informed_def by blast
  from tu a(1) obtain b where b: "client_fd (client_at u p) = ?fd"
    "sent_frames (trace u) = sent_frames (trace t) @ b"
    "view (frames_to ?fd b) (in_room t p) = in_room u p"
    unfolding informed_def by auto
  show "informed p s u"
    unfolding informed_def using a b by (intro conjI exI [of _ "a @ b"]) simp_all
qed

interpretation follow: effect_preorder "follows p" for p
proof unfold_locales
  show "follows p s s" for s by (simp add: follows_def)
next
  fix s t u assume st: "follows p s t" and tu: "follows p t u"
  let ?fd = "client_fd (client_at s p)"
  from st obtain a where a: "client_fd (client_at t p) = ?fd" "\<forall>q. q \<noteq> p \<longrightarrow> client_at t q = client_at s q"
    "sent_frames (trace t) = sent_frames (trace s) @ a" "own_or_neutral ?fd a"
    "view (frames_to ?fd a) (in_room s p) = in_room t p"
    unfolding follows_def by blast
  from tu a(1) obtain b where b: "client_fd (client_at u p) = ?fd" "\<forall>q. q \<noteq> p \<longrightarrow> client_at u q = client_at t q"
    "sent_frames (trace u) = sent_frames (trace t) @ b" "own_or_neutral ?fd b"
    "view (frames_to ?fd b) (in_room t p) = in_room u p"
    unfolding follows_def by auto
  show "follows p s u"
    unfolding follows_def using a b by (intro conjI exI [of _ "a @ b"]) simp_all
qed

lemma followsI:
  assumes "client_fd (client_at t p) = client_fd (client_at s p)"
    and "\<And>q. q \<noteq> p \<Longrightarrow> client_at t q = client_at s q"
    and "sent_frames (trace t) = sent_frames (trace s) @ new"
    and "own_or_neutral (client_fd (client_at s p)) new"
    and "view (frames_to (client_fd (client_at s p)) new) (in_room s p) = in_room t p"
  shows "follows p s t"
  using assms unfolding follows_def by blast

lemma follows_informed: "follows p s t \<Longrightarrow> informed p s t"
  unfolding follows_def informed_def by blast

lemma follows_others:
  assumes "follows q s t" and "p \<noteq> q" and "client_fd (client_at s p) \<noteq> client_fd (client_at s q)"
  shows "informed p s t"
proof -
  from assms(1,2) obtain new where "client_at t p = client_at s p"
    "sent_frames (trace t) = sent_frames (trace s) @ new" "own_or_neutral (client_fd (client_at s q)) new"
    unfolding follows_def by blast
  with view_others [OF this(3) assms(3)] show ?thesis by (auto simp: informed_def in_room_def)
qed

lemma informed_quiet:
  "client_fd (client_at t p) = client_fd (client_at s p) \<Longrightarrow> in_room t p = in_room s p \<Longrightarrow>
   sent_frames (trace t) = sent_frames (trace s) \<Longrightarrow> informed p s t"
  by (simp add: informed_def)

text \<open>A step that sends nothing and leaves the client where it is.\<close>

lemma follows_quiet:
  "client_fd (client_at t p) = client_fd (client_at s p) \<Longrightarrow> in_room t p = in_room s p \<Longrightarrow>
   (\<And>q. q \<noteq> p \<Longrightarrow> client_at t q = client_at s q) \<Longrightarrow>
   sent_frames (trace t) = sent_frames (trace s) \<Longrightarrow> follows p s t"
  by (rule followsI [where new = "[]"]) simp_all

lemma follows_emit [simp]:
  "(\<And>fd b n. act \<noteq> Send fd b n) \<Longrightarrow> follows p s (emit act s)"
  by (rule follows_quiet) (auto simp: in_room_def split: action.splits)

lemma follows_upd_room [simp]: "follows p s (upd_room i g s)"
  by (rule follows_quiet) (simp_all add: in_room_def)

lemma send_follows:
  assumes "neutral code"
  shows "res_all (follows p s) (send_message_to_client fd code m s)"
proof (rule res_allI)
  fix t assume t: "send_message_to_client fd code m s = Inr t"
  note same = only_sends_state [OF send_InrD [OF t]]
  show "follows p s t"
    by (rule followsI [OF _ _ res_allD [OF send_frames t]]) (simp_all add: same in_room_def assms)
qed

lemma view_broadcast: "view (frames_to fd (broadcast_frames m p s qs)) b = b"
  by (induction qs) (simp_all add: broadcast_frames_def)

lemma broadcast_neutral: "own_or_neutral fd (broadcast_frames m p s qs)"
  by (simp add: own_or_neutral_def broadcast_frames_def)

lemma broadcast_follows: "res_all (follows p s) (broadcast_message_in_room m i q s)"
proof (rule res_allI)
  fix t assume t: "broadcast_message_in_room m i q s = Inr t"
  note same = only_sends_state [OF broadcast_InrD [OF t]]
  from broadcast_loop_frames [OF t [unfolded broadcast_message_in_room_def]] show "follows p s t"
    by (rule followsI [rotated 2]) (simp_all add: same in_room_def view_broadcast broadcast_neutral)
qed

text \<open>A reply that tells the client where it now is, and the update that puts it there.\<close>

lemma tell_follows:
  assumes t: "send_message_to_client (client_fd (client_at s p)) code m s = Inr t"
    and "client_fd (f (client_at t p)) = client_fd (client_at t p)"
    and "reply_effect code b = (cstate (f (client_at t p)) = IN_CHAT_ROOM)"
    and "b = in_room s p"
  shows "follows p s (upd_client p f t)"
proof -
  note same = only_sends_state [OF send_InrD [OF t]]
  from res_allD [OF send_frames t] have
    "sent_frames (trace (upd_client p f t)) =
      sent_frames (trace s) @ [(client_fd (client_at s p), frame code m)]" by simp
  then show ?thesis
    by (rule followsI [rotated 2]) (use assms(2-4) in \<open>simp_all add: same in_room_def\<close>)
qed

section \<open>Every operation tells\<close>

lemma found_room_follows: "res_all (follows p s) (found_room p name success i s)"
proof (rule res_allI)
  fix t assume "found_room p name success i s = Inr t"
  then obtain u where
    u: "send_message_to_client (client_fd (client_at s p)) CMD_ROOM_CREATE_OK success
        (open_room p name i s) = Inr u" and t: "t = emit (Unlock (Room_lock i)) u"
    by (auto simp: found_room_def res_bind_eq_Inr c_store_eq_Inr)
  note same = only_sends_state [OF send_InrD [OF u]]
  have "sent_frames (trace t) =
      sent_frames (trace s) @ [(client_fd (client_at s p), frame CMD_ROOM_CREATE_OK success)]"
    using res_allD [OF send_frames u] by (simp add: t open_room_def)
  then show "follows p s t"
    by (rule followsI [rotated 2])
      (simp_all add: t same open_room_def in_room_def reply_effect_def)
qed

lemma create_loop_follows: "res_all (follows p s) (create_loop p name success i s)"
proof (induction p name success i s rule: create_loop.induct)
  case (1 p name success i s)
  let ?s1 = "emit (Lock (Room_lock i)) s"
  show ?case
  proof (cases "i < MAX_ROOMS")
    case False
    then show ?thesis by (subst create_loop.simps) (simp add: send_follows)
  next
    case True
    have "res_all (follows p ?s1) (found_room p name success i ?s1)" by (rule found_room_follows)
    then have found: "res_all (follows p s) (found_room p name success i ?s1)"
      by (rule follow.keep_after [rotated]) simp
    have "res_all (follows p s) (create_loop p name success (Suc i) (emit (Unlock (Room_lock i)) ?s1))"
      if "r_in_use (room_at s i)"
      by (rule follow.keep_after [OF _ 1 [OF True refl]], rule follow.keep_trans [of _ s ?s1])
        (use that in simp_all)
    with True found show ?thesis by (subst create_loop.simps) (simp add: Let_def)
  qed
qed

lemma create_follows: "res_all (follows p s) (create_chat_room p s)"
  by (simp add: create_chat_room_def Let_def follow.keep_bind_value send_follows create_loop_follows)

lemma send_avail_rooms_follows: "res_all (follows p s) (send_avail_rooms p s)"
proof (rule res_allI)
  fix t assume "send_avail_rooms p s = Inr t"
  then obtain acc avail u body where
    u: "list_loop 0 list_header False s = Inr (acc, avail, u)" and
    t: "send_message_to_client (client_fd (client_at u p)) CMD_ROOM_LIST_RESPONSE body u = Inr t"
    by (auto simp: send_avail_rooms_def res_bind_eq_Inr split: if_splits)
  have "follows p s u"
    by (rule follows_quiet) (simp_all add: same_structs_state [OF list_loop_structs [OF u]]
        list_loop_quiet [OF u] in_room_def)
  then show "follows p s t"
    by (rule follow.keep_trans) (rule res_allD [OF send_follows t], simp)
qed

lemma enter_follows: "res_all (follows p s) (enter_room p m i s)"
proof (cases "first_index (\<lambda>k. r_clients (room_at s i) k = None) 0 MAX_CLIENTS_ROOM")
  case None
  then show ?thesis by (simp add: enter_room_def follow.keep_refl)
next
  case (Some k)
  have add: "follows p s (add_member p k i s)" by (simp add: add_member_def)
  have "follows p t (move_into p i u)"
    if "send_message_to_client (client_fd (client_at t p)) CMD_ROOM_JOIN_OK joined_text t = Inr u"
    for t u
    unfolding move_into_def by (rule tell_follows [OF that]) (simp_all add: reply_effect_def)
  then have "res_all (follows p t)
      (res_bind (send_message_to_client (client_fd (client_at t p)) CMD_ROOM_JOIN_OK joined_text t)
        (\<lambda>u. Inr (move_into p i u)))" for t
    by (auto intro!: res_allI simp: res_bind_eq_Inr)
  with Some show ?thesis
    by (simp add: enter_room_def follow.keep_after [OF add] follow.keep_bind broadcast_follows)
qed

lemma section_follows:
  assumes "res_all (follows p (emit (Lock l) s)) m"
  shows "res_all (follows p s) (res_bind m (\<lambda>t. Inr (emit (Unlock l) t)))"
  by (rule follow.keep_after [of _ _ "emit (Lock l) s"], simp, rule follow.keep_bind [OF assms]) simp

lemma join_follows: "res_all (follows p s) (join_chat_room p s)"
  unfolding join_chat_room_def Let_def
  by (rule follow.keep_bind_value)
    (simp del: client_at_emit room_at_simps
      add: section_follows send_follows enter_follows client_at_emit [symmetric])

lemma leave_follows: "res_all (follows p s) (leave_room p ri s)"
proof (rule res_allI)
  fix t assume "leave_room p ri s = Inr t"
  then obtain m u where
    u: "broadcast_message_in_room m (nat ri) p
        (remove_member p (nat ri) (emit (Lock (Room_lock (nat ri))) s)) = Inr u" and
    t: "t = emit (Unlock (Room_lock (nat ri))) (clear_if_empty (nat ri) u)"
    by (auto simp: leave_room_def Let_def res_bind_eq_Inr split: if_splits)
  have 1: "follows p s (remove_member p (nat ri) (emit (Lock (Room_lock (nat ri))) s))"
    by (rule follows_quiet) (simp_all add: remove_member_def in_room_def split: option.splits)
  have 2: "follows p u t"
    by (rule follows_quiet) (simp_all add: t clear_if_empty_def in_room_def)
  show "follows p s t"
    by (rule follow.keep_trans [OF follow.keep_trans [OF 1 res_allD [OF broadcast_follows u]] 2])
qed

lemma awaiting_follows:
  assumes "\<not> in_room s p"
  shows "res_all (follows p s) (handle_awaiting_username p s)"
proof -
  have "follows p s (upd_client p (\<lambda>c. c\<lparr>cname := n, cstate := IN_CHAT_LOBBY\<rparr>) s)" for n
    by (rule follows_quiet) (use assms in \<open>simp_all add: in_room_def\<close>)
  then show ?thesis
    by (simp add: handle_awaiting_username_def Let_def send_follows follow.keep_bind_value
        follow.keep_after [OF _ send_avail_rooms_follows])
qed

lemma in_room_follows: "res_all (follows p s) (handle_in_chat_room p s)"
proof (rule res_allI)
  fix t assume t: "handle_in_chat_room p s = Inr t"
  let ?i = "nat (room_index (client_at s p))"
  let ?l = "Room_lock ?i"
  from t consider
      (say) m u where "broadcast_message_in_room m ?i p (emit (Lock ?l) s) = Inr u" "t = emit (Unlock ?l) u"
    | (leave) u v where "leave_room p (room_index (client_at s p)) s = Inr u"
        "send_message_to_client (client_fd (client_at u p)) CMD_ROOM_LEAVE_OK left_ok_text
          (emit (Lock ?l) u) = Inr v"
        "t = upd_client p (\<lambda>c. c\<lparr>cstate := IN_CHAT_LOBBY\<rparr>) (emit (Unlock ?l) v)"
    by (auto simp: handle_in_chat_room_def Let_def res_bind_eq_Inr split: if_splits)
  then show "follows p s t"
  proof cases
    case say
    have "res_all (follows p s) (res_bind (broadcast_message_in_room m ?i p (emit (Lock ?l) s))
        (\<lambda>t. Inr (emit (Unlock ?l) t)))"
      by (rule section_follows [OF broadcast_follows])
    with say show ?thesis by simp
  next
    case leave
    let ?u = "emit (Lock ?l) u"
    note same = only_sends_state [OF send_InrD [OF leave(2)]]
    have "sent_frames (trace t) = sent_frames (trace u) @
        [(client_fd (client_at u p), frame CMD_ROOM_LEAVE_OK left_ok_text)]"
      using res_allD [OF send_frames leave(2)] by (simp add: leave(3))
    then have "follows p u t"
      by (rule followsI [rotated 2])
        (simp_all add: leave(3) same in_room_def reply_effect_def reply_codes)
    with res_allD [OF leave_follows leave(1)] show ?thesis by (rule follow.keep_trans)
  qed
qed

lemma lobby_follows: "res_all (follows p s) (handle_in_chat_lobby p s)"
  by (simp add: handle_in_chat_lobby_def Let_def create_follows join_follows
      send_avail_rooms_follows follow.keep_refl)

lemma dispatch_follows:
  assumes "char_at (current_msg (client_at s p)) 0 \<noteq> CMD_EXIT"
  shows "res_all (follows p s) (dispatch p s)"
  using assms awaiting_follows [of s p] lobby_follows [of p s] in_room_follows [of p s]
  by (simp add: dispatch_def in_room_def split: client_state.splits)

lemma format_error_neutral: "format_error m = Some (code, str) \<Longrightarrow> neutral code"
  by (auto simp: format_error_def split: if_splits)

lemma validate_follows: "res_all (\<lambda>(b, t). follows p s t) (validate_msg_format p s)"
  by (auto intro!: res_allI simp: validate_msg_format_def res_bind_eq_Inr follow.keep_refl
      split: option.splits dest!: format_error_neutral intro: res_allD [OF send_follows])

lemma state_valid_follows: "res_all (\<lambda>(b, t). follows p s t) (command_valid_for_state p s)"
  by (auto intro!: res_allI simp: command_valid_for_state_def Let_def res_bind_eq_Inr follow.keep_refl
      split: option.splits intro: res_allD [OF send_follows [OF neutral_codes(6)]])

lemma route_follows:
  assumes no_exit: "\<not> is_exit (current_msg (client_at s p))"
    and t: "route_client_command p s = Inr t"
  shows "follows p s t"
proof -
  from t obtain b u where v: "validate_msg_format p s = Inr (b, u)" and
    rest: "(if \<not> b then Inr u else res_bind (command_valid_for_state p u)
      (\<lambda>(allowed, u). if \<not> allowed then Inr u else dispatch p u)) = Inr t"
    by (auto simp: route_client_command_def res_bind_eq_Inr)
  have u: "follows p s u" using res_allD [OF validate_follows v] by simp
  show ?thesis
  proof (cases b)
    case False
    with u rest show ?thesis by simp
  next
    case True
    with validate_cases [OF v] have su: "u = s" "format_error (current_msg (client_at s p)) = None"
      by auto
    from rest True su obtain a w where w: "command_valid_for_state p s = Inr (a, w)" and
      d: "(if \<not> a then Inr w else dispatch p w) = Inr t"
      by (auto simp: res_bind_eq_Inr)
    have "follows p s w" using res_allD [OF state_valid_follows w] by simp
    moreover have "follows p s t" if a
    proof -
      have "w = s" using state_valid_cases [OF w] that by simp
      moreover have "char_at (current_msg (client_at s p)) 0 \<noteq> CMD_EXIT"
        using no_exit su(2) by (simp add: is_exit_def)
      ultimately show ?thesis using d that res_allD [OF dispatch_follows] by simp
    qed
    ultimately show ?thesis using d by (auto split: if_splits)
  qed
qed

text \<open>Reading: as long as no message is an EXIT.\<close>

function no_exit :: "string \<Rightarrow> string \<Rightarrow> bool" where
  "no_exit pending temp =
     (case split_crlf temp of
        None \<Rightarrow> True
      | Some (seg, rest) \<Rightarrow> \<not> is_exit (pending @ seg) \<and> no_exit [] rest)"
  by pat_completeness auto
termination
  by (relation "measure (\<lambda>(pending, temp). length temp)") (auto dest: split_crlf_length)

declare no_exit.simps [simp del]

lemma buffer_follows: "follows p s (upd_client p (\<lambda>c. c\<lparr>current_msg := m\<rparr>) s)"
  by (rule follows_quiet) (simp_all add: in_room_def)

lemma process_follows:
  assumes "no_exit (current_msg (client_at s p)) temp" and "process_messages p temp s = Inr t"
  shows "follows p s t"
  using assms
proof (induction "length temp" arbitrary: temp s rule: less_induct)
  case less
  show ?case
  proof (cases "split_crlf temp")
    case None
    with less.prems(2) show ?thesis
      by (subst (asm) process_messages.simps)
        (auto simp: append_msg_def res_bind_eq_Inr buffer_follows follow.keep_refl split: if_splits)
  next
    case (Some x)
    obtain seg rest where x: "x = (seg, rest)" by (cases x)
    let ?m = "current_msg (client_at s p) @ seg"
    let ?s1 = "upd_client p (\<lambda>c. c\<lparr>current_msg := ?m\<rparr>) s"
    from less.prems(2) Some x obtain s2 where
      s2: "route_client_command p ?s1 = Inr s2" and
      t: "process_messages p rest (clear_msg p s2) = Inr t"
      by (subst (asm) process_messages.simps)
        (auto simp: append_msg_def res_bind_eq_Inr c_store_eq_Inr)
    from less.prems(1) Some x have e: "\<not> is_exit ?m" "no_exit [] rest"
      by (subst (asm) no_exit.simps, simp)+
    have "follows p ?s1 s2" by (rule route_follows [OF _ s2]) (simp add: e(1))
    then have "follows p s (clear_msg p s2)"
      unfolding clear_msg_def by (blast intro: follow.keep_trans buffer_follows)
    moreover have "follows p (clear_msg p s2) t"
      using less.hyps [of rest "clear_msg p s2"] split_crlf_length Some x t e(2)
      by (simp add: clear_msg_def)
    ultimately show ?thesis by (rule follow.keep_trans)
  qed
qed

end
