(* ===== verification/Client_Messages.thy ===== *)
theory Client_Messages
  imports Chat_Client Client_State
begin

text \<open>
  The client's messages at the server's end: what \<open>validate_and_format\<close> lets through is a frame
  whose content has the format the server asks for and whose command fits the state the client
  takes itself to be in.
\<close>

section \<open>Formats\<close>

lemma format_arg:
  "ch \<noteq> CHR ''%'' \<Longrightarrow> c_format (ch # '' %s'' @ [CR, LF]) (Some x) = Inr (frame ch x)"
  by (simp add: frame_def MSG_TERMINATOR_def)

lemma format_dummy:
  "ch \<noteq> CHR ''%'' \<Longrightarrow> c_format (ch # '' dummy'' @ [CR, LF]) arg = Inr (frame ch ''dummy'')"
  by (simp add: frame_def MSG_TERMINATOR_def)

lemma snprintf_frame: "length x + 4 < n \<Longrightarrow> snprintf n (frame ch x) = frame ch x"
  by (simp add: snprintf_def)

section \<open>Words\<close>

text \<open>A word is not empty and holds no white space.\<close>

definition is_word :: "string \<Rightarrow> bool" where
  "is_word w \<longleftrightarrow> w \<noteq> [] \<and> (\<forall>c \<in> set w. \<not> c_isspace c)"

lemma scan_word_is_word: "scan_word str = Some (w, r) \<Longrightarrow> is_word w"
  by (auto simp: scan_word_def is_word_def Let_def takeWhile_eq_Nil_iff dropWhile_eq_Nil_conv
      dest: set_takeWhileD split: if_splits) (metis dropWhile_eq_Nil_conv hd_dropWhile)

lemma scan_command_arg:
  "scan_command input = Inr (c, Some w) \<Longrightarrow> is_word w \<and> length w < MAX_CONTENT_LEN"
  by (auto simp: scan_command_def res_bind_eq_Inr c_store_eq_Inr split: option.splits)
    (rule scan_word_is_word)

section \<open>What is sent\<close>

definition room_request :: "char \<Rightarrow> string \<Rightarrow> bool" where
  "room_request code content \<longleftrightarrow>
     (code = CMD_LEAVE_ROOM \<or> code = CMD_EXIT) \<and> content = ''dummy''"

definition lobby_request :: "char \<Rightarrow> string \<Rightarrow> bool" where
  "lobby_request code content \<longleftrightarrow>
     (code = CMD_ROOM_CREATE_REQUEST \<or> code = CMD_ROOM_JOIN_REQUEST) \<and>
       is_word content \<and> length content < MAX_CONTENT_LEN \<or>
     (code = CMD_ROOM_LIST_REQUEST \<or> code = CMD_EXIT) \<and> content = ''dummy''"

lemma handle_commands_Some:
  assumes "handle_commands input MAX_MESSAGE_LEN_TO_SERVER a = Inr (Some m, b)"
  obtains code content where "b = a" "m = frame code content"
    "if is_in_room a then room_request code content else lobby_request code content"
proof -
  from assms obtain cmd arg where scan: "scan_command input = Inr (Some cmd, arg)"
    by (auto simp: handle_commands_def res_bind_eq_Inr split: option.splits)
  show thesis
  proof (cases "is_in_room a")
    case True
    from assms scan True that [of CMD_LEAVE_ROOM "''dummy''"] that [of CMD_EXIT "''dummy''"] show thesis
      by (auto simp: handle_commands_def commands_def room_request_def command_codes limits
          frame_def MSG_TERMINATOR_def snprintf_def split: if_splits option.splits)
  next
    case False
    from assms scan False scan_command_arg [of input "Some cmd"]
      that [of CMD_LEAVE_ROOM "''dummy''"] that [of CMD_EXIT "''dummy''"]
      that [of CMD_ROOM_LIST_REQUEST "''dummy''"] that [of CMD_ROOM_CREATE_REQUEST "the arg"]
      that [of CMD_ROOM_JOIN_REQUEST "the arg"]
    show thesis
      by (auto simp: handle_commands_def commands_def lobby_request_def command_codes limits
          frame_def MSG_TERMINATOR_def snprintf_def split: if_splits option.splits)
  qed
qed

section \<open>What the server makes of it\<close>

text \<open>The client's flag and the state of its slot on the server agree.\<close>

definition in_step :: "app \<Rightarrow> client_state \<Rightarrow> bool" where
  "in_step a st \<longleftrightarrow> st \<noteq> AWAITING_USERNAME \<and> (is_in_room a \<longleftrightarrow> st = IN_CHAT_ROOM)"

definition good_request :: "char \<Rightarrow> string \<Rightarrow> app \<Rightarrow> bool" where
  "good_request code content a \<longleftrightarrow>
     LF \<notin> set content \<and> format_error (code # SPACE # content) = None \<and>
     (\<forall>st. in_step a st \<longrightarrow> state_error st code = None)"

definition is_command :: "char \<Rightarrow> bool" where
  "is_command code \<longleftrightarrow> code \<in> set [CMD_EXIT, CMD_USERNAME_SUBMIT, CMD_ROOM_CREATE_REQUEST,
     CMD_ROOM_LIST_REQUEST, CMD_ROOM_JOIN_REQUEST, CMD_LEAVE_ROOM, CMD_ROOM_MESSAGE_SEND]"

lemma format_ok:
  assumes "is_command code" and "length content \<le> MAX_CONTENT_LEN"
    and "dropWhile (\<lambda>c. c = SPACE) content \<noteq> []"
  shows "format_error (code # SPACE # content) = None"
proof -
  have "content \<noteq> []" using assms(3) by auto
  moreover have "\<not> char_val code < char_val CMD_EXIT \<and> \<not> char_val CMD_ROOM_MESSAGE_SEND < char_val code"
    using assms(1) by (auto simp: is_command_def command_codes char_val_def)
  ultimately show ?thesis
    using assms by (cases content) (simp_all add: format_error_def char_at_def)
qed

lemma isspace_codes: "c_isspace SPACE" "c_isspace LF"
  by (simp_all add: c_isspace_def)

lemma word_not_blank:
  assumes "is_word w"
  shows "dropWhile (\<lambda>c. c = SPACE) w \<noteq> []" "LF \<notin> set w"
proof -
  have no: "c \<in> set w \<Longrightarrow> \<not> c_isspace c" for c using assms by (simp add: is_word_def)
  show "LF \<notin> set w" using no isspace_codes(2) by blast
  obtain c v where w: "w = c # v" using assms by (cases w) (simp_all add: is_word_def)
  have "c \<noteq> SPACE" using no [of c] w isspace_codes(1) by auto
  then show "dropWhile (\<lambda>c. c = SPACE) w \<noteq> []" by (simp add: w)
qed

lemma dummy_word: "is_word ''dummy''" "length ''dummy'' < MAX_CONTENT_LEN"
  by (auto simp: is_word_def c_isspace_def limits)

lemma request_good:
  assumes "if is_in_room a then room_request code content else lobby_request code content"
  shows "good_request code content a"
proof -
  have w: "is_word content \<and> length content < MAX_CONTENT_LEN"
    using assms dummy_word by (auto simp: room_request_def lobby_request_def split: if_splits)
  have c: "is_command code"
    using assms by (auto simp: room_request_def lobby_request_def is_command_def split: if_splits)
  have "state_error st code = None" if "in_step a st" for st
    using assms that
    by (cases st; cases "is_in_room a")
      (auto simp: in_step_def state_error_def room_request_def lobby_request_def command_codes)
  moreover note word_not_blank [of content] format_ok [OF c, of content]
  ultimately show ?thesis using w by (simp add: good_request_def)
qed

lemma validate_Some:
  assumes "validate_and_format input MAX_MESSAGE_LEN_TO_SERVER a = Inr (Some m, b)"
    and "length input < MAX_CONTENT_LEN" and "LF \<notin> set input"
    and "dropWhile (\<lambda>c. c = SPACE) input \<noteq> []"
  obtains code content where "b = a" "m = frame code content" "good_request code content a"
proof (cases "char_at input 0 = CHR ''/''")
  case True
  with assms(1) have h: "handle_commands input MAX_MESSAGE_LEN_TO_SERVER a = Inr (Some m, b)"
    by (auto simp: validate_and_format_def split: if_splits)
  show thesis by (rule handle_commands_Some [OF h]) (rule that [OF _ _ request_good])
next
  case False
  with assms(1,2) have room: "is_in_room a" and b: "b = a" and m: "m = frame CMD_ROOM_MESSAGE_SEND input"
    by (auto simp: validate_and_format_def res_bind_eq_Inr snprintf_def frame_def
        MSG_TERMINATOR_def command_codes limits split: if_splits)
  have c: "is_command CMD_ROOM_MESSAGE_SEND" by (simp add: is_command_def)
  have "state_error st CMD_ROOM_MESSAGE_SEND = None" if "in_step a st" for st
    using room that by (auto simp: in_step_def state_error_def command_codes)
  with assms(2-4) format_ok [OF c] have "good_request CMD_ROOM_MESSAGE_SEND input a"
    by (simp add: good_request_def)
  with b m show thesis by (rule that)
qed

text \<open>A whole frame in an empty buffer is handled as one message; the bytes after it are then
  handled with an empty buffer again.\<close>

lemma process_frame:
  assumes "current_msg (client_at s p) = []" and "LF \<notin> set content" and "code \<noteq> LF"
    and "length content \<le> MAX_CONTENT_LEN"
  shows "process_messages p (frame code content @ rest) s =
    res_bind (route_client_command p (upd_client p (\<lambda>c. c\<lparr>current_msg := code # SPACE # content\<rparr>) s))
      (\<lambda>t. process_messages p rest (clear_msg p t))"
  using assms
  by (subst process_messages.simps)
    (simp add: split_frame append_msg_def limits)

lemma process_nothing: "process_messages p [] s = Inr s"
  by (subst process_messages.simps) simp

text \<open>Typing /exit in a running client sends one EXIT frame.\<close>

lemma send_exit:
  assumes "is_running a" and "sends (frame CMD_EXIT ''dummy'') = int (length (frame CMD_EXIT ''dummy''))"
  shows "send_command sends ''/exit'' a = Inr (a\<lparr>to_server := to_server a @ frame CMD_EXIT ''dummy''\<rparr>)"
proof -
  have scan: "scan_command ''/exit'' = Inr (Some ''/exit'', None)"
    by (simp add: scan_command_def scan_word_def c_isspace_def Let_def)
  have "handle_commands ''/exit'' MAX_MESSAGE_LEN_TO_SERVER a = Inr (Some (frame CMD_EXIT ''dummy''), a)"
    by (simp add: handle_commands_def scan commands_def snprintf_def limits Let_def)
      (simp add: frame_def MSG_TERMINATOR_def command_codes)
  then have "validate_and_format ''/exit'' MAX_MESSAGE_LEN_TO_SERVER a = Inr (Some (frame CMD_EXIT ''dummy''), a)"
    using assms(1) by (simp add: validate_and_format_def char_at_def)
  then show ?thesis using assms(2) by (simp add: send_command_def send_message_def Let_def)
qed

end
