(* ===== verification/Framing.thy ===== *)
theory Framing
  imports Client_Facts Client_Messages
begin

text \<open>
  How the bytes of a client become messages. TCP may cut the stream anywhere; the messages do not
  depend on the cuts, except for a cut inside a terminator, which is then not recognised.
\<close>

section \<open>Cutting\<close>

lemma upd_client_upd_client: "upd_client p f (upd_client p g s) = upd_client p (\<lambda>c. f (g c)) s"
  by (simp add: upd_client_def upd_worker_def)

lemma split_crlf_append_Some: "split_crlf a = Some (x, r) \<Longrightarrow> split_crlf (a @ b) = Some (x, r @ b)"
  by (induction a arbitrary: x r rule: split_crlf.induct) (auto split: if_splits option.splits)

definition cuts_terminator :: "string \<Rightarrow> string \<Rightarrow> bool" where
  "cuts_terminator a b \<longleftrightarrow> a \<noteq> [] \<and> last a = CR \<and> b \<noteq> [] \<and> hd b = LF"

lemma split_crlf_append_None:
  "split_crlf a = None \<Longrightarrow> \<not> cuts_terminator a b \<Longrightarrow>
   split_crlf (a @ b) = map_option (\<lambda>(x, r). (a @ x, r)) (split_crlf b)"
proof (induction a rule: split_crlf.induct)
  case 1
  then show ?case by (simp add: option.map_ident case_prod_unfold)
next
  case (2 c)
  then show ?case by (cases b) (auto simp: cuts_terminator_def split: option.splits)
next
  case (3 c d r)
  then show ?case by (auto simp: cuts_terminator_def split: if_splits option.splits)
qed

lemma append_append_msg:
  "res_bind (append_msg p a s) (append_msg p b) = append_msg p (a @ b) s"
proof (cases "length (current_msg (client_at s p) @ a) < MAX_MESSAGE_LEN_TO_SERVER * 3")
  case True
  then show ?thesis by (simp add: append_msg_def upd_client_upd_client c_store_def)
next
  case False
  then show ?thesis by (simp add: append_msg_def c_store_def)
qed

lemma append_nothing: "length (current_msg (client_at s p)) < MAX_MESSAGE_LEN_TO_SERVER * 3 \<Longrightarrow>
    append_msg p [] s = Inr s"
  by (simp add: append_msg_def upd_client_def upd_worker_def client_at_def)

lemma process_None: "split_crlf a = None \<Longrightarrow>
    process_messages p a s = (if a \<noteq> [] then append_msg p a s else Inr s)"
  by (subst process_messages.simps) simp

lemma process_Some: "split_crlf a = Some (x, r) \<Longrightarrow>
    process_messages p a s = res_bind (append_msg p x s) (\<lambda>s1.
      res_bind (route_client_command p s1) (\<lambda>s2. process_messages p r (clear_msg p s2)))"
  by (subst process_messages.simps) simp

lemma process_None_fun: "split_crlf a = None \<Longrightarrow>
    process_messages p a = (if a \<noteq> [] then append_msg p a else Inr)"
  by (rule ext) (simp add: process_None)

lemma process_Some_fun: "split_crlf a = Some (x, r) \<Longrightarrow>
    process_messages p a = (\<lambda>s. res_bind (append_msg p x s) (\<lambda>s1.
      res_bind (route_client_command p s1) (\<lambda>s2. process_messages p r (clear_msg p s2))))"
  by (rule ext) (simp add: process_Some)

lemma process_append:
  "\<not> cuts_terminator a b \<Longrightarrow>
   process_messages p (a @ b) s = res_bind (process_messages p a s) (process_messages p b)"
proof (induction "length a" arbitrary: a s rule: less_induct)
  case less
  show ?case
  proof (cases "split_crlf a")
    case None
    show ?thesis
    proof (cases "a = []")
      case True
      then show ?thesis by (simp add: process_None)
    next
      case False
      show ?thesis
      proof (cases "split_crlf b")
        case b: None
        with None less.prems have "split_crlf (a @ b) = None" by (simp add: split_crlf_append_None)
        then have "process_messages p (a @ b) s = append_msg p (a @ b) s"
          using False by (simp add: process_None)
        also have "\<dots> = res_bind (append_msg p a s) (process_messages p b)"
          using b by (cases "b = []") (simp_all add: process_None_fun append_append_msg)
        finally show ?thesis using None False by (simp add: process_None)
      next
        case (Some xr)
        obtain x r where xr: "xr = (x, r)" by (cases xr)
        with Some None less.prems have "split_crlf (a @ b) = Some (a @ x, r)"
          by (simp add: split_crlf_append_None)
        then show ?thesis
          using None False Some xr
          by (simp add: process_Some_fun process_None_fun res_bind_assoc flip: append_append_msg)
      qed
    qed
  next
    case (Some xr)
    obtain x r where xr: "split_crlf a = Some (x, r)" using Some by (cases xr) simp
    have a: "a = x @ [CR, LF] @ r" by (rule split_crlf_eq [OF xr])
    have "\<not> cuts_terminator r b" using less.prems a by (auto simp: cuts_terminator_def)
    moreover have "length r < length a" by (rule split_crlf_length [OF xr])
    ultimately have IH: "process_messages p (r @ b) u =
        res_bind (process_messages p r u) (process_messages p b)" for u
      by (rule less.hyps [rotated])
    show ?thesis
      by (simp add: process_Some [OF xr] process_Some [OF split_crlf_append_Some [OF xr]] IH res_bind_assoc)
  qed
qed

text \<open>Any number of chunks, and the requests whose frames they are made of.\<close>

fun read_chunks :: "cptr \<Rightarrow> string list \<Rightarrow> server \<Rightarrow> server res" where
  "read_chunks p [] s = Inr s"
| "read_chunks p (c # cs) s =
     res_bind (read_and_process_client_message p (Received c) s) (read_chunks p cs)"

fun serve :: "cptr \<Rightarrow> (char \<times> string) list \<Rightarrow> server \<Rightarrow> server res" where
  "serve p [] s = Inr s"
| "serve p ((code, content) # rs) s =
     res_bind (route_client_command p (upd_client p (\<lambda>c. c\<lparr>current_msg := code # SPACE # content\<rparr>) s))
       (\<lambda>t. serve p rs (clear_msg p t))"

definition frames_of :: "(char \<times> string) list \<Rightarrow> string" where
  "frames_of rs = concat (map (\<lambda>(code, content). frame code content) rs)"

text \<open>What a client may send as a frame, and chunks that \<open>recv\<close> can deliver and that leave the
  terminators whole.\<close>

definition sendable :: "char \<times> string \<Rightarrow> bool" where
  "sendable = (\<lambda>(code, content). code \<notin> {NUL, LF} \<and> NUL \<notin> set content \<and> LF \<notin> set content \<and>
     length content \<le> MAX_CONTENT_LEN)"

fun uncut :: "string list \<Rightarrow> bool" where
  "uncut [] \<longleftrightarrow> True"
| "uncut [c] \<longleftrightarrow> c \<noteq> [] \<and> length c \<le> MAX_MESSAGE_LEN_TO_SERVER"
| "uncut (c # d # cs) \<longleftrightarrow> c \<noteq> [] \<and> length c \<le> MAX_MESSAGE_LEN_TO_SERVER \<and>
     \<not> cuts_terminator c d \<and> uncut (d # cs)"

lemma read_chunks_concat:
  "uncut cs \<Longrightarrow> NUL \<notin> set (concat cs) \<Longrightarrow> read_chunks p cs s = process_messages p (concat cs) s"
proof (induction cs arbitrary: s rule: uncut.induct)
  case 1
  then show ?case by (simp add: process_nothing)
next
  case (2 c)
  then have "cstr (take MAX_MESSAGE_LEN_TO_SERVER c) = c" by (simp add: cstr_id)
  moreover have "res_bind m (read_chunks p []) = m" for m :: "server res" by (cases m) simp_all
  ultimately show ?case by (simp add: read_and_process_client_message_def)
next
  case (3 c d cs)
  then have "cstr (take MAX_MESSAGE_LEN_TO_SERVER c) = c" by (simp add: cstr_id)
  moreover have "\<not> cuts_terminator c (concat (d # cs))"
  proof -
    have "d \<noteq> []" using 3(2) by (cases cs) simp_all
    with 3(2) show ?thesis by (auto simp: cuts_terminator_def)
  qed
  moreover have "read_chunks p (d # cs) = process_messages p (concat (d # cs))"
    using 3 by (intro ext) simp
  ultimately show ?case
    using process_append [of c "concat (d # cs)" p s]
    by (simp add: read_and_process_client_message_def del: concat.simps) simp
qed

lemma process_requests:
  "list_all sendable rs \<Longrightarrow> current_msg (client_at s p) = [] \<Longrightarrow> process_messages p (frames_of rs) s = serve p rs s"
proof (induction rs arbitrary: s)
  case Nil
  then show ?case by (simp add: frames_of_def process_nothing)
next
  case (Cons r rs)
  obtain code content where r: "r = (code, content)" by (cases r)
  have "process_messages p (frames_of rs) (clear_msg p t) = serve p rs (clear_msg p t)" for t
    using Cons by (simp add: clear_msg_def)
  with process_frame [OF Cons(3), of content code "frames_of rs"] Cons(2) r show ?case
    by (simp add: frames_of_def sendable_def)
qed

lemma frames_no_nul: "list_all sendable rs \<Longrightarrow> NUL \<notin> set (frames_of rs)"
  by (induction rs) (auto simp: frames_of_def sendable_def frame_def MSG_TERMINATOR_def)

text \<open>A cut between CR and LF: both characters end up in the message, and nothing is handled.\<close>

lemma process_cut_terminator:
  assumes "LF \<notin> set m" and "length (current_msg (client_at s p)) + length m + 2 < MAX_MESSAGE_LEN_TO_SERVER * 3"
  shows "res_bind (process_messages p (m @ [CR]) s) (process_messages p [LF]) =
    Inr (upd_client p (\<lambda>c. c\<lparr>current_msg := current_msg c @ m @ [CR, LF]\<rparr>) s)"
proof -
  have "split_crlf (m @ [CR]) = None" using assms(1) by (intro split_crlf_None) auto
  then have "res_bind (process_messages p (m @ [CR]) s) (process_messages p [LF]) =
      append_msg p ((m @ [CR]) @ [LF]) s"
    by (simp add: process_None_fun append_append_msg del: append_assoc)
  also have "\<dots> = Inr (upd_client p (\<lambda>c. c\<lparr>current_msg := current_msg (client_at s p) @ m @ [CR, LF]\<rparr>) s)"
    using assms(2) by (simp add: append_msg_def)
  also have "\<dots> = Inr (upd_client p (\<lambda>c. c\<lparr>current_msg := current_msg c @ m @ [CR, LF]\<rparr>) s)"
    by (simp add: upd_client_def upd_worker_def client_at_def)
  finally show ?thesis .
qed

section \<open>The size of the message buffer\<close>

text \<open>Bytes without a terminator are collected until the buffer is full, and then beyond it.\<close>

lemma process_unterminated:
  assumes "split_crlf temp = None" and "temp \<noteq> []"
  shows "process_messages p temp s =
    (if length (current_msg (client_at s p)) + length temp < 396
     then Inr (upd_client p (\<lambda>c. c\<lparr>current_msg := current_msg (client_at s p) @ temp\<rparr>) s)
     else Inl (Overflow Current_msg))"
  using assms by (simp add: process_None append_msg_def c_store_def limits)

section \<open>After an EXIT\<close>

text \<open>A client outside rooms that sends EXIT twice in one chunk is disconnected twice.\<close>

lemma exit_route:
  assumes "current_msg (client_at s p) = CMD_EXIT # SPACE # ''dummy''"
    and "cstate (client_at s p) \<noteq> IN_CHAT_ROOM"
  shows "route_client_command p s = Inr (cleanup_client p s)"
proof -
  have "format_error (current_msg (client_at s p)) = None"
    by (simp add: assms(1) format_error_def limits char_at_def char_val_def command_codes)
  then show ?thesis
    using assms by (simp add: route_client_command_def validate_msg_format_def
        command_valid_for_state_def state_error_def dispatch_def char_at_def
        handle_client_disconnection_def)
qed

lemma clear_msg_fields [simp]:
  "num_of_clients (worker_at (clear_msg p s) w) = num_of_clients (worker_at s w)"
  "trace (clear_msg p s) = trace s"
  "current_msg (client_at (clear_msg p s) p) = []"
  "cstate (client_at (clear_msg p s) q) = cstate (client_at s q)"
  "client_fd (client_at (clear_msg p s) q) = client_fd (client_at s q)"
  by (simp_all add: clear_msg_def)

lemma cleanup_fields:
  "num_of_clients (worker_at (cleanup_client p s) (owner p)) = num_of_clients (worker_at s (owner p)) - 1"
  "client_at (cleanup_client p s) p = zero_client"
  "Close (client_fd (client_at s p)) \<in> set (trace (cleanup_client p s))"
  "set (trace s) \<subseteq> set (trace (cleanup_client p s))"
  by (auto simp: cleanup_unfold)

lemma process_exit:
  assumes "current_msg (client_at s p) = []" and "cstate (client_at s p) \<noteq> IN_CHAT_ROOM"
  shows "process_messages p (frame CMD_EXIT ''dummy'' @ rest) s =
    process_messages p rest (clear_msg p (cleanup_client p
      (upd_client p (\<lambda>c. c\<lparr>current_msg := CMD_EXIT # SPACE # ''dummy''\<rparr>) s)))"
proof -
  let ?s1 = "upd_client p (\<lambda>c. c\<lparr>current_msg := CMD_EXIT # SPACE # ''dummy''\<rparr>) s"
  have "route_client_command p ?s1 = Inr (cleanup_client p ?s1)"
    using assms(2) by (intro exit_route) simp_all
  then show ?thesis
    using process_frame [where content = "''dummy''" and code = CMD_EXIT, OF assms(1)]
    by (simp add: command_codes limits)
qed

lemma process_exit_twice:
  assumes "current_msg (client_at s p) = []" and "cstate (client_at s p) \<noteq> IN_CHAT_ROOM"
  shows "\<exists>t. process_messages p (frame CMD_EXIT ''dummy'' @ frame CMD_EXIT ''dummy'') s = Inr t \<and>
    num_of_clients (worker_at t (owner p)) = num_of_clients (worker_at s (owner p)) - 2 \<and>
    Close 0 \<in> set (trace t)"
proof -
  let ?m = "\<lambda>s. upd_client p (\<lambda>c. c\<lparr>current_msg := CMD_EXIT # SPACE # ''dummy''\<rparr>) s"
  let ?u = "clear_msg p (cleanup_client p (?m s))"
  let ?t = "clear_msg p (cleanup_client p (?m ?u))"
  have "process_messages p (frame CMD_EXIT ''dummy'' @ frame CMD_EXIT ''dummy'') s =
      process_messages p (frame CMD_EXIT ''dummy'' @ []) ?u"
    using process_exit [OF assms] by simp
  also have "\<dots> = Inr ?t"
    by (subst process_exit) (simp_all add: cleanup_fields process_nothing)
  finally have "process_messages p (frame CMD_EXIT ''dummy'' @ frame CMD_EXIT ''dummy'') s = Inr ?t" .
  moreover have "num_of_clients (worker_at ?t (owner p)) = num_of_clients (worker_at s (owner p)) - 2"
    by (simp add: cleanup_fields)
  moreover have "client_fd (client_at (?m ?u) p) = 0" by (simp add: cleanup_fields)
  then have "Close 0 \<in> set (trace ?t)" using cleanup_fields(3) [of "?m ?u" p] by simp
  ultimately show ?thesis by blast
qed

end
