(* ===== verification/Samples.thy ===== *)
theory Samples
  imports System_Safety Room_Spec Room_View Framing
begin

text \<open>
  Concrete states that the witnesses of the properties use: the server just started, two clients
  of worker 0 in the lobby, and the same clients in room 3.
\<close>

section \<open>Two clients\<close>

definition ann :: cptr where "ann = Cptr 0 0"
definition bob :: cptr where "bob = Cptr 0 1"

lemma ann_bob [simp]: "ann \<noteq> bob" "bob \<noteq> ann" "owner ann = 0" "slot ann = 0" "owner bob = 0" "slot bob = 1"
  by (simp_all add: ann_def bob_def)

definition guest :: "int \<Rightarrow> string \<Rightarrow> string \<Rightarrow> client" where
  "guest fd name msg = \<lparr>client_fd = fd, cname = name, cstate = IN_CHAT_LOBBY, room_index = 0,
     c_in_use = True, current_msg = msg\<rparr>"

definition lobby_server :: "string \<Rightarrow> server" where
  "lobby_server msg =
     upd_client ann (\<lambda>_. guest 20 ''ann'' msg)
       (upd_client bob (\<lambda>_. guest 21 ''bob'' []) (zero_server []))"

lemma zero_server_simps [simp]:
  "client_at (zero_server rs) p = zero_client" "room_at (zero_server rs) i = zero_room"
  "worker_at (zero_server rs) w = zero_worker" "replies (zero_server rs) = rs"
  "trace (zero_server rs) = []" "worker_index (zero_server rs) = 0"
  by (simp_all add: zero_server_def client_at_def room_at_def worker_at_def)

lemma lobby_simps [simp]:
  "client_at (lobby_server msg) p =
     (if p = ann then guest 20 ''ann'' msg else if p = bob then guest 21 ''bob'' [] else zero_client)"
  "room_at (lobby_server msg) i = zero_room" "replies (lobby_server msg) = []"
  "trace (lobby_server msg) = []"
  by (simp_all add: lobby_server_def)

lemma guest_simps [simp]:
  "client_fd (guest fd n m) = fd" "cname (guest fd n m) = n" "cstate (guest fd n m) = IN_CHAT_LOBBY"
  "c_in_use (guest fd n m)" "current_msg (guest fd n m) = m" "room_index (guest fd n m) = 0"
  by (simp_all add: guest_def)

lemma lobby_inv: "table_inv (lobby_server msg)"
proof -
  have "rooms_ok (lobby_server msg)" by (simp add: rooms_ok_def room_ok_zero)
  moreover have "linked (lobby_server msg)"
    by (rule linkedI) (auto simp: sits_def split: if_splits)
  ultimately show ?thesis by (simp add: table_inv_def)
qed

section \<open>In a room\<close>

definition tea_room :: room where
  "tea_room = \<lparr>r_clients = (\<lambda>_. None)(0 := Some ann, 1 := Some bob), room_name = ''tea'',
     num_clients = 2, r_in_use = True\<rparr>"

definition room_server :: "string \<Rightarrow> server" where
  "room_server msg =
     upd_room 3 (\<lambda>_. tea_room)
       (upd_client ann (\<lambda>c. c\<lparr>cstate := IN_CHAT_ROOM, room_index := 3\<rparr>)
         (upd_client bob (\<lambda>c. c\<lparr>cstate := IN_CHAT_ROOM, room_index := 3\<rparr>) (lobby_server msg)))"

lemma room_simps [simp]:
  "client_at (room_server msg) p =
     (if p = ann then (guest 20 ''ann'' msg)\<lparr>cstate := IN_CHAT_ROOM, room_index := 3\<rparr>
      else if p = bob then (guest 21 ''bob'' [])\<lparr>cstate := IN_CHAT_ROOM, room_index := 3\<rparr>
      else zero_client)"
  "room_at (room_server msg) i = (if i = 3 then tea_room else zero_room)"
  "replies (room_server msg) = []" "trace (room_server msg) = []"
  by (simp_all add: room_server_def)

lemma tea_simps [simp]:
  "r_clients tea_room k = (if k = 0 then Some ann else if k = 1 then Some bob else None)"
  "room_name tea_room = ''tea''" "num_clients tea_room = 2" "r_in_use tea_room"
  by (simp_all add: tea_room_def)

lemma tea_ok: "room_ok tea_room"
proof -
  have "occupied non_null MAX_CLIENTS_ROOM (r_clients tea_room) = {0, 1}"
    by (auto simp: occupied_def limits split: if_splits)
  then show ?thesis by (simp add: room_ok_def slot_count_def limits)
qed

lemma room_sits_iff:
  "sits (room_server msg) i k p \<longleftrightarrow> i = 3 \<and> (k = 0 \<and> p = ann \<or> k = 1 \<and> p = bob)"
  by (auto simp: sits_def limits split: if_splits)

lemma room_inv: "table_inv (room_server msg)"
proof -
  have "rooms_ok (room_server msg)" by (simp add: rooms_ok_def room_ok_zero tea_ok)
  moreover have "linked (room_server msg)"
    by (rule linkedI) (auto simp: room_sits_iff split: if_splits)
  ultimately show ?thesis by (simp add: table_inv_def)
qed

lemma sample_names: "names_ok (lobby_server msg)" "names_ok (room_server msg)"
  by (simp_all add: names_ok_def limits)

lemma sample_fits: "list_fits (lobby_server msg)" "list_fits (room_server msg)"
  by (simp_all add: list_fits_def short_names_fit)

lemma sample_routes:
  "\<exists>t. route_client_command p (lobby_server msg) = Inr t"
  "\<exists>t. route_client_command p (room_server msg) = Inr t"
  using route_returns [OF lobby_inv sample_names(1) sample_fits(1)]
    route_returns [OF room_inv sample_names(2) sample_fits(2)]
  by (simp_all add: returns_iff)

section \<open>The server just started\<close>

definition booted :: server where
  "booted = upd_worker 3 (\<lambda>t. t\<lparr>notification_fd := 13, new_client := 1\<rparr>)
      (upd_worker 2 (\<lambda>t. t\<lparr>notification_fd := 12, new_client := 1\<rparr>)
      (upd_worker 1 (\<lambda>t. t\<lparr>notification_fd := 11, new_client := 1\<rparr>)
      (upd_worker 0 (\<lambda>t. t\<lparr>notification_fd := 10, new_client := 1\<rparr>) (zero_server []))))"

lemma booted_setup:
  "setup_threads (\<lambda>w. 10 + int w) (\<lambda>_. True) (init_server_rooms (zero_server [])) = Some booted"
proof -
  have "[0..<MAX_THREADS] = [0, 1, 2, 3]" by (simp add: MAX_THREADS_def numeral_eq_Suc)
  then show ?thesis
    by (simp add: setup_threads_def init_server_rooms_def booted_def zero_server_def)
qed

lemma booted_reachable: "reachable (Main_accepting, booted)"
  by (rule reachable.boots [OF booted_setup])

text \<open>A first connection, with descriptor 20, is on its way to worker 0.\<close>

lemma booted_simps [simp]:
  "worker_index booted = 0" "trace booted = []" "replies booted = []"
  "client_at booted p = zero_client" "room_at booted i = zero_room"
  "w < 4 \<Longrightarrow> worker_at booted w = zero_worker\<lparr>notification_fd := 10 + int w, new_client := 1\<rparr>"
proof -
  show "w < 4 \<Longrightarrow> worker_at booted w = zero_worker\<lparr>notification_fd := 10 + int w, new_client := 1\<rparr>"
    using boot_state(4) [OF booted_setup, of w] by (simp add: limits)
qed (simp_all add: booted_def)

definition greeting :: server where
  "greeting = upd_worker 0 (\<lambda>t. t\<lparr>efd_counter := efd_counter t + 20\<rparr>)
     (emit (Sem_wait 0) (upd_worker 0 (\<lambda>t. t\<lparr>new_client := new_client t - 1\<rparr>)
       (next_index (emit (Unlock (Count_lock 0))
         (upd_worker 0 (\<lambda>t. t\<lparr>num_of_clients := num_of_clients t + 1\<rparr>)
           (emit (Lock (Count_lock 0)) booted))))))"

lemma worker_next [simp]: "worker_at (next_index s) w = worker_at s w" "client_at (next_index s) p = client_at s p"
  by (simp_all add: next_index_eq)

lemma efd_20: "fd_to_efd 20 = 20" "efd_accepts 0 20"
  by (simp_all add: fd_to_efd_def efd_accepts_def)

lemma greeting_step: "accept_round 20 [True, True, True, True] True booted = Inr (Main_accepting, greeting)"
proof -
  have "find_worker_loop MAX_THREADS booted = (Some 0, next_index (emit (Unlock (Count_lock 0))
      (upd_worker 0 (\<lambda>t. t\<lparr>num_of_clients := num_of_clients t + 1\<rparr>)
        (emit (Lock (Count_lock 0)) booted))))"
    by (subst find_worker_loop.simps) (simp add: Let_def MAX_CLIENTS_PER_THREAD_def)
  then show ?thesis
    by (simp add: accept_round_def set_socket_keep_alive_def distribute_client_def pick_worker_def
        find_worker_not_at_capacity_def hand_over_def Let_def efd_20 greeting_def)
qed

lemma booted_fresh: "fresh_fd Main_accepting booted 20"
proof -
  have "efd_counter (worker_at booted w) = 0" for w
    using boot_state(4,5) [OF booted_setup, of w] by (cases "w < MAX_THREADS") simp_all
  then have "fd_of Main_accepting booted h = None" for h by (cases h) simp_all
  then show ?thesis by (simp add: fresh_fd_def valid_fd_def)
qed

lemma greeting_reachable: "reachable (Main_accepting, greeting)"
  by (rule reachable.steps [OF booted_reachable])
    (rule sys_step.accepts [OF _ greeting_step], simp add: booted_fresh)

lemma greeting_worker:
  "worker_at greeting 0 = zero_worker\<lparr>num_of_clients := 1, notification_fd := 10, efd_counter := 20\<rparr>"
  by (simp add: greeting_def)

text \<open>Worker 0 has started its epoll instance, and takes the connection into its first slot.\<close>

definition started :: server where
  "started = upd_worker 0 (\<lambda>t. t\<lparr>epoll_set := insert 10 (epoll_set t)\<rparr>)
     (emit (Epoll_add 5 10) (upd_worker 0 (\<lambda>t. t\<lparr>epoll_fd := 5\<rparr>) greeting))"

lemma start_step: "worker_start 0 5 True greeting = Some started"
  by (simp add: worker_start_def register_with_epoll_def Let_def started_def greeting_worker)

lemma started_reachable: "reachable (Main_accepting, started)"
  by (rule reachable.steps [OF greeting_reachable], rule sys_step.starts [OF _ _ start_step])
    (simp_all add: greeting_worker greeting_def zero_worker_def)

definition arrival :: epoll_event where
  "arrival = \<lparr>ev_fd = 10, ev_events = 1, ev_recv = Recv_nonpositive True, ev_add_ok = True\<rparr>"

lemma welcomed: "\<exists>t. reachable (Main_accepting, t) \<and> client_at t ann = new_client_in_slot 20 \<and>
    epoll_fd (worker_at t 0) = 5 \<and> notification_fd (worker_at t 0) = 10"
proof -
  have w: "worker_at started 0 = zero_worker\<lparr>num_of_clients := 1, notification_fd := 10,
      efd_counter := 20, epoll_fd := 5, epoll_set := {10}\<rparr>"
    by (simp add: started_def greeting_worker)
  have c: "client_at started p = zero_client" for p
    by (simp add: started_def greeting_def)
  obtain b u where u: "register_with_epoll 0 20 True (read_efd 0 started) = (b, u)" by fastforce
  then have b: "b" and same: "client_at u p = zero_client" for p
    by (simp_all add: register_with_epoll_def Let_def w c split: if_splits) (auto simp: c)
  have slot: "allocate_client_slot 0 20 u = (True, upd_client (Cptr 0 0) (\<lambda>_. new_client_in_slot 20) u)"
    by (simp add: allocate_client_slot_def same)
  have "length welcome_text \<le> 200" by (simp add: welcome_text_def)
  from reply_sends [OF this] obtain t where t: "send_message_to_client 20 CMD_WELCOME_REQUEST welcome_text
      (upd_client (Cptr 0 0) (\<lambda>_. new_client_in_slot 20) u) = Inr t" by blast
  have "efd_to_fd 20 = 20" by (simp add: efd_to_fd_def)
  then have "handle_event 0 arrival started = Inr t"
    using u b slot t by (simp add: handle_event_def arrival_def w register_new_client_def read_efd_def Let_def)
  then have "reachable (Main_accepting, t)"
    by (intro reachable.steps [OF started_reachable] sys_step.serves [where w = 0 and e = arrival])
      (simp_all add: w event_ok_def arrival_def)
  moreover have "client_at t ann = new_client_in_slot 20"
    using only_sends_state(1) [OF send_InrD [OF t], of ann] by (simp add: ann_def)
  moreover have "epoll_fd (worker_at u 0) = 5" "notification_fd (worker_at u 0) = 10"
    using u by (auto simp: register_with_epoll_def Let_def w read_efd_def split: if_splits)
  then have "epoll_fd (worker_at t 0) = 5" "notification_fd (worker_at t 0) = 10"
    using only_sends_state(3) [OF send_InrD [OF t], of 0] by simp_all
  ultimately show ?thesis by blast
qed

section \<open>Every worker at capacity\<close>

definition full_server :: server where
  "full_server = (zero_server [])\<lparr>worker_threads := (\<lambda>_. zero_worker\<lparr>num_of_clients := 1500\<rparr>)\<rparr>"

lemma full_simps [simp]:
  "at_capacity full_server w" "worker_index full_server = 0"
  by (simp_all add: full_server_def at_capacity_def worker_at_def zero_server_def limits)

section \<open>Reading from a sample client\<close>

lemma whole_frame:
  "length m + 4 \<le> MAX_MESSAGE_LEN_TO_SERVER \<Longrightarrow> NUL \<notin> set m \<Longrightarrow> code \<noteq> NUL \<Longrightarrow>
   cstr (take MAX_MESSAGE_LEN_TO_SERVER (frame code m)) = frame code m"
  by (simp add: cstr_id) (simp add: frame_def MSG_TERMINATOR_def cstr_id)

lemma sample_read:
  assumes "code \<in> {CMD_EXIT, CMD_ROOM_MESSAGE_SEND, CMD_LEAVE_ROOM, CMD_ROOM_CREATE_REQUEST,
    CMD_ROOM_JOIN_REQUEST, CMD_ROOM_LIST_REQUEST}"
    and "m \<in> {''hi'', ''3'', ''dummy''}"
  shows "\<exists>t. read_and_process_client_message ann (Received (frame code m)) (lobby_server []) = Inr t"
    "\<exists>t. read_and_process_client_message ann (Received (frame code m)) (room_server []) = Inr t"
proof -
  let ?q = "code # SPACE # m"
  have m: "LF \<notin> set m" "NUL \<notin> set m" "length m \<le> 5" using assms(2) by auto
  have c: "code \<noteq> LF" "code \<noteq> NUL" using assms(1) by (auto simp: command_codes)
  have bytes: "cstr (take MAX_MESSAGE_LEN_TO_SERVER (frame code m)) = frame code m"
    by (rule whole_frame) (use m c in \<open>simp_all add: limits\<close>)
  have s: "upd_client ann (\<lambda>c. c\<lparr>current_msg := ?q\<rparr>) (lobby_server []) = lobby_server ?q"
    "upd_client ann (\<lambda>c. c\<lparr>current_msg := ?q\<rparr>) (room_server []) = room_server ?q"
    by (simp_all add: lobby_server_def room_server_def guest_def upd_client_def upd_worker_def upd_room_def)
  have "process_messages ann (frame code m) (lobby_server []) =
      res_bind (route_client_command ann (lobby_server ?q)) (\<lambda>t. Inr (clear_msg ann t))"
    using process_frame [of "lobby_server []" ann m code "[]"] m c s(1)
    by (simp add: process_nothing limits)
  moreover have "process_messages ann (frame code m) (room_server []) =
      res_bind (route_client_command ann (room_server ?q)) (\<lambda>t. Inr (clear_msg ann t))"
    using process_frame [of "room_server []" ann m code "[]"] m c s(2)
    by (simp add: process_nothing limits)
  ultimately show "\<exists>t. read_and_process_client_message ann (Received (frame code m)) (lobby_server []) = Inr t"
    "\<exists>t. read_and_process_client_message ann (Received (frame code m)) (room_server []) = Inr t"
    using sample_routes [of ann ?q] bytes
    by (auto simp: read_and_process_client_message_def res_bind_eq_Inr)
qed

section \<open>The chat client\<close>

definition idle_app :: "bool \<Rightarrow> app" where
  "idle_app b = \<lparr>is_running = True, is_in_room = b, to_server = [], shown = [],
     prompt = [], closings = 0\<rparr>"

lemma idle_simps [simp]:
  "is_running (idle_app b)" "is_in_room (idle_app b) = b" "to_server (idle_app b) = []"
  by (simp_all add: idle_app_def)

end
