(* ===== verification/Fair_Samples.thy ===== *)
theory Fair_Samples
  imports Fairness Samples
begin

text \<open>
  A run of the threads from its first connection on: the main thread has chosen worker 0 and still holds the
  lock of its count; it takes the free semaphore and writes the descriptor to the eventfd; the worker
  starts, turns to its eventfd, and greets the client.
\<close>

section \<open>States\<close>

lemma booted_fine: "fine_reachable (Accepting, (\<lambda>_. Ready), booted)"
  using reachable_fine [OF booted_reachable] by simp

lemma accept_ok: "set_socket_keep_alive [True, True, True, True] \<noteq> -1"
  by (simp add: set_socket_keep_alive_def)

text \<open>The main thread has chosen worker 0.\<close>

definition asked :: server where
  "asked = next_index (emit (Unlock (Count_lock 0)) (one_more 0 (emit (Lock (Count_lock 0)) booted)))"

lemma asked_worker [simp]:
  "worker_at asked 0 = zero_worker\<lparr>notification_fd := 10, new_client := 1, num_of_clients := 1\<rparr>"
  by (simp add: asked_def)

lemma trace_next [simp]: "trace (next_index s) = trace s"
  by (simp add: next_index_eq)

lemma asked_trace [simp]: "trace asked = [Lock (Count_lock 0), Unlock (Count_lock 0)]"
  by (simp add: asked_def)

lemma asked_chosen: "choose_step 20 MAX_THREADS booted = Inr (Waiting 20 0, asked)"
  by (simp add: choose_step_def Let_def MAX_CLIENTS_PER_THREAD_def asked_def)

lemma greeting_handed: "hand_over 20 0 True asked = Inr greeting"
  by (simp add: hand_over_def Let_def efd_20 greeting_def asked_def)

lemma greeting_trace [simp]: "trace greeting = trace asked @ [Sem_wait 0]"
  by (simp add: greeting_def asked_def)

lemma started_trace [simp]: "trace started = trace greeting @ [Epoll_add 5 10]"
  by (simp add: started_def)

lemma started_worker: "worker_at started 0 = zero_worker\<lparr>num_of_clients := 1, notification_fd := 10,
    efd_counter := 20, epoll_fd := 5, epoll_set := {10}\<rparr>"
  by (simp add: started_def greeting_worker)

lemma started_client: "client_at started p = zero_client"
  by (simp add: started_def greeting_def)

definition registered :: server where
  "registered = upd_client ann (\<lambda>_. new_client_in_slot 20) (upd_worker 0 (\<lambda>t. t\<lparr>epoll_set := insert 20 (epoll_set t)\<rparr>)
     (emit (Epoll_add 5 20) (read_efd 0 started)))"

lemma registered_step: "begin_register 0 True started = Inr (Greeting 20, registered)"
proof -
  have "efd_to_fd 20 = 20" by (simp add: efd_to_fd_def)
  moreover have "register_with_epoll 0 20 True (read_efd 0 started) =
      (True, upd_worker 0 (\<lambda>t. t\<lparr>epoll_set := insert 20 (epoll_set t)\<rparr>) (emit (Epoll_add 5 20) (read_efd 0 started)))"
    by (simp add: register_with_epoll_def Let_def read_efd_def started_worker)
  moreover have "first_index (\<lambda>i. \<not> c_in_use (client_at (upd_worker 0 (\<lambda>t. t\<lparr>epoll_set := insert 20 (epoll_set t)\<rparr>)
      (emit (Epoll_add 5 20) (read_efd 0 started))) (Cptr 0 i))) 0 MAX_CLIENTS_PER_THREAD = Some 0"
    by (subst first_index.simps) (simp add: read_efd_def started_client limits)
  ultimately show ?thesis
    by (simp add: begin_register_def Let_def started_worker registered_def ann_def)
qed

lemma registered_trace [simp]: "trace registered = trace started @ [Sem_post 0, Epoll_add 5 20]"
  by (simp add: registered_def read_efd_def)

lemma registered_worker: "epoll_fd (worker_at registered 0) = 5" "efd_counter (worker_at registered 0) = 0"
  by (simp_all add: registered_def read_efd_def started_worker)

definition greeted :: server where
  "greeted = snd (case micro 0 (Greeting 20) registered of Inr x \<Rightarrow> x | Inl e \<Rightarrow> (Ready, registered))"

lemma greeted_step:
  obtains b n where "micro 0 (Greeting 20) registered = Inr (Ready, greeted)"
    "trace greeted = trace registered @ [Send 20 b n]" "worker_at greeted 0 = worker_at registered 0"
proof -
  have "length welcome_text \<le> 200" by (simp add: welcome_text_def)
  from reply_sends [OF this] obtain t where
    t: "send_message_to_client 20 CMD_WELCOME_REQUEST welcome_text registered = Inr t" by blast
  then have m: "micro 0 (Greeting 20) registered = Inr (Ready, greeted)" "greeted = t" by (simp_all add: greeted_def)
  from t obtain b n where "trace t = trace registered @ [Send 20 b n]"
    by (auto simp: send_message_to_client_def res_bind_eq_Inr Let_def split_beta)
  with m only_sends_state(3) [OF send_InrD [OF t], of 0] show thesis by (intro that) simp_all
qed

section \<open>The run\<close>

definition free :: lock_table where "free = (\<lambda>_. None)"

text \<open>Worker 0 at \<open>c\<close>, with what the main thread and worker 0 have yet to play.\<close>

definition conf :: "main_pc \<Rightarrow> pc \<Rightarrow> server \<Rightarrow> action list \<Rightarrow> action list \<Rightarrow> lock_table \<Rightarrow> config" where
  "conf m c s as bs h = \<lparr>now = (m, (\<lambda>_. Ready)(0 := c), s),
     todo = (\<lambda>_. [])(Main_thread := as, Worker_thread 0 := bs), locked_by = h\<rparr>"

lemma conf_simps [simp]:
  "now (conf m c s as bs h) = (m, (\<lambda>_. Ready)(0 := c), s)" "locked_by (conf m c s as bs h) = h"
  "todo (conf m c s as bs h) Main_thread = as" "todo (conf m c s as bs h) (Worker_thread 0) = bs"
  "todo (conf m c s as bs h) (Worker_thread (Suc w)) = []"
  by (simp_all add: conf_def)

definition greet_action :: action where
  "greet_action = last (trace greeted)"

definition configs :: "config list" where
  "configs =
    [conf (Waiting 20 0) Ready asked [Unlock (Count_lock 0)] [] (free(Count_lock 0 := Some Main_thread)),
     conf (Waiting 20 0) Ready asked [] [] free,
     conf Accepting Ready greeting [Sem_wait 0] [] free,
     conf Accepting Ready greeting [] [] free,
     conf Accepting Ready started [] [Epoll_add 5 10] free,
     conf Accepting Ready started [] [] free,
     conf Accepting (Greeting 20) registered [] [Sem_post 0, Epoll_add 5 20] free,
     conf Accepting (Greeting 20) registered [] [Epoll_add 5 20] free,
     conf Accepting (Greeting 20) registered [] [] free,
     conf Accepting Ready greeted [] [greet_action] free,
     conf Accepting Ready greeted [] [] free]"

definition first_run :: "nat \<Rightarrow> config" where
  "first_run n = configs ! min n 10"

lemma main_acts:
  "can_play {} h a \<Longrightarrow> sched_step {} Main_thread [] (conf m c s (a # as) bs h) (conf m c s as bs (play Main_thread a h))"
  by (rule sched_step.r_moves, rule own_move.o_acts) (auto simp: plays_next_def conf_def fun_upd_twist)

lemma worker_acts:
  "can_play {} h a \<Longrightarrow>
    sched_step {} (Worker_thread 0) [] (conf m c s as (a # bs) h) (conf m c s as bs (play (Worker_thread 0) a h))"
  by (rule sched_step.r_moves, rule own_move.o_acts) (auto simp: plays_next_def conf_def)

lemma main_enters:
  assumes "drive Main_thread (m, (\<lambda>_. Ready)(0 := c), s) (m', (\<lambda>_. Ready)(0 := c), t)"
    and "trace t = trace s @ as" and "takes_lock Main_thread as h = Some (as', h')"
  shows "sched_step {} Main_thread [] (conf m c s [] bs h) (conf m' c t as' bs h')"
  by (rule sched_step.r_moves, rule own_move.o_drives)
    (use assms in \<open>auto simp: enters_def conf_def fun_upd_twist\<close>)

lemma worker_enters:
  assumes "drive (Worker_thread 0) (m, (\<lambda>_. Ready)(0 := c), s) (m, (\<lambda>_. Ready)(0 := c'), t)"
    and "trace t = trace s @ as" and "takes_lock (Worker_thread 0) as h = Some (as', h')"
  shows "sched_step {} (Worker_thread 0) [] (conf m c s bs [] h) (conf m c' t bs as' h')"
  by (rule sched_step.r_moves, rule own_move.o_drives)
    (use assms in \<open>auto simp: enters_def conf_def\<close>)

lemma ready_points [simp]: "(\<lambda>_. Ready)(0 := Ready) = (\<lambda>_ :: nat. Ready)"
  by auto

lemma free_upd [simp]: "free(l := None) = free" "free l = None"
  by (auto simp: free_def)

lemma asked_reached:
  "runs_reach {} [] (conf (Waiting 20 0) Ready asked [Unlock (Count_lock 0)] [] (free(Count_lock 0 := Some Main_thread)))"
proof -
  have "conf Accepting Ready booted [] [] free =
      \<lparr>now = (Accepting, (\<lambda>_. Ready), booted), todo = (\<lambda>_. []), locked_by = (\<lambda>_. None)\<rparr>"
    by (auto simp: conf_def free_def)
  with runs_reach.c_boots [OF booted_setup] have 1: "runs_reach {} [] (conf Accepting Ready booted [] [] free)" by simp
  have "intake Main_thread [] (Accepting, (\<lambda>_. Ready), booted) (Choosing 20 MAX_THREADS, (\<lambda>_. Ready), booted)"
    by (rule intake.i_accepts [OF booted_fresh accept_ok])
  then have "sched_step {} Main_thread [] (conf Accepting Ready booted [] [] free)
      (conf (Choosing 20 MAX_THREADS) Ready booted [] [] free)"
    by (intro sched_step.r_takes) (auto simp: enters_def conf_def fun_upd_twist)
  from runs_reach.c_steps [OF 1 this]
  have 2: "runs_reach {} [] (conf (Choosing 20 MAX_THREADS) Ready booted [] [] free)" by simp
  have "sched_step {} Main_thread [] (conf (Choosing 20 MAX_THREADS) Ready booted [] [] free)
      (conf (Waiting 20 0) Ready asked [Unlock (Count_lock 0)] [] (free(Count_lock 0 := Some Main_thread)))"
    by (rule main_enters [where as = "[Lock (Count_lock 0), Unlock (Count_lock 0)]"])
      (simp_all add: drive.d_chooses asked_chosen)
  from runs_reach.c_steps [OF 2 this] show ?thesis by simp
qed

lemma greet_step:
  "sched_step {} (Worker_thread 0) [] (conf Accepting (Greeting 20) registered [] [] free)
    (conf Accepting Ready greeted [] [greet_action] free)"
  "sched_step {} (Worker_thread 0) [] (conf Accepting Ready greeted [] [greet_action] free)
    (conf Accepting Ready greeted [] [] free)"
proof -
  obtain b n where t: "micro 0 (Greeting 20) registered = Inr (Ready, greeted)"
    "trace greeted = trace registered @ [Send 20 b n]" by (rule greeted_step)
  then have a: "greet_action = Send 20 b n" by (simp add: greet_action_def)
  have "drive (Worker_thread 0) (Accepting, (\<lambda>_. Ready)(0 := Greeting 20), registered)
      (Accepting, ((\<lambda>_. Ready)(0 := Greeting 20))(0 := Ready), greeted)"
    by (rule drive.d_continues) (use t(1) in \<open>simp_all add: limits\<close>)
  then show "sched_step {} (Worker_thread 0) [] (conf Accepting (Greeting 20) registered [] [] free)
      (conf Accepting Ready greeted [] [greet_action] free)"
    by (intro worker_enters [where as = "[greet_action]"]) (simp_all add: t(2) a)
  show "sched_step {} (Worker_thread 0) [] (conf Accepting Ready greeted [] [greet_action] free)
      (conf Accepting Ready greeted [] [] free)"
    using worker_acts [of free greet_action Accepting Ready greeted "[]" "[]"] by (simp add: a)
qed

lemma start_steps:
  "drive (Worker_thread 0) (Accepting, (\<lambda>_. Ready), greeting) (Accepting, (\<lambda>_. Ready), started)"
  "drive (Worker_thread 0) (Accepting, (\<lambda>_. Ready), started) (Accepting, (\<lambda>_. Ready)(0 := Greeting 20), registered)"
proof -
  show "drive (Worker_thread 0) (Accepting, (\<lambda>_. Ready), greeting) (Accepting, (\<lambda>_. Ready), started)"
    by (rule drive.d_starts [OF _ _ _ start_step]) (simp_all add: greeting_worker zero_worker_def limits)
  have "registers 0 (Accepting, (\<lambda>_. Ready), started) (Accepting, (\<lambda>_. Ready)(0 := Greeting 20), registered)"
    by (rule registers.intros [OF _ _ _ _ registered_step]) (simp_all add: started_worker limits)
  then show "drive (Worker_thread 0) (Accepting, (\<lambda>_. Ready), started)
      (Accepting, (\<lambda>_. Ready)(0 := Greeting 20), registered)" by (rule drive.d_registers)
qed

lemma resume_step: "drive Main_thread (Waiting 20 0, (\<lambda>_. Ready), asked) (Accepting, (\<lambda>_. Ready), greeting)"
  by (rule drive.d_resumes [OF _ greeting_handed]) simp

lemma less_10: "n < 10 \<Longrightarrow> n = 0 \<or> n = 1 \<or> n = 2 \<or> n = 3 \<or> n = 4 \<or> n = 5 \<or> n = 6 \<or> n = 7 \<or> n = 8 \<or> n = (9 :: nat)"
  by presburger

lemma first_run_at:
  "configs ! 0 = conf (Waiting 20 0) Ready asked [Unlock (Count_lock 0)] [] (free(Count_lock 0 := Some Main_thread))"
  "configs ! 1 = conf (Waiting 20 0) Ready asked [] [] free"
  "configs ! 2 = conf Accepting Ready greeting [Sem_wait 0] [] free"
  "configs ! 3 = conf Accepting Ready greeting [] [] free"
  "configs ! 4 = conf Accepting Ready started [] [Epoll_add 5 10] free"
  "configs ! 5 = conf Accepting Ready started [] [] free"
  "configs ! 6 = conf Accepting (Greeting 20) registered [] [Sem_post 0, Epoll_add 5 20] free"
  "configs ! 7 = conf Accepting (Greeting 20) registered [] [Epoll_add 5 20] free"
  "configs ! 8 = conf Accepting (Greeting 20) registered [] [] free"
  "configs ! 9 = conf Accepting Ready greeted [] [greet_action] free"
  "configs ! 10 = conf Accepting Ready greeted [] [] free"
  by (simp_all add: configs_def)

lemma configs_step:
  assumes "n < 10"
  shows "\<exists>i. sched_step {} i [] (configs ! n) (configs ! Suc n)"
proof -
  have 0: "sched_step {} Main_thread [] (configs ! 0) (configs ! 1)"
    unfolding first_run_at using main_acts [of "free(Count_lock 0 := Some Main_thread)" "Unlock (Count_lock 0)"] by simp
  have 1: "sched_step {} Main_thread [] (configs ! 1) (configs ! 2)"
    unfolding first_run_at by (rule main_enters [where as = "[Sem_wait 0]"]) (simp_all add: resume_step)
  have 2: "sched_step {} Main_thread [] (configs ! 2) (configs ! 3)"
    unfolding first_run_at using main_acts [of free "Sem_wait 0"] by simp
  have 3: "sched_step {} (Worker_thread 0) [] (configs ! 3) (configs ! 4)"
    unfolding first_run_at by (rule worker_enters [where as = "[Epoll_add 5 10]"]) (simp_all add: start_steps)
  have 4: "sched_step {} (Worker_thread 0) [] (configs ! 4) (configs ! 5)"
    unfolding first_run_at using worker_acts [of free "Epoll_add 5 10"] by simp
  have 5: "sched_step {} (Worker_thread 0) [] (configs ! 5) (configs ! 6)"
    unfolding first_run_at
    by (rule worker_enters [where as = "[Sem_post 0, Epoll_add 5 20]"]) (simp_all add: start_steps)
  have 6: "sched_step {} (Worker_thread 0) [] (configs ! 6) (configs ! 7)"
    unfolding first_run_at using worker_acts [of free "Sem_post 0"] by simp
  have 7: "sched_step {} (Worker_thread 0) [] (configs ! 7) (configs ! 8)"
    unfolding first_run_at using worker_acts [of free "Epoll_add 5 20"] by simp
  have 8: "sched_step {} (Worker_thread 0) [] (configs ! 8) (configs ! 9)"
    "sched_step {} (Worker_thread 0) [] (configs ! 9) (configs ! 10)"
    unfolding first_run_at by (rule greet_step)+
  from less_10 [OF assms] 0 1 2 3 4 5 6 7 8 show ?thesis
    by (elim disjE) (simp_all add: eval_nat_numeral, blast+)
qed

lemma first_run_runs: "run_of_threads first_run"
  unfolding run_of_threads_def
proof (intro conjI allI)
  show "\<exists>reads. runs_reach {} reads (first_run 0) \<and> nothing_after_exit reads"
    using asked_reached by (intro exI [of _ "[]"]) (simp add: first_run_def first_run_at)
  fix n
  show "first_run (Suc n) = first_run n \<or>
      (\<exists>i new. sched_step {} i new (first_run n) (first_run (Suc n)) \<and> nothing_after_exit new)"
  proof (cases "n < 10")
    case True
    then have "min n 10 = n" "min (Suc n) 10 = Suc n" by simp_all
    with configs_step [OF True] show ?thesis unfolding first_run_def by (metis nothing_after_exit_simps(1))
  qed (simp add: first_run_def)
qed

lemma first_run_rests: "10 \<le> n \<Longrightarrow> first_run n = conf Accepting Ready greeted [] [] free"
  by (simp add: first_run_def first_run_at)

lemma greeted_worker: "epoll_fd (worker_at greeted 0) = 5" "efd_counter (worker_at greeted 0) = 0"
  by (rule greeted_step, simp add: registered_worker)+

text \<open>At the end nothing is left to do.\<close>

lemma rest_todo: "todo (conf Accepting Ready greeted [] [] free) i = []"
  by (simp add: conf_def)

lemma rest_pending:
  "i = Main_thread \<or> i = Worker_thread 0 \<Longrightarrow> \<not> pending i (conf Accepting Ready greeted [] [] free)"
  using greeted_worker by (auto simp: pending_def rest_todo elim!: drive.cases registers.cases)

lemma first_run_fair: "fair_run first_run 0"
proof -
  note rests = first_run_rests [OF max.cobounded2]
  have "plays_fairly first_run"
    unfolding plays_fairly_def
  proof (intro allI impI)
    fix i n assume "\<forall>m \<ge> n. \<exists>d. plays_next {} i (first_run m) d"
    then have "\<exists>d. plays_next {} i (first_run (max n 10)) d" by simp
    then show "\<exists>m \<ge> n. plays_next {} i (first_run m) (first_run (Suc m))" by (simp add: rests plays_next_def rest_todo)
  qed
  moreover have "locks_fairly first_run i" if "i = Main_thread \<or> i = Worker_thread 0" for i
    unfolding locks_fairly_def
  proof (intro allI impI)
    fix n assume "\<forall>m \<ge> n. pending i (first_run m)"
    then have "pending i (first_run (max n 10))" by simp
    with rest_pending [OF that] show "\<exists>m \<ge> n. thread_moves i (first_run m) (first_run (Suc m))" by (simp add: rests)
  qed
  moreover have "polls_fairly first_run 0"
    unfolding polls_fairly_def
  proof
    assume "\<forall>n. \<exists>m \<ge> n. eventfd_waits 0 (first_run m)"
    then obtain m where "10 \<le> m" "eventfd_waits 0 (first_run m)" by blast
    then have "eventfd_waits 0 (conf Accepting Ready greeted [] [] free)" by (simp add: first_run_rests)
    then show "\<exists>n y. registers 0 (now (first_run n)) y \<and>
        enters (Worker_thread 0) y (first_run n) (first_run (Suc n))"
      by cases (simp add: greeted_worker)
  qed
  moreover have "gets_started first_run 0"
    unfolding gets_started_def by (intro exI [of _ 10]) (simp add: first_run_rests greeted_worker)
  ultimately show ?thesis by (simp add: fair_run_def)
qed

end
