(* ===== verification/Fine_View.thy ===== *)
theory Fine_View
  imports Field_Types Room_View
begin

text \<open>
  What a client learns of its place while all threads are at work: between any two states in which its slot is
  in use, the frames sent to its socket tell it the difference, whatever the other threads did. Its
  own worker answers it; the answers of the others go to other sockets, and the notices of the rooms change
  nobody's mind.
\<close>

section \<open>The worker that serves the client\<close>

lemma then_next_follows:
  assumes "then_next p rest m = Inr (c, t)" and "res_all (follows p s) m"
  shows "follows p s t"
proof -
  from assms(1) obtain u where u: "m = Inr u" "t = clear_msg p u" by (auto simp: then_next_eq)
  have "follows p u (clear_msg p u)" unfolding clear_msg_def by (rule buffer_follows)
  with res_allD [OF assms(2) u(1)] show ?thesis unfolding u(2) by (rule follow.keep_trans)
qed

lemma next_follows: "follows p s u \<Longrightarrow> next_message p rest u = (c, t) \<Longrightarrow> follows p s t"
  unfolding next_message_def clear_msg_def by (auto intro: follow.keep_trans buffer_follows)

lemma begin_disconnect_follows: "begin_disconnect p after s = Inr (c, t) \<Longrightarrow> follows p s t"
  by (auto simp: begin_disconnect_def res_bind_eq_Inr follow.keep_refl split: if_splits
      intro: res_allD [OF leave_follows])

lemma begin_create_follows: "begin_create p rest s = Inr (c, t) \<Longrightarrow> follows p s t"
  by (auto simp: begin_create_def Let_def res_bind_eq_Inr follow.keep_refl split: if_splits
      intro: then_next_follows send_follows neutral_codes)

lemma begin_awaiting_follows:
  assumes "begin_awaiting p rest s = Inr (c, t)" and "\<not> in_room s p"
  shows "follows p s t"
proof -
  have "follows p s (upd_client p (\<lambda>c. c\<lparr>cname := n, cstate := IN_CHAT_LOBBY\<rparr>) s)" for n
    by (rule follows_quiet) (use assms(2) in \<open>simp_all add: in_room_def\<close>)
  with assms(1) show ?thesis
    by (auto simp: begin_awaiting_def Let_def res_bind_eq_Inr split: if_splits
        intro: then_next_follows send_follows neutral_codes)
qed

lemma begin_lobby_follows: "begin_lobby p rest s = Inr (c, t) \<Longrightarrow> follows p s t"
  by (auto simp: begin_lobby_def Let_def follow.keep_refl split: if_splits
      intro: begin_create_follows then_next_follows join_follows next_follows [OF follow.keep_refl])

lemma begin_in_room_follows: "begin_in_room p rest s = Inr (c, t) \<Longrightarrow> follows p s t"
  by (auto simp: begin_in_room_def Let_def res_bind_eq_Inr split: if_splits
      intro: then_next_follows in_room_follows res_allD [OF leave_follows])

lemma begin_dispatch_follows: "begin_dispatch p rest s = Inr (c, t) \<Longrightarrow> follows p s t"
  by (auto simp: begin_dispatch_def in_room_def split: if_splits client_state.splits
      intro: begin_disconnect_follows begin_awaiting_follows begin_lobby_follows begin_in_room_follows)

lemma begin_route_follows:
  assumes "begin_route p rest s = Inr (c, t)"
  shows "follows p s t"
proof -
  from assms obtain b u where v: "validate_msg_format p s = Inr (b, u)" and
    r: "(if \<not> b then Inr (next_message p rest u) else res_bind (command_valid_for_state p u)
      (\<lambda>(allowed, u). if \<not> allowed then Inr (next_message p rest u) else begin_dispatch p rest u)) = Inr (c, t)"
    by (auto simp: begin_route_def res_bind_eq_Inr)
  have u: "follows p s u" using res_allD [OF validate_follows v] by simp
  show ?thesis
  proof (cases b)
    case False
    with u r show ?thesis by (auto intro: next_follows)
  next
    case True
    with r obtain a x where x: "command_valid_for_state p u = Inr (a, x)" and
      d: "(if \<not> a then Inr (next_message p rest x) else begin_dispatch p rest x) = Inr (c, t)"
      by (auto simp: res_bind_eq_Inr)
    have "follows p u x" using res_allD [OF state_valid_follows x] by simp
    with u have "follows p s x" by (rule follow.keep_trans)
    with d show ?thesis
      by (auto intro: next_follows follow.keep_trans begin_dispatch_follows split: if_splits)
  qed
qed

lemma append_follows: "append_msg p x s = Inr u \<Longrightarrow> follows p s u"
  by (auto simp: append_msg_def res_bind_eq_Inr buffer_follows)

lemma chunk_follows:
  assumes m: "micro w (Chunk p temp) s = Inr (c, t)"
  shows "follows p s t"
proof (cases "split_crlf temp")
  case None
  with m show ?thesis by (auto simp: res_bind_eq_Inr follow.keep_refl intro: append_follows split: if_splits)
next
  case (Some x)
  with m obtain seg rest u where "append_msg p seg s = Inr u" "begin_route p rest u = Inr (c, t)"
    by (cases x) (auto simp: res_bind_eq_Inr)
  then show ?thesis by (blast intro: follow.keep_trans append_follows begin_route_follows)
qed

lemma locked_follows: "follows p s (emit (Unlock l) (emit (Lock l) s))"
  by (rule follow.keep_trans [of _ _ "emit (Lock l) s"]) simp_all

lemma create_step_follows:
  assumes m: "create_step p name success i rest s = Inr (c, t)"
  shows "follows p s t"
proof -
  let ?s = "emit (Lock (Room_lock i)) s"
  have found: "res_all (follows p s) (found_room p name success i ?s)"
    by (rule follow.keep_after [OF _ found_room_follows]) simp
  from m consider "t = emit (Unlock (Room_lock i)) ?s"
    | "then_next p rest (found_room p name success i ?s) = Inr (c, t)"
    | "then_next p rest (send_message_to_client (client_fd (client_at s p)) ERR_ROOM_CAPACITY_FULL
        rooms_full_text s) = Inr (c, t)"
    by (cases "i < MAX_ROOMS"; cases "r_in_use (room_at s i)") (auto simp: create_step_def Let_def)
  then show ?thesis
  proof cases
    case 1
    show ?thesis unfolding 1 by (rule locked_follows)
  next
    case 2
    then show ?thesis using found by (rule then_next_follows)
  next
    case 3
    then show ?thesis by (rule then_next_follows) (rule send_follows, simp)
  qed
qed

lemma list_step_follows:
  assumes m: "list_step p i acc avail rest s = Inr (c, t)"
  shows "follows p s t"
proof (cases "i < MAX_ROOMS")
  case True
  with m have "t = emit (Unlock (Room_lock i)) (emit (Lock (Room_lock i)) s)"
    by (auto simp: list_step_def Let_def res_bind_eq_Inr split: if_splits)
  then show ?thesis by (simp only: locked_follows)
next
  case False
  with m have t: "then_next p rest (send_list p acc avail s) = Inr (c, t)"
    by (simp add: list_step_def send_list_def)
  have "res_all (follows p s) (send_list p acc avail s)"
    unfolding send_list_def by (rule follow.keep_bind_value) (rule send_follows, simp)
  with t show ?thesis by (rule then_next_follows)
qed

lemma left_step_follows:
  assumes m: "left_step p ri rest s = Inr (c, t)"
  shows "follows p s t"
proof -
  let ?l = "Room_lock (nat ri)" and ?f = "\<lambda>c. c\<lparr>cstate := IN_CHAT_LOBBY\<rparr>"
  from m obtain u where
    u: "send_message_to_client (client_fd (client_at s p)) CMD_ROOM_LEAVE_OK left_ok_text (emit (Lock ?l) s) = Inr u" and
    t: "t = clear_msg p (upd_client p ?f (emit (Unlock ?l) u))"
    by (auto simp: left_step_def Let_def then_next_eq res_bind_eq_Inr)
  note same = only_sends_state [OF send_InrD [OF u]]
  let ?v = "upd_client p ?f (emit (Unlock ?l) u)"
  have "sent_frames (trace ?v) = sent_frames (trace s) @
      [(client_fd (client_at s p), frame CMD_ROOM_LEAVE_OK left_ok_text)]"
    using res_allD [OF send_frames u] by simp
  then have "follows p s ?v"
    by (rule followsI [rotated 2]) (simp_all add: same in_room_def reply_effect_def reply_codes)
  then show ?thesis
    unfolding t clear_msg_def by (blast intro: follow.keep_trans buffer_follows)
qed

section \<open>Any worker, any client\<close>

text \<open>The client a worker is serving at a point.\<close>

fun serves :: "pc \<Rightarrow> cptr option" where
  "serves (Chunk p temp) = Some p"
| "serves (Creating p name success i rest) = Some p"
| "serves (Listing p i acc avail rest) = Some p"
| "serves (Left p ri rest) = Some p"
| "serves c = None"

lemma serving_follows: "micro w c s = Inr (c', t) \<Longrightarrow> serves c = Some q \<Longrightarrow> follows q s t"
  by (cases c) (auto intro: chunk_follows create_step_follows list_step_follows left_step_follows
      simp del: micro.simps(2))

lemma informed_send: "neutral code \<Longrightarrow> res_all (informed p s) (send_message_to_client fd code m s)"
  by (rule res_all_mono [OF send_follows follows_informed])

lemma actor_informs:
  assumes f: "follows q s t" and d: "sockets_differ s"
    and "c_in_use (client_at s p)" and "c_in_use (client_at s q)"
  shows "informed p s t"
proof (cases "p = q")
  case True
  with f show ?thesis by (simp add: follows_informed)
next
  case False
  with d assms(3,4) have "client_fd (client_at s p) \<noteq> client_fd (client_at s q)" by (auto simp: sockets_differ_def)
  with f False show ?thesis by (rule follows_others)
qed

lemma decrement_informs: "informed p s (decrement_clients w s)"
  by (rule informed_quiet) (simp_all add: decrement_clients_def in_room_def)

lemma micro_informs:
  assumes m: "micro w c s = Inr (c', t)" and ok: "pc_ok w c s" and d: "sockets_differ s"
    and p: "c_in_use (client_at s p)" "c_in_use (client_at t p)"
  shows "informed p s t"
proof (cases "serves c")
  case (Some q)
  note f = serving_follows [OF m Some]
  show ?thesis
  proof (cases "c_in_use (client_at s q)")
    case True
    with actor_informs [OF f d p(1)] show ?thesis by blast
  next
    case False
    with ok Some obtain temp where "c = Chunk q []" by (cases c) auto
    with m have "t = s" by simp
    then show ?thesis by (simp add: inform.keep_refl)
  qed
next
  case None
  then show ?thesis
  proof (cases c)
    case (Closing q after)
    with m p have "p \<noteq> q" "t = clear_slot q s" by (auto simp: clear_slot_def Let_def)
    then show ?thesis by (intro informed_quiet) (simp_all add: clear_slot_def Let_def in_room_def)
  next
    case (Uncounting q after)
    with m have "t = decrement_clients (owner q) s \<or> t = clear_msg q (decrement_clients (owner q) s)"
      by (auto simp: after_cleanup_def next_message_def split: option.splits)
    moreover have "informed p u (clear_msg q u)" for u
      by (rule informed_quiet) (simp_all add: in_room_def clear_msg_def)
    ultimately show ?thesis by (auto intro: inform.keep_trans [OF decrement_informs] decrement_informs)
  next
    case (Greeting fd)
    with m show ?thesis by (auto simp: res_bind_eq_Inr intro: res_allD [OF informed_send] neutral_codes)
  next
    case (Refusing fd)
    with m have "t = emit (Close fd) (decrement_clients w s)" by simp
    moreover have "informed p (decrement_clients w s) (emit (Close fd) (decrement_clients w s))"
      by (rule informed_quiet) (simp_all add: in_room_def)
    ultimately show ?thesis using decrement_informs by (auto intro: inform.keep_trans)
  qed (use m None inform.keep_refl in auto)
qed

section \<open>Any step\<close>

lemma begin_informs:
  assumes b: "begin_event w e s = Inr (c, t)" and d: "sockets_differ s"
    and pos: "ev_fd e = notification_fd (worker_at s w) \<or> 0 < ev_fd e" and slots: "slots_ok (settle cs s)"
    and p: "c_in_use (client_at s p)" "c_in_use (client_at t p)"
  shows "informed p s t"
proof (cases "ev_fd e = notification_fd (worker_at s w)")
  case True
  let ?fd = "efd_to_fd (efd_counter (worker_at s w))"
  obtain r u where u: "register_with_epoll w ?fd (ev_add_ok e) (read_efd w s) = (r, u)" by fastforce
  then have same: "client_at u q = client_at s q" "sent_frames (trace u) = sent_frames (trace s)" for q
    by (auto simp: register_with_epoll_def Let_def read_efd_def split: if_splits)
  have new: "informed p s (upd_client (Cptr w i) (\<lambda>_. new_client_in_slot ?fd) u)"
    if "first_index (\<lambda>i. \<not> c_in_use (client_at u (Cptr w i))) 0 MAX_CLIENTS_PER_THREAD = Some i" for i
  proof -
    from first_index_bound [OF that] p(1) have "p \<noteq> Cptr w i" by (auto simp: same)
    then show ?thesis by (intro informed_quiet) (simp_all add: same in_room_def)
  qed
  have "informed p s u" by (rule informed_quiet) (simp_all add: same in_room_def)
  moreover have "informed p s (emit (Sem_post w) (upd_worker w (\<lambda>t. t\<lparr>new_client := new_client t + 1\<rparr>)
      (decrement_clients w s)))"
    by (rule informed_quiet) (simp_all add: decrement_clients_def in_room_def)
  ultimately show ?thesis
    using b True u new by (auto simp: begin_event_def begin_register_def Let_def split: if_splits option.splits)
next
  case False
  with b have "t = s \<or> (\<exists>q. find_client_by_fd w (ev_fd e) s = Some q \<and> begin_disconnect q None s = Inr (c, t))"
    by (auto simp: begin_event_def begin_read_def split: option.splits if_splits recv_result.splits)
  then show ?thesis
  proof
    assume "\<exists>q. find_client_by_fd w (ev_fd e) s = Some q \<and> begin_disconnect q None s = Inr (c, t)"
    then obtain q where q: "find_client_by_fd w (ev_fd e) s = Some q" "begin_disconnect q None s = Inr (c, t)" by blast
    have "find_client_by_fd w (ev_fd e) (settle cs s) = Some q" using q(1) by (simp add: find_client_by_fd_def)
    from find_client_Some [OF this _ slots] pos False have "c_in_use (client_at s q)" by simp
    with actor_informs [OF begin_disconnect_follows [OF q(2)] d p(1)] show ?thesis by blast
  qed (simp add: inform.keep_refl)
qed

lemma choose_informs: "choose_step fd left s = Inr (m, t) \<Longrightarrow> informed p s t"
proof -
  assume c: "choose_step fd left s = Inr (m, t)"
  let ?l = "Count_lock (worker_index s)"
  let ?s = "next_index (emit (Unlock ?l) (emit (Lock ?l) s))"
  have s: "informed p s ?s" by (rule informed_quiet) (simp_all add: next_index_eq in_room_def)
  have add: "informed p s (next_index (emit (Unlock ?l) (upd_worker v (\<lambda>t. t\<lparr>num_of_clients := num_of_clients t + 1\<rparr>)
      (emit (Lock ?l) s))))" for v
    by (rule informed_quiet) (simp_all add: next_index_eq in_room_def)
  have full: "informed p s (emit (Close fd) u)"
    if "send_message_to_client fd ERR_SERVER_FULL capacity_text ?s = Inr u" for u
  proof -
    have "informed p ?s u" using that by (rule res_allD [OF informed_send, rotated]) simp
    moreover have "informed p u (emit (Close fd) u)" by (rule informed_quiet) (simp_all add: in_room_def)
    ultimately show ?thesis using s by (blast intro: inform.keep_trans)
  qed
  from c s add full show ?thesis
    by (auto simp: choose_step_def Let_def res_bind_eq_Inr split: if_splits nat.splits)
qed

lemma hand_over_informs: "hand_over fd w write_ok s = Inr t \<Longrightarrow> informed p s t"
proof -
  let ?s1 = "emit (Sem_wait w) (upd_worker w (\<lambda>t. t\<lparr>new_client := new_client t - 1\<rparr>) s)"
  let ?s2 = "emit (Sem_post w) (upd_worker w (\<lambda>t. t\<lparr>new_client := new_client t + 1\<rparr>) ?s1)"
  assume h: "hand_over fd w write_ok s = Inr t"
  have ok: "informed p s (upd_worker w (\<lambda>t. t\<lparr>efd_counter := efd_counter t + v\<rparr>) ?s1)" for v
    by (rule informed_quiet) (simp_all add: in_room_def)
  have bad: "informed p s (decrement_clients w (emit (Close fd) u))"
    if "send_message_to_client fd ERR_CONNECTING connection_text ?s2 = Inr u" for u
  proof -
    have "informed p s ?s2" by (rule informed_quiet) (simp_all add: in_room_def)
    moreover have "informed p ?s2 u" using that by (rule res_allD [OF informed_send, rotated]) simp
    moreover have "informed p u (emit (Close fd) u)" by (rule informed_quiet) (simp_all add: in_room_def)
    ultimately show ?thesis using decrement_informs by (blast intro: inform.keep_trans)
  qed
  from h ok bad show ?thesis
    by (auto simp: hand_over_def handle_write_error_def Let_def res_bind_eq_Inr split: if_splits)
qed

lemma reachable_sockets: "fine_reachable (m, cs, s) \<Longrightarrow> sockets_differ s \<and> slots_ok (settle cs s)"
proof -
  assume "fine_reachable (m, cs, s)"
  then have inv: "sys_inv (settle_main m, settle cs s)" by (rule fine_invD(1) [OF fine_reachable_inv])
  have fds: "fds_ok (settle_main m) (settle cs s)" by (rule sys_invD(3) [OF inv])
  have "p = q" if "c_in_use (client_at s p)" "c_in_use (client_at s q)"
    "client_fd (client_at s p) = client_fd (client_at s q)" for p q
  proof -
    have "fd_of (settle_main m) (settle cs s) (In_slot p) = fd_of (settle_main m) (settle cs s) (In_slot q)"
      "fd_of (settle_main m) (settle cs s) (In_slot p) = Some (client_fd (client_at s p))"
      using that by simp_all
    with fds have "In_slot p = In_slot q" unfolding fds_ok_def by metis
    then show ?thesis by simp
  qed
  moreover note sys_invD(2) [OF inv]
  ultimately show ?thesis by (auto simp: sockets_differ_def)
qed

lemma fine_step_informs:
  assumes "fine_step (m, cs, s) (m', cs', t)" and "fine_reachable (m, cs, s)"
    and p: "c_in_use (client_at s p)" "c_in_use (client_at t p)"
  shows "informed p s t"
  using assms(1)
proof (cases rule: fine_step.cases)
  case (f_starts w efd add_ok)
  then have worker_start_eq: "worker_start w efd add_ok s = Some t" by simp
  from worker_start_eq have "sent_frames (trace t) = sent_frames (trace s)"
    by (auto simp: worker_start_def register_with_epoll_def Let_def split: if_splits)
  with worker_start_fields(1) [OF worker_start_eq] show ?thesis by (intro informed_quiet) (simp_all add: in_room_def)
next
  case (f_accepts fd opts)
  then show ?thesis by (simp add: inform.keep_refl)
next
  case (f_chooses fd left)
  then show ?thesis by (simp add: choose_informs)
next
  case (f_resumes w fd write_ok)
  then show ?thesis by (simp add: hand_over_informs)
next
  case (f_begins w e c)
  then have "ev_fd e = notification_fd (worker_at s w) \<or> 0 < ev_fd e" by (auto simp: event_ok_def split: if_splits)
  moreover from f_begins have "begin_event w e s = Inr (c, t)" by simp
  ultimately show ?thesis using begin_informs reachable_sockets [OF assms(2)] p by blast
next
  case (f_continues w c)
  then have "micro w (cs w) s = Inr (c, t)" by simp
  with micro_informs [OF this fine_invD(3) [OF fine_reachable_inv [OF assms(2)]]]
    reachable_sockets [OF assms(2)] p show ?thesis by blast
qed

section \<open>Any number of steps\<close>

text \<open>Steps during which the slot stays in use.\<close>

definition step_of :: "cptr \<Rightarrow> fine \<Rightarrow> fine \<Rightarrow> bool" where
  "step_of p x y \<longleftrightarrow> fine_step x y \<and> c_in_use (client_at (snd (snd x)) p) \<and> c_in_use (client_at (snd (snd y)) p)"

lemma steps_reachable: "(step_of p)\<^sup>*\<^sup>* x y \<Longrightarrow> fine_reachable x \<Longrightarrow> fine_reachable y"
  by (induction rule: rtranclp_induct) (auto simp: step_of_def intro: fine_reachable.f_steps)

lemma steps_inform:
  "(step_of p)\<^sup>*\<^sup>* x y \<Longrightarrow> fine_reachable x \<Longrightarrow> informed p (snd (snd x)) (snd (snd y))"
proof (induction rule: rtranclp_induct)
  case base
  show ?case by (rule inform.keep_refl)
next
  case (step y z)
  obtain m cs s where y: "y = (m, cs, s)" by (cases y)
  obtain m' cs' t where z: "z = (m', cs', t)" by (cases z)
  have "fine_reachable y" using steps_reachable [OF step(1,4)] .
  with step(2) have "informed p s t"
    unfolding y z step_of_def by (auto intro: fine_step_informs)
  with step(3) [OF step(4)] show ?case unfolding y z by (auto intro: inform.keep_trans)
qed

end
