(* ===== verification/Thread_Properties.thy ===== *)
theory Thread_Properties
  imports Fair_Samples Fine_View
begin

text \<open>
  The properties of the threads together, at the grain of their critical sections.
\<close>

section \<open>States\<close>

lemma chosen_fine: "fine_reachable (Choosing 20 MAX_THREADS, (\<lambda>_. Ready), booted)"
  by (rule fine_reachable.f_steps [OF booted_fine fine_step.f_accepts [OF booted_fresh accept_ok]])

text \<open>The main thread has chosen worker 0. Nothing has been read so far.\<close>

lemma chosen_threads: "threads_reach [] (Choosing 20 MAX_THREADS, (\<lambda>_. Ready), booted)"
  using threads_reach.t_takes [OF threads_reach.t_boots [OF booted_setup] intake.i_accepts [OF booted_fresh accept_ok]]
  by simp

lemma asked_threads: "threads_reach [] (Waiting 20 0, (\<lambda>_. Ready), asked)"
  using runs_threads [OF asked_reached] by simp

section \<open>Types\<close>



section \<open>The steps and the source\<close>

text \<open>
  C9: The small steps are a faithful cut of the handlers: for every worker, event and state, making the
  first step of the event and then running the worker's steps without interruption gives the very state,
  trace included, or the very fault, of the whole handler.
\<close>

theorem steps_are_the_handler:
  "res_bind (begin_event w e s) (\<lambda>(c, t). run_pc w c t) = handle_event w e s"
  using resume_event [of w e s] by (simp add: resume_def)

text \<open>
  C15: Every state that the threads reach by taking turns at whole operations (one accept, one
  hand-over, one epoll event) is also reached, with the workers at rest, when they take turns at critical
  sections; so what holds under the finer interleaving holds of the whole operations too.
\<close>

theorem whole_operations_are_schedules:
  assumes "reachable (m, s)"
  shows "fine_reachable (at_main m, (\<lambda>_. Ready), s)"
  using reachable_fine [OF assms] by simp

theorem whole_operations_are_schedules_witness:
  "fine_reachable (Accepting, (\<lambda>_. Ready), greeting)"
  using whole_operations_are_schedules [OF greeting_reachable] by simp

text \<open>
  C14: Each step of each thread holds at most one critical section: it takes at most one lock, and only
  when it holds none; it gives back what it took, waits for the semaphore only without a lock, and ends
  with none. So a thread that waits for a lock holds no other.
\<close>

theorem one_lock_at_a_time:
  assumes "fine_step (m, cs, s) (m', cs', t)"
  shows "\<exists>as. trace t = trace s @ as \<and> held None as = Some None \<and> length (filter is_lock as) \<le> 1"
  using fine_step_sections [OF assms] by (simp add: sections_def)

theorem one_lock_at_a_time_witness:
  "\<exists>m t. choose_step 20 MAX_THREADS booted = Inr (m, t) \<and> length (filter is_lock (trace t)) \<le> 1"
proof -
  obtain m t where t: "choose_step 20 MAX_THREADS booted = Inr (m, t)" using choose_returns by blast
  then have "fine_step (Choosing 20 MAX_THREADS, (\<lambda>_. Ready), booted) (m, (\<lambda>_. Ready), t)"
    by (rule fine_step.f_chooses)
  from one_lock_at_a_time [OF this] t show ?thesis by auto
qed

section \<open>Invariants under every interleaving\<close>

text \<open>
  C7: As long as no client has sent anything after an EXIT in the same chunk, then whatever the interleaving of
  the threads, between any two steps the room table is consistent:
  \<open>num_clients\<close> is the number of the different members of a room, the room is in use exactly when it
  has one, every stored pointer leads to a slot in use whose client is in that room (so a broadcast never
  reads a freed slot), and a client that says it is in the room is stored there, unless its own worker is
  just between taking it out and changing its state. (\<open>exit_is_not_the_end\<close> shows that the program needs the
  condition.)
\<close>

theorem rooms_consistent_interleaved:
  assumes "threads_reach reads (m, cs, s)" and "nothing_after_exit reads" and "i < MAX_ROOMS"
  shows "num_clients (room_at s i) = int (card {q. \<exists>k. sits s i k q}) \<and>
    (r_in_use (room_at s i) \<longleftrightarrow> {q. \<exists>k. sits s i k q} \<noteq> {}) \<and>
    {q. \<exists>k. sits s i k q} = {q. cstate (client_at s q) = IN_CHAT_ROOM \<and>
      room_index (client_at s q) = int i \<and> transit (cs (owner q)) \<noteq> Some q} \<and>
    (\<forall>q \<in> {q. \<exists>k. sits s i k q}. c_in_use (client_at s q))"
proof -
  let ?S = "settle cs s"
  have "table_inv ?S" using sys_invD(1) [OF fine_invD(1) [OF fine_reachable_inv [OF threads_fine [OF assms(1,2)]]]] .
  then have inv: "rooms_ok ?S" "linked ?S" by (simp_all add: table_inv_def)
  have sits: "sits ?S i k q = sits s i k q" for k q by (simp add: sits_def)
  have members: "{q. \<exists>k. sits s i k q} = {q. cstate (client_at s q) = IN_CHAT_ROOM \<and>
      room_index (client_at s q) = int i \<and> transit (cs (owner q)) \<noteq> Some q}"
  proof (intro set_eqI iffI)
    fix q assume "q \<in> {q. \<exists>k. sits s i k q}"
    then obtain k where k: "sits ?S i k q" using sits by auto
    from linked_sits(2,3) [OF inv(2) k] show "q \<in> {q. cstate (client_at s q) = IN_CHAT_ROOM \<and>
        room_index (client_at s q) = int i \<and> transit (cs (owner q)) \<noteq> Some q}"
      by (auto simp: settle_client_def split: if_splits)
  next
    fix q assume q: "q \<in> {q. cstate (client_at s q) = IN_CHAT_ROOM \<and>
        room_index (client_at s q) = int i \<and> transit (cs (owner q)) \<noteq> Some q}"
    then have "cstate (client_at ?S q) = IN_CHAT_ROOM" by simp
    from linked_stored [OF inv(2) this] obtain j k where jk: "sits ?S j k q" by blast
    with linked_sits(3) [OF inv(2) jk] q have "j = i" by simp
    with jk sits show "q \<in> {q. \<exists>k. sits s i k q}" by auto
  qed
  have "num_clients (room_at s i) = int (card {q. \<exists>k. sits s i k q})"
    using rooms_okD [OF inv(1) assms(3)] card_members [OF linked_seated [OF inv(2)] assms(3)] by (simp add: room_ok_def sits)
  moreover have "r_in_use (room_at s i) \<longleftrightarrow> {q. \<exists>k. sits s i k q} \<noteq> {}"
    using in_use_sits [OF inv(1) assms(3)] by (auto simp: sits)
  moreover have "c_in_use (client_at s q)" if "sits s i k q" for k q
    using linked_sits(1) [OF inv(2), of i k q] that by (simp add: sits)
  ultimately show ?thesis using members by blast
qed

theorem rooms_consistent_interleaved_witness:
  "\<not> r_in_use (room_at booted 7) \<and> card {q. \<exists>k. sits booted 7 k q} = 0"
  using rooms_consistent_interleaved [OF chosen_threads, of 7] by (simp add: limits)

text \<open>
  C8: As long as no client has sent anything after an EXIT in the same chunk, then whatever the interleaving
  \<open>num_of_clients\<close> of a worker accounts for every client from the moment it is chosen for that worker: it is
  the number of slots in use, plus the client the main thread wants to hand over, plus the one in the eventfd,
  plus the one the worker has dropped but not yet counted off. All of these together are never more than
  1500, so a slot is always free for a client that arrives; and the semaphore is free exactly while the eventfd
  is empty.
\<close>

theorem clients_accounted_interleaved:
  assumes "threads_reach reads (m, cs, s)" and "nothing_after_exit reads" and "w < MAX_THREADS"
  shows "num_of_clients (worker_at s w) = int (client_count (worker_at s w) +
      pending_main (settle_main m) w + pending_efd s w + uncounted (cs w)) \<and>
    num_of_clients (worker_at s w) \<le> int MAX_CLIENTS_PER_THREAD \<and>
    new_client (worker_at s w) + pending_efd s w = 1"
proof -
  note reach = threads_fine [OF assms(1,2)]
  have "worker_ok (settle_main m) (settle cs s) w"
    using sys_invD(6) [OF fine_invD(1) [OF fine_reachable_inv [OF reach]] assms(3)] .
  moreover have "client_count (worker_at (settle cs s) w) = client_count (worker_at s w)"
    unfolding client_count_alt by simp
  moreover have "pending_efd (settle cs s) w = pending_efd s w" by (simp add: pending_efd_def)
  moreover have "num_of_clients (worker_at s w) \<le> int MAX_CLIENTS_PER_THREAD"
    using fine_reachable_types [OF reach] by (simp add: types_ok_def fields_ok_def worker_typed_def)
  ultimately show ?thesis by (simp add: worker_ok_def)
qed

theorem clients_accounted_interleaved_witness:
  "num_of_clients (worker_at asked 0) = 1 \<and> client_count (worker_at asked 0) = 0"
  using clients_accounted_interleaved [OF asked_threads, of 0] by (simp add: pending_main_def limits)

text \<open>
  Whatever the interleaving, a descriptor has one holder (the main thread, an eventfd or a slot)
  and is positive, so a client found by its descriptor is the right one and never a free slot, whose
  descriptor field is 0.
\<close>

lemma descriptors_distinct_interleaved:
  assumes "fine_reachable (m, cs, s)" and "fd_of (settle_main m) s h = Some fd" and "fd_of (settle_main m) s g = Some fd"
  shows "h = g \<and> 0 < fd"
proof -
  let ?m = "settle_main m"
  have ok: "fds_ok ?m (settle cs s)" using sys_invD(3) [OF fine_invD(1) [OF fine_reachable_inv [OF assms(1)]]] .
  have "fd_of ?m (settle cs s) x = fd_of ?m s x" for x by (cases x) simp_all
  with ok assms(2,3) show ?thesis by (auto simp: fds_ok_def valid_fd_def)
qed

lemma descriptors_distinct_interleaved_witness:
  "{h. fd_of Main_accepting greeting h = Some 20} = {In_eventfd 0}"
proof -
  have efd: "fd_of Main_accepting greeting (In_eventfd 0) = Some 20"
    by (simp add: greeting_worker efd_to_fd_def)
  have "fine_reachable (Accepting, (\<lambda>_. Ready), greeting)"
    using reachable_fine [OF greeting_reachable] by simp
  from descriptors_distinct_interleaved [OF this, of _ 20 "In_eventfd 0"] efd show ?thesis by auto
qed

section \<open>Progress\<close>

lemma named_bytes: "exit_last [] (frame CMD_USERNAME_SUBMIT ''ann'')"
  by (subst exit_last.simps, subst split_frame [of _ _ "[]", simplified])
    (simp_all add: command_codes is_exit_def exit_last.simps [of _ "[]"])

text \<open>A client of worker 0 submits its name.\<close>

lemma naming:
  obtains s where "fine_reachable (Accepting, (\<lambda>_. Ready), s)"
    "fine_step (Accepting, (\<lambda>_. Ready), s)
      (Accepting, (\<lambda>_. Ready)(0 := Chunk ann (frame CMD_USERNAME_SUBMIT ''ann'')), s)"
    "client_at s ann = new_client_in_slot 20"
proof -
  from welcomed obtain s where s: "reachable (Main_accepting, s)" "client_at s ann = new_client_in_slot 20"
    "epoll_fd (worker_at s 0) = 5" "notification_fd (worker_at s 0) = 10" by blast
  have c: "client_fd (client_at s ann) = 20" "c_in_use (client_at s ann)" "current_msg (client_at s ann) = []"
    by (simp_all add: s(2) new_client_in_slot_def)
  let ?b = "frame CMD_USERNAME_SUBMIT ''ann''"
  let ?e = "\<lparr>ev_fd = 20, ev_events = 1, ev_recv = Received ?b, ev_add_ok = True\<rparr>"
  have f: "find_client_by_fd 0 20 s = Some ann"
    using c(1) by (simp add: find_client_by_fd_def ann_def)
  have b: "cstr (take MAX_MESSAGE_LEN_TO_SERVER ?b) = ?b"
    by (rule whole_frame) (simp_all add: limits command_codes)
  have x: "fine_reachable (Accepting, (\<lambda>_. Ready), s)" using reachable_fine [OF s(1)] by simp
  have "(1 :: 32 word) AND (EPOLLRDHUP OR EPOLLERR OR EPOLLHUP) = 0"
    by (simp add: EPOLLRDHUP_def EPOLLERR_def EPOLLHUP_def)
  then have "begin_event 0 ?e s = Inr (Chunk ann ?b, s)"
    by (simp add: begin_event_def begin_read_def f b s(4))
  moreover have "event_ok 0 ?e s" using named_bytes by (simp add: event_ok_def f b s(4) c)
  ultimately have "fine_step (Accepting, (\<lambda>_. Ready), s) (Accepting, (\<lambda>_. Ready)(0 := Chunk ann ?b), s)"
    using s(3) by (intro fine_step.f_begins) simp_all
  with x s(2) show thesis using that by blast
qed

text \<open>
  C18: Whatever the threads do and in whatever order, a client that parses the frames it is sent one by
  one knows whether it is in a room: take any two states on a path of steps on which its slot
  stays in use; if its flag agreed with the slot in the first, then after the frames that all threads
  together have sent to its socket it agrees in the second. (On the path, and on the way to it, no client
  sends anything after an EXIT in the same chunk.)
\<close>

theorem client_knows_its_room_interleaved:
  assumes "fine_reachable (m, cs, s)" and "(step_of p)\<^sup>*\<^sup>* (m, cs, s) (m', cs', t)"
    and "is_in_room a = (cstate (client_at s p) = IN_CHAT_ROOM)"
  shows "\<exists>new. sent_frames (trace t) = sent_frames (trace s) @ new \<and>
    is_in_room (foldl (\<lambda>a f. parse_server_msg f a) a (frames_to (client_fd (client_at s p)) new)) =
      (cstate (client_at t p) = IN_CHAT_ROOM)"
proof -
  have fold: "is_in_room (foldl (\<lambda>a f. parse_server_msg f a) b fs) = view fs (is_in_room b)" for b fs
    by (induction fs arbitrary: b) (simp_all add: parse_in_room)
  from steps_inform [OF assms(2,1)] assms(3) show ?thesis
    by (auto simp: informed_def in_room_def fold)
qed

theorem client_knows_its_room_interleaved_witness:
  "\<exists>s t. (step_of ann)\<^sup>*\<^sup>* (Accepting, (\<lambda>_. Ready), s)
      (Accepting, (\<lambda>_. Ready)(0 := Chunk ann (frame CMD_USERNAME_SUBMIT ''ann'')), t) \<and>
    (\<exists>new. sent_frames (trace t) = sent_frames (trace s) @ new \<and>
      \<not> is_in_room (foldl (\<lambda>a f. parse_server_msg f a) (idle_app False) (frames_to 20 new)))"
proof -
  from naming obtain s where s: "fine_reachable (Accepting, (\<lambda>_. Ready), s)"
    "fine_step (Accepting, (\<lambda>_. Ready), s)
      (Accepting, (\<lambda>_. Ready)(0 := Chunk ann (frame CMD_USERNAME_SUBMIT ''ann'')), s)"
    "client_at s ann = new_client_in_slot 20" .
  have c: "client_fd (client_at s ann) = 20" "c_in_use (client_at s ann)" "cstate (client_at s ann) = AWAITING_USERNAME"
    by (simp_all add: s(3) new_client_in_slot_def)
  from s(2) c(2) have "(step_of ann)\<^sup>*\<^sup>* (Accepting, (\<lambda>_. Ready), s)
      (Accepting, (\<lambda>_. Ready)(0 := Chunk ann (frame CMD_USERNAME_SUBMIT ''ann'')), s)"
    by (intro r_into_rtranclp) (simp add: step_of_def)
  from client_knows_its_room_interleaved [OF s(1) this, of "idle_app False"] this c show ?thesis
    by (intro exI [of _ s]) auto
qed

text \<open>
  C12: Work ends: from any state that is reached while no client sends anything after an EXIT in the same
  chunk, however the threads interleave, at most \<open>31690\<close> steps can follow in
  which no worker turns to a new event, no thread starts and no connection is accepted. An event costs a
  worker at most 7921 steps of its own, whatever the other threads do in between, and the main thread
  looks at no more than five workers for a connection.
\<close>

theorem work_ends:
  assumes "fine_reachable x" and "(busy_step ^^ n) x y"
  shows "n \<le> 31690"
proof -
  have "n \<le> total_work x" using busy_steps_work [OF assms(2)] by simp
  also have "\<dots> \<le> MAX_THREADS + 2 + MAX_THREADS * event_work"
    by (rule total_work_bound [OF fine_reachable_work [OF assms(1)]])
  also have "\<dots> = 31690" by (simp add: MAX_THREADS_def event_work_def)
  finally show ?thesis .
qed

theorem work_ends_witness:
  "(\<exists>y. (busy_step ^^ 1) (Choosing 20 MAX_THREADS, (\<lambda>_. Ready), booted) y) \<and>
   {n. \<exists>y. (busy_step ^^ n) (Choosing 20 MAX_THREADS, (\<lambda>_. Ready), booted) y} \<subseteq> {..31690}"
proof
  obtain m t where "choose_step 20 MAX_THREADS booted = Inr (m, t)" using choose_returns by blast
  then show "\<exists>y. (busy_step ^^ 1) (Choosing 20 MAX_THREADS, (\<lambda>_. Ready), booted) y"
    unfolding relpowp_1 by (blast intro: busy_step.b_chooses)
  show "{n. \<exists>y. (busy_step ^^ n) (Choosing 20 MAX_THREADS, (\<lambda>_. Ready), booted) y} \<subseteq> {..31690}"
    using work_ends [OF chosen_fine] by auto
qed

text \<open>
  C10: No deadlock, with locks and a semaphore that block: as long as no client has sent anything after an EXIT in
  the same chunk, every thread that has something to do (the rest of a critical section to play, an event
  under way, a readable eventfd, a connection in its hands) can go on by itself, or waits, through a chain of
  threads that hold the lock, or are to post the semaphore, that the one before waits for, for a thread that can.
  The only exceptions at the end of the chain are named: a thread that sends to a socket on which \<open>send\<close> answers
  \<open>EAGAIN\<close> for ever (\<open>stuck\<close>, any set of sockets), a worker about to overrun one of the two buffers that
  are too small, a worker that has not yet got its epoll instance. No cycle of threads that wait for each
  other can cut off any of them, even while the others run.
\<close>

theorem no_deadlock:
  assumes "runs_reach stuck reads c" and "nothing_after_exit reads" and "has_work c i"
  shows "\<exists>j. (waits_for c)\<^sup>*\<^sup>* i j \<and>
    ((\<exists>d. own_move stuck j c d) \<or> at_socket stuck c j \<or> overruns c j \<or> starting c j)"
  using all_lead_on [OF assms] by (simp add: may_move_def)

theorem no_deadlock_witness:
  "locked_by (first_run 0) (Count_lock 0) = Some Main_thread \<and>
   (\<exists>j. (waits_for (first_run 0))\<^sup>*\<^sup>* Main_thread j \<and> ((\<exists>d. own_move {} j (first_run 0) d) \<or>
     at_socket {} (first_run 0) j \<or> overruns (first_run 0) j \<or> starting (first_run 0) j))"
proof -
  have "runs_reach {} [] (first_run 0)" "has_work (first_run 0) Main_thread"
    using asked_reached by (simp_all add: first_run_def first_run_at)
  from no_deadlock [OF this(1) _ this(2)] show ?thesis by (simp add: first_run_def first_run_at)
qed

text \<open>
  C11: The main thread does not wait in vain: in every infinite run of the threads, with locks that block, in
  which it waits in \<open>sem_wait\<close> for a worker, whatever that worker is doing and whatever the others do, it at
  last gets the semaphore and is back in \<open>accept4\<close>, unless that worker overruns one of the two buffers that
  are too small. The runs are fair: a thread that can go on with what it has begun does so at some time; if no
  lock is held for ever (which is proved), this thread and that worker wait for none for ever; epoll tells the
  worker of its readable eventfd if it comes back to \<open>epoll_wait\<close> again and again (that it does is
  proved); the worker gets its epoll instance. In them no socket answers \<open>EAGAIN\<close> for ever, and no client
  sends anything after an EXIT in the same chunk.
\<close>

theorem wait_for_worker_ends:
  assumes "run_of_threads r" and "fair_run r w" and "fst (now (r 0)) = Waiting fd w"
  shows "\<exists>n. fst (now (r n)) = Accepting \<or> overruns (r n) (Worker_thread w)"
  using wait_is_over [OF assms] by blast

theorem wait_for_worker_ends_witness:
  "epoll_fd (worker_at (server_of (now (first_run 0))) 0) = 0 \<and>
   (\<exists>n. fst (now (first_run n)) = Accepting \<or> overruns (first_run n) (Worker_thread 0))"
proof -
  have "fst (now (first_run 0)) = Waiting 20 0" by (simp add: first_run_def first_run_at)
  from wait_for_worker_ends [OF first_run_runs first_run_fair this] show ?thesis
    by (simp add: first_run_def first_run_at zero_worker_def)
qed

end
