(* ===== verification/Fine_Hall.thy ===== *)
theory Fine_Hall
  imports Field_Types Fine_View Room_Spec
begin

text \<open>
  The hall of \<open>Room_Spec\<close> while all threads are at work. Each step of a thread is one act on the
  hall or none, and the acts, in the order of the critical sections that perform them, explain the hall:
  every message takes effect at one moment between its arrival and its answer. Creating a room takes
  two acts, for the search for a free number looks at one room at a time: the request, and the
  opening under a number that is free at that moment.
\<close>

section \<open>The specification\<close>

type_synonym chat = "hall \<times> (cptr \<Rightarrow> string option)"

definition empty_chat :: chat where
  "empty_chat = (\<lparr>h_rooms = (\<lambda>_. None), h_place = (\<lambda>_. Unnamed)\<rparr>, (\<lambda>_. None))"

datatype act =
    Quiet
  | Message cptr string
  | Opens cptr nat
  | Finds_none cptr
  | Gone cptr

definition open_number :: "cptr \<Rightarrow> string \<Rightarrow> nat \<Rightarrow> hall \<Rightarrow> hall" where
  "open_number p name i h =
     h\<lparr>h_rooms := (h_rooms h)(i := Some (name, {p})), h_place := (h_place h)(p := Sits_in i)\<rparr>"

definition well_formed :: "place \<Rightarrow> string \<Rightarrow> bool" where
  "well_formed x msg \<longleftrightarrow> format_error msg = None \<and> state_error (state_of x) (char_at msg 0) = None"

text \<open>The second component: who has asked for a room, and under which name.\<close>

fun perform :: "act \<Rightarrow> chat \<Rightarrow> chat" where
  "perform Quiet x = x"
| "perform (Message p msg) (h, asks) =
     (if \<not> well_formed (h_place h p) msg then (h, asks)
      else if h_place h p = In_lobby \<and> char_at msg 0 = CMD_ROOM_CREATE_REQUEST then
        (h, if MAX_ROOM_NAME_LEN < length (drop 2 msg) then asks else asks(p := Some (drop 2 msg)))
      else (spec_message p msg h, asks))"
| "perform (Opens p i) (h, asks) =
     (open_number p (case asks p of None \<Rightarrow> [] | Some name \<Rightarrow> name) i h, asks(p := None))"
| "perform (Finds_none p) (h, asks) = (h, asks(p := None))"
| "perform (Gone p) (h, asks) = (spec_leave p Unnamed h, asks)"

text \<open>A client that waits for its room does nothing else; a room is opened under a free number, for a
  client in the lobby.\<close>

fun allowed :: "act \<Rightarrow> chat \<Rightarrow> bool" where
  "allowed Quiet x = True"
| "allowed (Message p msg) (h, asks) \<longleftrightarrow> asks p = None"
| "allowed (Opens p i) (h, asks) \<longleftrightarrow>
     asks p \<noteq> None \<and> i < MAX_ROOMS \<and> h_rooms h i = None \<and> h_place h p = In_lobby"
| "allowed (Finds_none p) (h, asks) \<longleftrightarrow> asks p \<noteq> None"
| "allowed (Gone p) (h, asks) \<longleftrightarrow> asks p = None"

fun legal :: "act list \<Rightarrow> chat \<Rightarrow> bool" where
  "legal [] x = True"
| "legal (a # as) x \<longleftrightarrow> allowed a x \<and> legal as (perform a x)"

lemma legal_snoc: "legal (as @ [a]) x \<longleftrightarrow> legal as x \<and> allowed a (fold perform as x)"
  by (induction as arbitrary: x) auto

section \<open>Acts of steps\<close>

text \<open>The act that the next step of a worker performs, and the one that an event begins with.\<close>

fun act_of :: "pc \<Rightarrow> server \<Rightarrow> act" where
  "act_of (Chunk p temp) s =
     (case split_crlf temp of
        None \<Rightarrow> Quiet
      | Some (seg, rest) \<Rightarrow> Message p (current_msg (client_at s p) @ seg))"
| "act_of (Creating p name success i rest) s =
     (if \<not> i < MAX_ROOMS then Finds_none p
      else if r_in_use (room_at s i) then Quiet else Opens p i)"
| "act_of c s = Quiet"

definition act_of_event :: "nat \<Rightarrow> epoll_event \<Rightarrow> server \<Rightarrow> act" where
  "act_of_event w e s =
     (if ev_fd e = notification_fd (worker_at s w) then Quiet
      else (case find_client_by_fd w (ev_fd e) s of
              None \<Rightarrow> Quiet
            | Some p \<Rightarrow>
                if ev_events e AND (EPOLLRDHUP OR EPOLLERR OR EPOLLHUP) \<noteq> 0 then Gone p
                else (case ev_recv e of Recv_nonpositive False \<Rightarrow> Gone p | _ \<Rightarrow> Quiet)))"

text \<open>The steps of \<open>fine_step\<close> with their acts.\<close>

inductive acts :: "fine \<Rightarrow> act \<Rightarrow> fine \<Rightarrow> bool" where
  a_starts: "w < MAX_THREADS \<Longrightarrow> cs w = Ready \<Longrightarrow> epoll_fd (worker_at s w) = 0 \<Longrightarrow>
    worker_start w efd add_ok s = Some t \<Longrightarrow> acts (m, cs, s) Quiet (m, cs, t)"
| a_accepts: "fresh_fd Main_accepting s fd \<Longrightarrow> set_socket_keep_alive opts \<noteq> -1 \<Longrightarrow>
    acts (Accepting, cs, s) Quiet (Choosing fd MAX_THREADS, cs, s)"
| a_chooses: "choose_step fd left s = Inr (m, t) \<Longrightarrow> acts (Choosing fd left, cs, s) Quiet (m, cs, t)"
| a_resumes: "0 < new_client (worker_at s w) \<Longrightarrow> hand_over fd w write_ok s = Inr t \<Longrightarrow>
    acts (Waiting fd w, cs, s) Quiet (Accepting, cs, t)"
| a_begins: "w < MAX_THREADS \<Longrightarrow> cs w = Ready \<Longrightarrow> epoll_fd (worker_at s w) \<noteq> 0 \<Longrightarrow> event_ok w e s \<Longrightarrow>
    begin_event w e s = Inr (c, t) \<Longrightarrow> acts (m, cs, s) (act_of_event w e s) (m, cs(w := c), t)"
| a_continues: "w < MAX_THREADS \<Longrightarrow> cs w \<noteq> Ready \<Longrightarrow> micro w (cs w) s = Inr (c, t) \<Longrightarrow>
    acts (m, cs, s) (act_of (cs w) s) (m, cs(w := c), t)"

lemma acts_fine: "acts x a y \<Longrightarrow> fine_step x y"
  by (induction rule: acts.induct) (auto intro: fine_step.intros)

lemma fine_acts: "fine_step x y \<Longrightarrow> \<exists>a. acts x a y"
  by (induction rule: fine_step.induct) (blast intro: acts.intros)+

text \<open>What has been done since the threads were set up.\<close>

inductive history :: "fine \<Rightarrow> act list \<Rightarrow> bool" where
  h_boots: "setup_threads fds inits_ok (init_server_rooms (zero_server rs)) = Some s \<Longrightarrow>
    history (Accepting, (\<lambda>_. Ready), s) []"
| h_acts: "history x as \<Longrightarrow> acts x a y \<Longrightarrow> history y (as @ [a])"

lemma history_reachable: "history x as \<Longrightarrow> fine_reachable x"
  by (induction rule: history.induct) (blast intro: fine_reachable.intros acts_fine)+

lemma reachable_history: "fine_reachable x \<Longrightarrow> \<exists>as. history x as"
proof (induction rule: fine_reachable.induct)
  case (f_boots fds inits_ok rs s)
  then show ?case by (blast intro: history.h_boots)
next
  case (f_steps x y)
  then show ?case by (meson fine_acts history.h_acts)
qed

section \<open>The abstraction\<close>

text \<open>A client under way out of its room counts as out of it.\<close>

fun place_after :: "pc \<Rightarrow> place" where
  "place_after (Left p ri rest) = In_lobby"
| "place_after c = Unnamed"

definition place_at :: "pc \<Rightarrow> cptr \<Rightarrow> client \<Rightarrow> place" where
  "place_at c p cl = (if transit c = Some p then place_after c else place_of cl)"

definition hall_at :: "(nat \<Rightarrow> pc) \<Rightarrow> server \<Rightarrow> hall" where
  "hall_at cs s = \<lparr>h_rooms = room_of s, h_place = (\<lambda>p. place_at (cs (owner p)) p (client_at s p))\<rparr>"

fun asking :: "pc \<Rightarrow> cptr \<Rightarrow> string option" where
  "asking (Creating p name success i rest) q = (if q = p then Some name else None)"
| "asking c q = None"

definition chat_at :: "(nat \<Rightarrow> pc) \<Rightarrow> server \<Rightarrow> chat" where
  "chat_at cs s = (hall_at cs s, (\<lambda>p. asking (cs (owner p)) p))"

lemma hall_at_simps [simp]:
  "h_rooms (hall_at cs s) = room_of s"
  "h_place (hall_at cs s) p = place_at (cs (owner p)) p (client_at s p)"
  by (simp_all add: hall_at_def)

lemma place_at_simps [simp]:
  "transit c \<noteq> Some p \<Longrightarrow> place_at c p cl = place_of cl"
  "place_at (Left p ri rest) p cl = In_lobby"
  "place_at (Closing p after) p cl = Unnamed"
  by (simp_all add: place_at_def)

lemma place_of_msg [simp]: "place_of (cl\<lparr>current_msg := m\<rparr>) = place_of cl"
  by (simp add: place_of_def split: client_state.splits)

lemma place_of_lobby [simp]: "place_of (cl\<lparr>cstate := IN_CHAT_LOBBY\<rparr>) = In_lobby"
  by (simp add: place_of_def)

lemma place_of_state:
  "place_of cl = Unnamed \<longleftrightarrow> cstate cl = AWAITING_USERNAME"
  "place_of cl = In_lobby \<longleftrightarrow> cstate cl = IN_CHAT_LOBBY"
  by (simp_all add: place_of_def split: client_state.splits)

text \<open>A worker at \<open>c\<close> has to do with no client but \<open>p\<close>.\<close>

definition about :: "pc \<Rightarrow> cptr \<Rightarrow> bool" where
  "about c p \<longleftrightarrow> (transit c = None \<or> transit c = Some p) \<and> (\<forall>q. q \<noteq> p \<longrightarrow> asking c q = None)"

definition yields :: "cptr \<Rightarrow> pc \<Rightarrow> server \<Rightarrow> hall \<Rightarrow> string option \<Rightarrow> bool" where
  "yields p c t h a \<longleftrightarrow> about c p \<and> room_of t = h_rooms h \<and> place_at c p (client_at t p) = h_place h p \<and>
     asking c p = a"

lemma chat_step:
  assumes y: "yields p c t h a" and p: "owner p = w" "about (cs w) p"
    and others: "\<And>q. q \<noteq> p \<Longrightarrow> client_at t q = client_at s q"
    and local: "\<And>q. q \<noteq> p \<Longrightarrow> h_place h q = h_place (hall_at cs s) q"
  shows "chat_at (cs(w := c)) t = (h, (snd (chat_at cs s))(p := a))"
proof -
  have place: "h_place (hall_at (cs(w := c)) t) q = h_place h q" for q
    using y p others [of q] local [of q] by (cases "q = p") (auto simp: yields_def about_def place_at_def)
  have asks: "asking ((cs(w := c)) (owner q)) q = ((snd (chat_at cs s))(p := a)) q" for q
    using y p by (cases "q = p") (auto simp: yields_def about_def chat_at_def)
  have "hall_at (cs(w := c)) t = h"
    by (rule hall_eqI) (use y place in \<open>auto simp: yields_def simp del: hall_at_simps(2)\<close>)
  with asks show ?thesis by (auto simp: chat_at_def)
qed

text \<open>What a message of \<open>p\<close> does to the places of the others: nothing.\<close>

lemma spec_leave_others [simp]: "q \<noteq> p \<Longrightarrow> h_place (spec_leave p to h) q = h_place h q"
  by (simp add: spec_leave_def split: place.splits)

lemma spec_message_others: "q \<noteq> p \<Longrightarrow> h_place (spec_message p msg h) q = h_place h q"
  by (auto simp: spec_message_def spec_create_def spec_join_def Let_def split: place.splits option.splits)

section \<open>Messages\<close>

lemma quiet_yields:
  assumes "same_structs s x" and "place_of (client_at s p) = h_place h p" and "room_of s = h_rooms h"
  shows "yields p (Chunk p rest) (clear_msg p x) h None"
  using assms room_of_cong [of "clear_msg p x" s]
  by (simp add: yields_def about_def same_structs_state)

lemma leave_rooms:
  assumes tab: "table_inv S" and rooms: "\<And>i. room_at S i = room_at s i"
    and self: "client_at S p = client_at s p" and room: "cstate (client_at s p) = IN_CHAT_ROOM"
    and t: "leave_room p (room_index (client_at s p)) s = Inr t"
  obtains i where "place_of (client_at s p) = Sits_in i" "room_of t = (room_of s)(i := without p (room_of s i))"
proof -
  from tab have inv: "rooms_ok S" "linked S" by (simp_all add: table_inv_def)
  from linked_in_room [OF inv(2), of p] room self obtain i k where
    ik: "sits S i k p" "room_index (client_at s p) = int i" by metis
  have st: "same_structs (upd_room i (room_left p) s) t"
    using leave_structs [OF t [unfolded ik(2)]] by (simp only: leave_as_update)
  have "room_of t = room_of (upd_room i (room_left p) S)"
    by (rule room_of_cong) (simp add: same_structs_state(2) [OF st] rooms)
  also have "\<dots> = (room_of S)(i := without p (room_of S i))" by (rule room_of_left [OF inv(2,1) ik(1)])
  also have "room_of S = room_of s" by (rule room_of_cong) (rule rooms)
  finally have "room_of t = (room_of s)(i := without p (room_of s i))" .
  moreover have "place_of (client_at s p) = Sits_in i" using room ik(2) by (simp add: place_of_def)
  ultimately show thesis using that by blast
qed

lemma disconnect_yields:
  assumes tab: "table_inv S" and rooms: "\<And>i. room_at S i = room_at s i"
    and self: "client_at S p = client_at s p" "place_of (client_at s p) = h_place h p" "room_of s = h_rooms h"
    and t: "begin_disconnect p after s = Inr (c, t)"
  shows "yields p c t (spec_leave p Unnamed h) None"
proof (cases "cstate (client_at s p) = IN_CHAT_ROOM")
  case True
  with t have l: "leave_room p (room_index (client_at s p)) s = Inr t" and c: "c = Closing p after"
    by (auto simp: begin_disconnect_def res_bind_eq_Inr)
  from leave_rooms [OF tab rooms self(1) True l] obtain i where
    "place_of (client_at s p) = Sits_in i" "room_of t = (room_of s)(i := without p (room_of s i))" .
  with self c spec_leave_sits [of h p i Unnamed] show ?thesis by (simp add: yields_def about_def)
next
  case False
  with t have "c = Closing p after" "t = s" by (simp_all add: begin_disconnect_def)
  moreover have "place_of (client_at s p) \<noteq> Sits_in i" for i
    using False by (simp add: place_of_def split: client_state.splits)
  ultimately show ?thesis using self
    by (auto simp: yields_def about_def spec_leave_def split: place.splits)
qed

lemma then_next_yields:
  assumes "then_next p rest m = Inr (c, t)" and "\<And>u. m = Inr u \<Longrightarrow> same_structs s u"
    and "place_of (client_at s p) = h_place h p" and "room_of s = h_rooms h"
  shows "yields p c t h None"
proof -
  from assms(1) obtain u where u: "m = Inr u" "c = Chunk p rest" "t = clear_msg p u"
    by (auto simp: then_next_eq)
  show ?thesis unfolding u(2,3) by (rule quiet_yields [OF assms(2) [OF u(1)] assms(3,4)])
qed


text \<open>The conditions under which the worker of \<open>p\<close> looks at a message.\<close>

definition looks :: "cptr \<Rightarrow> server \<Rightarrow> hall \<Rightarrow> server \<Rightarrow> bool" where
  "looks p s h S \<longleftrightarrow> table_inv S \<and> (\<forall>i. room_at S i = room_at s i) \<and> client_at S p = client_at s p \<and>
     h_place h p = place_of (client_at s p) \<and> h_rooms h = room_of s"

lemma awaiting_yields:
  assumes l: "looks p s h S" and t: "begin_awaiting p rest s = Inr (c, t)"
  shows "yields p c t (if MAX_USERNAME_LEN < length (drop 2 (current_msg (client_at s p))) then h
    else h\<lparr>h_place := (h_place h)(p := In_lobby)\<rparr>) None"
proof (cases "MAX_USERNAME_LEN < length (drop 2 (current_msg (client_at s p)))")
  case True
  with t have "then_next p rest
      (send_message_to_client (client_fd (client_at s p)) ERR_USERNAME_LENGTH username_long_text s) = Inr (c, t)"
    by (simp add: begin_awaiting_def Let_def)
  then have "yields p c t h None"
    by (rule then_next_yields [OF _ quiet_send]) (use l in \<open>simp_all add: looks_def\<close>)
  with True show ?thesis by simp
next
  case False
  with t obtain n where "c = Listing p 0 list_header False rest"
    "t = upd_client p (\<lambda>c. c\<lparr>cname := n, cstate := IN_CHAT_LOBBY\<rparr>) s"
    by (auto simp: begin_awaiting_def Let_def res_bind_eq_Inr)
  with False l show ?thesis by (simp add: yields_def about_def looks_def place_of_def)
qed

lemma create_yields:
  assumes l: "looks p s h S" and t: "begin_create p rest s = Inr (c, t)"
  shows "yields p c t h (if MAX_ROOM_NAME_LEN < length (drop 2 (current_msg (client_at s p))) then None
    else Some (drop 2 (current_msg (client_at s p))))"
proof (cases "MAX_ROOM_NAME_LEN < length (drop 2 (current_msg (client_at s p)))")
  case True
  with t have "then_next p rest
      (send_message_to_client (client_fd (client_at s p)) ERR_ROOM_NAME_INVALID name_invalid_text s) = Inr (c, t)"
    by (auto simp: begin_create_def Let_def res_bind_eq_Inr)
  then have "yields p c t h None"
    by (rule then_next_yields [OF _ quiet_send]) (use l in \<open>simp_all add: looks_def\<close>)
  with True show ?thesis by simp
next
  case False
  with t obtain x where "c = Creating p (drop 2 (current_msg (client_at s p))) x 0 rest" "t = s"
    by (auto simp: begin_create_def Let_def res_bind_eq_Inr)
  with False l show ?thesis by (simp add: yields_def about_def looks_def)
qed

text \<open>Joining looks at the place of its client only, so it does the same to \<open>h\<close> as to \<open>hall_of\<close>.\<close>

lemma spec_join_same:
  assumes "h_rooms h = h_rooms g" and "h_place h p = h_place g p"
  shows "h_rooms (spec_join p n h) = h_rooms (spec_join p n g) \<and>
    h_place (spec_join p n h) p = h_place (spec_join p n g) p"
  using assms by (auto simp: spec_join_def split: option.splits)

lemma join_yields:
  assumes l: "looks p s h S" and t: "then_next p rest (join_chat_room p s) = Inr (c, t)"
  shows "yields p c t (spec_join p (parse_room_number (current_msg (client_at s p))) h) None"
proof -
  from t obtain u where u: "join_chat_room p s = Inr u" "c = Chunk p rest" "t = clear_msg p u"
    by (auto simp: then_next_eq)
  from l have sits: "sits S = sits s" by (intro ext) (simp add: looks_def sits_def)
  with l have "rooms_ok s" "seated_once s"
    using linked_seated [of S] by (auto simp: looks_def table_inv_def rooms_ok_def seated_once_def)
  let ?J = "spec_join p (parse_room_number (current_msg (client_at s p)))"
  from \<open>rooms_ok s\<close> \<open>seated_once s\<close> have j: "hall_of u = ?J (hall_of s)" by (rule join_refines [OF _ _ u(1)])
  have "room_of t = h_rooms (?J (hall_of s))"
    unfolding u(3) j [symmetric] hall_simps by (rule room_of_cong) simp
  moreover have "place_of (client_at t p) = h_place (?J (hall_of s)) p"
    unfolding j [symmetric] by (simp add: u(3))
  moreover have "h_rooms (?J h) = h_rooms (?J (hall_of s)) \<and> h_place (?J h) p = h_place (?J (hall_of s)) p"
    using l by (intro spec_join_same) (simp_all add: looks_def)
  ultimately show ?thesis by (simp add: yields_def about_def u(2))
qed

lemma in_room_yields:
  assumes l: "looks p s h S" and room: "cstate (client_at s p) = IN_CHAT_ROOM"
    and t: "begin_in_room p rest s = Inr (c, t)"
  shows "yields p c t (if char_at (current_msg (client_at s p)) 0 = CMD_ROOM_MESSAGE_SEND then h
    else spec_leave p In_lobby h) None"
proof (cases "char_at (current_msg (client_at s p)) 0 = CMD_ROOM_MESSAGE_SEND")
  case True
  with t have "then_next p rest (handle_in_chat_room p s) = Inr (c, t)"
    by (simp add: begin_in_room_def Let_def)
  then have "yields p c t h None"
    by (rule then_next_yields [OF _ chat_structs [OF True]]) (use l in \<open>simp_all add: looks_def\<close>)
  with True show ?thesis by simp
next
  case False
  with t have c: "c = Left p (room_index (client_at s p)) rest"
    and lv: "leave_room p (room_index (client_at s p)) s = Inr t"
    by (auto simp: begin_in_room_def Let_def res_bind_eq_Inr)
  from l obtain i where
    "place_of (client_at s p) = Sits_in i" "room_of t = (room_of s)(i := without p (room_of s i))"
    unfolding looks_def using leave_rooms [OF _ _ _ room lv] by metis
  with False c l spec_leave_sits [of h p i In_lobby] show ?thesis
    by (simp add: yields_def about_def looks_def)
qed


lemma lobby_yields:
  assumes l: "looks p s h S" and t: "begin_lobby p rest s = Inr (c, t)"
    and lobby: "cstate (client_at s p) = IN_CHAT_LOBBY" and cmd: "char_at msg 0 \<noteq> CMD_EXIT"
    and msg: "msg = current_msg (client_at s p)"
  shows "yields p c t (if char_at msg 0 = CMD_ROOM_CREATE_REQUEST then h else spec_message p msg h)
    (if char_at msg 0 = CMD_ROOM_CREATE_REQUEST \<and> \<not> MAX_ROOM_NAME_LEN < length (drop 2 msg)
     then Some (drop 2 msg) else None)"
proof -
  have place: "h_place h p = In_lobby" using l lobby by (simp add: looks_def place_of_def)
  show ?thesis
  proof (cases "char_at msg 0 = CMD_ROOM_CREATE_REQUEST")
    case True
    with t msg have "begin_create p rest s = Inr (c, t)" by (simp add: begin_lobby_def)
    from create_yields [OF l this] True msg show ?thesis by (auto split: if_splits)
  next
    case create: False
    show ?thesis
    proof (cases "char_at msg 0 = CMD_ROOM_JOIN_REQUEST")
      case True
      with create t msg have "then_next p rest (join_chat_room p s) = Inr (c, t)"
        by (simp add: begin_lobby_def Let_def)
      from join_yields [OF l this] True create cmd place msg show ?thesis
        by (simp add: spec_message_def Let_def)
    next
      case join: False
      have "yields p c t h None"
      proof (cases "char_at msg 0 = CMD_ROOM_LIST_REQUEST")
        case True
        with create join t msg have "c = Listing p 0 list_header False rest" "t = s"
          by (simp_all add: begin_lobby_def Let_def)
        with l show ?thesis by (simp add: yields_def about_def looks_def)
      next
        case False
        with create join t msg have "c = Chunk p rest" "t = clear_msg p s"
          by (simp_all add: begin_lobby_def next_message_def Let_def)
        with l quiet_yields [of s s p h rest] show ?thesis by (simp add: looks_def structs.keep_refl)
      qed
      with create join cmd place show ?thesis by (simp add: spec_message_def Let_def)
    qed
  qed
qed

text \<open>Every message that is routed has the effect of the specification.\<close>

lemma dispatch_yields:
  assumes l: "looks p s h S" and t: "begin_dispatch p rest s = Inr (c, t)"
    and wf: "well_formed (h_place h p) msg" and msg: "msg = current_msg (client_at s p)"
    and a: "asks p = None"
  shows "yields p c t (fst (perform (Message p msg) (h, asks))) (snd (perform (Message p msg) (h, asks)) p)"
proof -
  have place: "h_place h p = place_of (client_at s p)" using l by (simp add: looks_def)
  show ?thesis
  proof (cases "char_at msg 0 = CMD_EXIT")
    case True
    with t msg have "begin_disconnect p (Some rest) s = Inr (c, t)" by (simp add: begin_dispatch_def)
    from disconnect_yields [OF _ _ _ _ _ this, of S h] l True wf a show ?thesis
      by (simp add: looks_def spec_message_def command_codes)
  next
    case exit: False
    show ?thesis
    proof (cases "cstate (client_at s p)")
      case AWAITING_USERNAME
      with exit t msg have "begin_awaiting p rest s = Inr (c, t)" by (simp add: begin_dispatch_def)
      from awaiting_yields [OF l this] AWAITING_USERNAME exit wf a place msg show ?thesis
        by (simp add: spec_message_def Let_def place_of_def)
    next
      case IN_CHAT_LOBBY
      with exit t msg have "begin_lobby p rest s = Inr (c, t)" by (simp add: begin_dispatch_def)
      from lobby_yields [OF l this IN_CHAT_LOBBY exit msg] wf a place IN_CHAT_LOBBY show ?thesis
        by (auto simp: place_of_def split: if_splits)
    next
      case IN_CHAT_ROOM
      with exit t msg have "begin_in_room p rest s = Inr (c, t)" by (simp add: begin_dispatch_def)
      from in_room_yields [OF l IN_CHAT_ROOM this] IN_CHAT_ROOM exit wf a place msg show ?thesis
        by (simp add: spec_message_def Let_def place_of_def)
    qed
  qed
qed

lemma route_yields:
  assumes l: "looks p s h S" and t: "begin_route p rest s = Inr (c, t)"
    and msg: "msg = current_msg (client_at s p)" and a: "asks p = None"
  shows "yields p c t (fst (perform (Message p msg) (h, asks))) (snd (perform (Message p msg) (h, asks)) p)"
proof -
  have wf: "well_formed (h_place h p) msg \<longleftrightarrow> acceptable (client_at s p)"
    using l msg by (simp add: looks_def well_formed_def acceptable_def)
  show ?thesis
  proof (cases "acceptable (client_at s p)")
    case True
    then have "begin_route p rest s = begin_dispatch p rest s"
      by (simp add: begin_route_def validate_msg_format_def command_valid_for_state_def acceptable_def Let_def)
    with t dispatch_yields [where asks = asks, OF l _ _ msg a] True wf show ?thesis by simp
  next
    case False
    obtain b u where u: "validate_msg_format p s = Inr (b, u)"
      using t by (auto simp: begin_route_def res_bind_eq_Inr)
    have "\<exists>x. only_sends s x \<and> c = Chunk p rest \<and> t = clear_msg p x"
    proof (cases b)
      case False
      with u t validate_cases [OF u] show ?thesis by (auto simp: begin_route_def next_message_def)
    next
      case True
      with validate_cases [OF u] have [simp]: "u = s" and f: "format_error (current_msg (client_at s p)) = None"
        by simp_all
      obtain d x where x: "command_valid_for_state p s = Inr (d, x)"
        using t u True by (auto simp: begin_route_def res_bind_eq_Inr)
      with state_valid_cases [OF x] False f have "\<not> d" "only_sends s x" by (auto simp: acceptable_def)
      with t u x True show ?thesis by (auto simp: begin_route_def next_message_def)
    qed
    then obtain x where "same_structs s x" "c = Chunk p rest" "t = clear_msg p x"
      by (auto dest: same_structs_sends)
    with l quiet_yields [of s x p h rest] False wf a show ?thesis by (simp add: looks_def)
  qed
qed


section \<open>Steps of a worker\<close>

lemma perform_message_others:
  "snd (perform (Message p msg) (h, asks)) = asks(p := snd (perform (Message p msg) (h, asks)) p)"
  "q \<noteq> p \<Longrightarrow> h_place (fst (perform (Message p msg) (h, asks))) q = h_place h q"
  by (auto simp: spec_message_others)

definition explained :: "(nat \<Rightarrow> pc) \<Rightarrow> server \<Rightarrow> act \<Rightarrow> (nat \<Rightarrow> pc) \<Rightarrow> server \<Rightarrow> bool" where
  "explained cs s a cs' t \<longleftrightarrow> allowed a (chat_at cs s) \<and> chat_at cs' t = perform a (chat_at cs s)"

lemma serving_others: "micro w c s = Inr (c', t) \<Longrightarrow> serves c = Some p \<Longrightarrow> q \<noteq> p \<Longrightarrow> client_at t q = client_at s q"
  by (drule serving_follows) (auto simp: follows_def)

lemma quiet_explained:
  assumes "yields p c t (hall_at cs s) None" and "owner p = w" and "about (cs w) p" and "asking (cs w) p = None"
    and "\<And>q. q \<noteq> p \<Longrightarrow> client_at t q = client_at s q"
  shows "explained cs s Quiet (cs(w := c)) t"
  using chat_step [where cs = cs and s = s, OF assms(1-3,5)] assms(2,4) by (auto simp: explained_def chat_at_def)

lemma chunk_explained:
  assumes tab: "table_inv (settle cs s)" and c0: "cs w = Chunk p temp" and ok: "pc_ok w (cs w) s"
    and t: "micro w (cs w) s = Inr (c, t)"
  shows "explained cs s (act_of (cs w) s) (cs(w := c)) t"
proof -
  have p: "owner p = w" and ab: "about (cs w) p" "asking (cs w) p = None" "transit (cs w) = None"
    using ok c0 by (simp_all add: about_def)
  have others: "client_at t q = client_at s q" if "q \<noteq> p" for q
    using serving_others [OF t _ that] c0 by simp
  show ?thesis
  proof (cases "split_crlf temp")
    case None
    with t c0 have "c = Ready" "room_of t = room_of s" "place_of (client_at t p) = place_of (client_at s p)"
      by (auto simp: append_msg_def res_bind_eq_Inr split: if_splits intro: room_of_cong)
    then have "yields p c t (hall_at cs s) None" using p ab by (simp add: yields_def about_def)
    from quiet_explained [where cs = cs and s = s, OF this p ab(1,2) others] None c0 show ?thesis by simp
  next
    case (Some x)
    obtain seg rest where x: "x = (seg, rest)" by (cases x)
    let ?m = "current_msg (client_at s p) @ seg"
    let ?u = "upd_client p (\<lambda>c. c\<lparr>current_msg := ?m\<rparr>) s"
    let ?h = "hall_at cs s" and ?a = "snd (chat_at cs s)"
    have a: "?a p = None" using ab p by (simp add: chat_at_def)
    from t c0 Some x have r: "begin_route p rest ?u = Inr (c, t)"
      by (auto simp: append_msg_def res_bind_eq_Inr c_store_eq_Inr)
    have "table_inv (settle cs ?u)"
      by (rule settle_table [where u = "upd_client p (\<lambda>c. c\<lparr>current_msg := ?m\<rparr>) (settle cs s)"])
        (use tab p ab in auto)
    then have "looks p ?u ?h (settle cs ?u)"
      using p ab room_of_cong [of ?u s] by (simp add: looks_def)
    from route_yields [where asks = ?a, OF this r refl] a
    have "yields p c t (fst (perform (Message p ?m) (?h, ?a))) (snd (perform (Message p ?m) (?h, ?a)) p)"
      by simp
    from chat_step [where cs = cs and s = s, OF this p ab(1) others perform_message_others(2)]
    have "chat_at (cs(w := c)) t = perform (Message p ?m) (?h, ?a)"
      by (metis perform_message_others(1) prod.collapse)
    moreover have "(?h, ?a) = chat_at cs s" by (simp add: chat_at_def)
    ultimately show ?thesis using a Some x c0 by (simp add: explained_def chat_at_def)
  qed
qed

lemma create_explained:
  assumes tab: "table_inv (settle cs s)" and c0: "cs w = Creating p name success i rest" and ok: "pc_ok w (cs w) s"
    and t: "micro w (cs w) s = Inr (c, t)"
  shows "explained cs s (act_of (cs w) s) (cs(w := c)) t"
proof -
  have p: "owner p = w" and ab: "about (cs w) p" "asking (cs w) p = Some name" "transit (cs w) = None"
    and lobby: "cstate (client_at s p) = IN_CHAT_LOBBY"
    using ok c0 by (simp_all add: about_def)
  have others: "client_at t q = client_at s q" if "q \<noteq> p" for q
    using serving_others [OF t _ that] c0 by simp
  have t': "create_step p name success i rest s = Inr (c, t)" using t c0 by simp
  have asks: "snd (chat_at cs s) p = Some name" using p ab by (simp add: chat_at_def)
  consider (none) "\<not> i < MAX_ROOMS" | (used) "i < MAX_ROOMS" "r_in_use (room_at s i)"
    | (free) "i < MAX_ROOMS" "\<not> r_in_use (room_at s i)" by blast
  then show ?thesis
  proof cases
    case none
    with t' have "then_next p rest (send_message_to_client (client_fd (client_at s p))
        ERR_ROOM_CAPACITY_FULL rooms_full_text s) = Inr (c, t)"
      by (simp add: create_step_def)
    then have "yields p c t (hall_at cs s) None"
      by (rule then_next_yields [OF _ quiet_send]) (use p ab in simp_all)
    from chat_step [where cs = cs and s = s, OF this p ab(1) others] none c0 asks show ?thesis
      by (simp add: explained_def chat_at_def)
  next
    case used
    with t' have c: "c = Creating p name success (Suc i) rest" "same_structs s t"
      by (auto simp: create_step_def Let_def structs.keep_refl)
    then have "yields p c t (hall_at cs s) (Some name)"
      using room_of_cong [of t s] p ab by (simp add: yields_def about_def same_structs_state)
    from chat_step [where cs = cs and s = s, OF this p ab(1) others] used c0 asks show ?thesis
      by (auto simp: explained_def chat_at_def)
  next
    case free
    with t' obtain u where u: "found_room p name success i (emit (Lock (Room_lock i)) s) = Inr u"
      "c = Chunk p rest" "t = clear_msg p u"
      by (auto simp: create_step_def Let_def then_next_eq)
    have ok: "rooms_ok s" using tab by (simp add: table_inv_def rooms_ok_def)
    have "same_structs (open_room p name i s) (open_room p name i (emit (Lock (Room_lock i)) s))"
      by (rule open_room_structs) (simp add: structs.keep_refl)
    then have st: "same_structs (open_room p name i s) u"
      using res_allD [OF found_room_structs u(1)] by (blast intro: structs.keep_trans)
    let ?h = "open_number p name i (hall_at cs s)"
    have open': "room_of (open_room p name i s) = (room_of s)(i := Some (name, {p}))"
      "place_of (client_at (open_room p name i s) p) = Sits_in i"
      using hall_of_open [OF ok free, of p name] by (metis hall_simps hall.select_convs hall.surjective hall.update_convs fun_upd_same)+
    have "room_of t = room_of (open_room p name i s)"
      unfolding u(3) by (rule room_of_cong) (simp add: same_structs_state(2) [OF st])
    then have "yields p c t ?h None"
      using open' by (simp add: yields_def about_def u open_number_def same_structs_state(1) [OF st])
    from chat_step [where cs = cs and s = s, OF this p ab(1) others] free c0 asks p ab lobby show ?thesis
      by (simp add: explained_def chat_at_def open_number_def room_of_def place_of_def)
  qed
qed


lemma list_explained:
  assumes c0: "cs w = Listing p i acc avail rest" and ok: "pc_ok w (cs w) s"
    and t: "micro w (cs w) s = Inr (c, t)"
  shows "explained cs s Quiet (cs(w := c)) t"
proof -
  have p: "owner p = w" and ab: "about (cs w) p" "asking (cs w) p = None"
    using ok c0 by (simp_all add: about_def)
  have others: "client_at t q = client_at s q" if "q \<noteq> p" for q
    using serving_others [OF t _ that] c0 by simp
  have t': "list_step p i acc avail rest s = Inr (c, t)" using t c0 by simp
  have "yields p c t (hall_at cs s) None"
  proof (cases "i < MAX_ROOMS")
    case True
    with t' have "(\<exists>acc' avail'. c = Listing p (Suc i) acc' avail' rest) \<and> same_structs s t"
      by (auto simp: list_step_def Let_def res_bind_eq_Inr structs.keep_refl split: if_splits)
    then show ?thesis
      using room_of_cong [of t s] p c0 by (auto simp: yields_def about_def same_structs_state)
  next
    case False
    with t' have "then_next p rest (send_list p acc avail s) = Inr (c, t)"
      by (simp add: list_step_def send_list_def)
    then show ?thesis
      by (rule then_next_yields) (use p c0 in \<open>auto simp: send_list_def res_bind_eq_Inr dest: quiet_send\<close>)
  qed
  from quiet_explained [where cs = cs and s = s, OF this p ab others] show ?thesis .
qed

lemma left_explained:
  assumes c0: "cs w = Left p ri rest" and ok: "pc_ok w (cs w) s"
    and t: "micro w (cs w) s = Inr (c, t)"
  shows "explained cs s Quiet (cs(w := c)) t"
proof -
  have p: "owner p = w" and ab: "about (cs w) p" "asking (cs w) p = None"
    using ok c0 by (simp_all add: about_def)
  have others: "client_at t q = client_at s q" if "q \<noteq> p" for q
    using serving_others [OF t _ that] c0 by simp
  from t c0 obtain u where u: "send_message_to_client (client_fd (client_at s p)) CMD_ROOM_LEAVE_OK
      left_ok_text (emit (Lock (Room_lock (nat ri))) s) = Inr u" "c = Chunk p rest"
    "t = clear_msg p (upd_client p (\<lambda>c. c\<lparr>cstate := IN_CHAT_LOBBY\<rparr>) (emit (Unlock (Room_lock (nat ri))) u))"
    by (auto simp: left_step_def Let_def then_next_eq res_bind_eq_Inr)
  have "room_of t = room_of s"
    using same_structs_state(2) [OF quiet_send [OF u(1)]] by (intro room_of_cong) (simp add: u(3))
  then have "yields p c t (hall_at cs s) None" using p c0 by (simp add: yields_def about_def u)
  from quiet_explained [where cs = cs and s = s, OF this p ab others] show ?thesis .
qed

lemma place_zero [simp]: "place_of zero_client = Unnamed"
  by (simp add: place_of_def)

lemma micro_explained:
  assumes tab: "table_inv (settle cs s)" and ok: "pc_ok w (cs w) s"
    and t: "micro w (cs w) s = Inr (c, t)"
  shows "explained cs s (act_of (cs w) s) (cs(w := c)) t"
proof (cases "cs w")
  case Ready
  with t have "c = Ready" "t = s" by simp_all
  with Ready show ?thesis by (simp add: explained_def fun_upd_idem)
next
  case (Chunk p temp)
  from chunk_explained [OF tab this ok t] show ?thesis .
next
  case (Creating p name success i rest)
  from create_explained [OF tab this ok t] show ?thesis .
next
  case (Listing p i acc avail rest)
  from list_explained [where cs = cs, OF this ok t] Listing show ?thesis by simp
next
  case (Left p ri rest)
  from left_explained [where cs = cs, OF this ok t] Left show ?thesis by simp
next
  case (Closing p after)
  with t ok have p: "owner p = w" and ct: "c = Uncounting p after" "t = clear_slot p s" by simp_all
  have "yields p c t (hall_at cs s) None"
    using room_of_cong [of t s] p Closing by (simp add: yields_def about_def ct)
  from quiet_explained [where cs = cs and s = s, OF this p] Closing show ?thesis
    by (simp add: about_def ct)
next
  case (Uncounting p after)
  with t ok have p: "owner p = w" and ct: "after_cleanup p after (decrement_clients w s) = (c, t)" by simp_all
  then have c: "transit c = None" "asking c q = None" for q
    by (auto simp: after_cleanup_def next_message_def split: option.splits)
  have t: "room_of t = room_of s" "place_of (client_at t p) = place_of (client_at s p)"
    "q \<noteq> p \<Longrightarrow> client_at t q = client_at s q" for q
    using ct by (auto simp: after_cleanup_def next_message_def split: option.splits intro: room_of_cong)
  have "yields p c t (hall_at cs s) None"
    using c t p Uncounting by (simp add: yields_def about_def)
  from quiet_explained [where cs = cs and s = s, OF this p _ _ t(3)] Uncounting show ?thesis
    by (simp add: about_def)
next
  case (Greeting fd)
  with t have "c = Ready" "only_sends s t" by (auto simp: res_bind_eq_Inr dest: send_InrD)
  then have "yields (Cptr w 0) c t (hall_at cs s) None"
    using room_of_cong [of t s] Greeting by (simp add: yields_def about_def only_sends_state)
  from quiet_explained [where cs = cs and s = s, OF this] Greeting \<open>only_sends s t\<close> show ?thesis
    by (simp add: about_def only_sends_state)
next
  case (Refusing fd)
  with t have ct: "c = Ready" "t = emit (Close fd) (decrement_clients w s)" by simp_all
  then have "yields (Cptr w 0) c t (hall_at cs s) None"
    using room_of_cong [of t s] Refusing by (simp add: yields_def about_def)
  from quiet_explained [where cs = cs and s = s, OF this] Refusing ct show ?thesis
    by (simp add: about_def)
qed

section \<open>Events and the main thread\<close>

lemma same_explained:
  assumes "\<And>p. client_at t p = client_at s p" and "\<And>i. room_at t i = room_at s i"
  shows "explained cs s Quiet cs t"
  using assms room_of_cong [of t s] by (simp add: explained_def chat_at_def hall_at_def)

lemma begin_explained:
  assumes inv: "sys_inv (m, settle cs s)" and c0: "cs w = Ready" and e: "event_ok w e s"
    and t: "begin_event w e s = Inr (c, t)"
  shows "explained cs s (act_of_event w e s) (cs(w := c)) t"
proof (cases "ev_fd e = notification_fd (worker_at s w)")
  case True
  let ?fd = "efd_to_fd (efd_counter (worker_at s w))"
  obtain r u where u: "register_with_epoll w ?fd (ev_add_ok e) (read_efd w s) = (r, u)" by fastforce
  then have same: "client_at u q = client_at s q" "room_at u i = room_at s i" for q i
    by (auto simp: register_with_epoll_def Let_def read_efd_def split: if_splits)
  have quiet: "transit c = None \<and> asking c q = None" for q
    using t True u by (auto simp: begin_event_def begin_register_def Let_def split: if_splits option.splits)
  have rooms: "room_at t i = room_at s i" for i
    using t True u same by (auto simp: begin_event_def begin_register_def Let_def split: if_splits option.splits)
  have place: "place_of (client_at t q) = place_of (client_at s q)" for q
  proof (cases "client_at t q = client_at s q")
    case False
    with t True u same obtain i where
      i: "first_index (\<lambda>i. \<not> c_in_use (client_at u (Cptr w i))) 0 MAX_CLIENTS_PER_THREAD = Some i"
      and q: "q = Cptr w i" and new: "client_at t q = new_client_in_slot ?fd"
      by (auto simp: begin_event_def begin_register_def Let_def split: if_splits option.splits)
    from first_index_bound [OF i] have "\<not> c_in_use (client_at (settle cs s) q)" by (simp add: q same)
    then have "client_at (settle cs s) q = zero_client"
      using sys_invD(2) [OF inv] unfolding slots_ok_def by metis
    then have "client_at s q = zero_client" using c0 q by simp
    then show ?thesis unfolding new by (simp add: new_client_in_slot_def place_of_def)
  qed simp
  have "hall_at (cs(w := c)) t = hall_at cs s"
    using room_of_cong [OF rooms] place c0 quiet by (auto simp: hall_at_def place_at_def)
  then show ?thesis using True quiet c0 by (auto simp: explained_def chat_at_def act_of_event_def)
next
  case other: False
  show ?thesis
  proof (cases "find_client_by_fd w (ev_fd e) s")
    case None
    with other t have "c = Ready" "t = s" by (simp_all add: begin_event_def)
    with None other c0 show ?thesis by (simp add: act_of_event_def explained_def fun_upd_idem)
  next
    case (Some p)
    have find: "find_client_by_fd w (ev_fd e) (settle cs s) = Some p"
      using Some by (simp add: find_client_by_fd_def)
    have pos: "0 < ev_fd e" using e other by (simp add: event_ok_def)
    have p: "owner p = w" using find_client_Some [OF find pos sys_invD(2) [OF inv]] by simp
    have ab: "about (cs w) p" "asking (cs w) p = None" "transit (cs w) = None" using c0 by (simp_all add: about_def)
    have gone: "explained cs s (Gone p) (cs(w := c)) t" if d: "begin_disconnect p None s = Inr (c, t)"
    proof -
      have "yields p c t (spec_leave p Unnamed (hall_at cs s)) None"
        by (rule disconnect_yields [OF sys_invD(1) [OF inv] _ _ _ _ d]) (use p ab in simp_all)
      moreover have "client_at t q = client_at s q" if "q \<noteq> p" for q
        using begin_disconnect_follows [OF d] that by (simp add: follows_def)
      ultimately have "chat_at (cs(w := c)) t =
          (spec_leave p Unnamed (hall_at cs s), (snd (chat_at cs s))(p := None))"
        by (intro chat_step [where cs = cs and s = s] p ab) (simp_all del: hall_at_simps)
      with p ab show ?thesis by (auto simp: explained_def chat_at_def)
    qed
    have idle: "explained cs s Quiet (cs(w := c)) s" if "transit c = None" "\<And>q. asking c q = None"
      using that c0 by (auto simp: explained_def chat_at_def hall_at_def place_at_def)
    show ?thesis
      using t other Some gone idle
      by (cases "ev_recv e") (auto simp: begin_event_def begin_read_def act_of_event_def split: if_splits bool.splits)
  qed
qed

lemma acts_explained:
  assumes "acts (m, cs, s) a (m', cs', t)" and "fine_reachable (m, cs, s)"
  shows "explained cs s a cs' t"
proof -
  note d = fine_invD [OF fine_reachable_inv [OF assms(2)]]
  from assms(1) show ?thesis
  proof (cases rule: acts.cases)
    case (a_starts w efd add_ok)
    then have "worker_start w efd add_ok s = Some t" by simp
    from worker_start_fields [OF this] a_starts show ?thesis by (auto intro: same_explained)
  next
    case (a_accepts fd opts)
    then show ?thesis by (auto intro: same_explained)
  next
    case (a_chooses fd left)
    then have "choose_step fd left s = Inr (m', t)" by simp
    from choose_clients [OF this] choose_rooms [OF this] a_chooses show ?thesis by (auto intro: same_explained)
  next
    case (a_resumes w fd write_ok)
    then have "hand_over fd w write_ok s = Inr t" by simp
    from hand_over_fields [OF this] a_resumes show ?thesis by (auto intro: same_explained)
  next
    case (a_begins w e c)
    then have "cs w = Ready" "event_ok w e s" "begin_event w e s = Inr (c, t)" by simp_all
    from begin_explained [OF d(1) this] a_begins show ?thesis by simp
  next
    case (a_continues w c)
    then have "micro w (cs w) s = Inr (c, t)" by simp
    from micro_explained [OF sys_invD(1) [OF d(1)] d(3) this] a_continues show ?thesis by simp
  qed
qed

section \<open>The history explains the hall\<close>

lemma boot_chat:
  assumes "setup_threads fds inits_ok (init_server_rooms (zero_server rs)) = Some s"
  shows "chat_at (\<lambda>_. Ready) s = empty_chat"
  using boot_state(1,2) [OF assms]
  by (auto simp: chat_at_def empty_chat_def hall_at_def room_of_def)

lemma history_explains:
  "history x as \<Longrightarrow> legal as empty_chat \<and> chat_at (fst (snd x)) (snd (snd x)) = fold perform as empty_chat"
proof (induction rule: history.induct)
  case (h_boots fds inits_ok rs s)
  with boot_chat show ?case by simp
next
  case (h_acts x as a y)
  obtain m cs s where x: "x = (m, cs, s)" by (cases x)
  obtain m' cs' t where y: "y = (m', cs', t)" by (cases y)
  from acts_explained h_acts(2) history_reachable [OF h_acts(1)] have "explained cs s a cs' t"
    unfolding x y by blast
  with h_acts(3) show ?case unfolding x y by (simp add: explained_def legal_snoc)
qed

end
