(* ===== verification/Room_Replies.thy ===== *)
theory Room_Replies
  imports Client_Facts
begin

text \<open>
  The replies and notices of the room operations, on every branch, and the effect of a
  disconnection.
\<close>

section \<open>Frames\<close>

definition frames_added :: "server \<Rightarrow> server \<Rightarrow> (int \<times> string) list \<Rightarrow> bool" where
  "frames_added s t fs \<longleftrightarrow> sent_frames (trace t) = sent_frames (trace s) @ fs"

lemma added_send:
  "send_message_to_client fd code m s = Inr t \<Longrightarrow> frames_added s t [(fd, frame code m)]"
  by (simp add: frames_added_def res_allD [OF send_frames])

lemma added_broadcast:
  "broadcast_message_in_room m i p s = Inr t \<Longrightarrow>
   frames_added s t (broadcast_frames m p s (members_of s i))"
  by (simp add: frames_added_def broadcast_message_in_room_def broadcast_loop_frames members_of_def)

lemma added_trans: "frames_added s t fs \<Longrightarrow> frames_added t u gs \<Longrightarrow> frames_added s u (fs @ gs)"
  by (simp add: frames_added_def)

lemma added_emit [simp]:
  "(\<And>fd b n. act \<noteq> Send fd b n) \<Longrightarrow> frames_added s (emit act t) fs = frames_added s t fs"
  "(\<And>fd b n. act \<noteq> Send fd b n) \<Longrightarrow> frames_added (emit act s) t fs = frames_added s t fs"
  by (auto simp: frames_added_def split: action.splits)

lemma added_upd [simp]:
  "frames_added s (upd_client p f t) fs = frames_added s t fs"
  "frames_added s (upd_room i g t) fs = frames_added s t fs"
  "frames_added (upd_client p f s) t fs = frames_added s t fs"
  "frames_added (upd_room i g s) t fs = frames_added s t fs"
  by (simp_all add: frames_added_def)

section \<open>Creating\<close>

lemma found_room_frames:
  "found_room p name success i s = Inr t \<Longrightarrow>
   frames_added s t [(client_fd (client_at s p), frame CMD_ROOM_CREATE_OK success)]"
  by (auto simp: found_room_def res_bind_eq_Inr c_store_eq_Inr open_room_def dest!: added_send)

lemma create_loop_frames:
  "create_loop p name success i s = Inr t \<Longrightarrow>
   frames_added s t
     (case first_index (\<lambda>j. \<not> r_in_use (room_at s j)) i MAX_ROOMS of
        None \<Rightarrow> [(client_fd (client_at s p), frame ERR_ROOM_CAPACITY_FULL rooms_full_text)]
      | Some j \<Rightarrow> [(client_fd (client_at s p), frame CMD_ROOM_CREATE_OK success)])"
proof (induction p name success i s rule: create_loop.induct)
  case (1 p name success i s)
  let ?s1 = "emit (Lock (Room_lock i)) s"
  show ?case
  proof (cases "i < MAX_ROOMS")
    case False
    then have "first_index (\<lambda>j. \<not> r_in_use (room_at s j)) i MAX_ROOMS = None"
      by (simp add: first_index_None)
    with "1.prems" False show ?thesis by (subst (asm) create_loop.simps) (auto dest: added_send)
  next
    case lt: True
    show ?thesis
    proof (cases "r_in_use (room_at s i)")
      case False
      with "1.prems" lt have "found_room p name success i ?s1 = Inr t"
        by (subst (asm) create_loop.simps) (simp add: Let_def)
      with lt False found_room_frames [OF this] show ?thesis by simp
    next
      case True
      with "1.prems" lt have t: "create_loop p name success (Suc i) (emit (Unlock (Room_lock i)) ?s1) = Inr t"
        by (subst (asm) create_loop.simps) (simp add: Let_def)
      from "1.IH" [OF lt refl _ t] True lt show ?thesis
        by (auto simp: first_index_skip split: option.splits)
    qed
  qed
qed

lemma create_frames:
  assumes "create_chat_room p s = Inr t"
  shows "frames_added s t
    [(client_fd (client_at s p),
      if MAX_ROOM_NAME_LEN < length (drop 2 (current_msg (client_at s p))) then
        frame ERR_ROOM_NAME_INVALID name_invalid_text
      else if \<forall>i. i < MAX_ROOMS \<longrightarrow> r_in_use (room_at s i) then
        frame ERR_ROOM_CAPACITY_FULL rooms_full_text
      else frame CMD_ROOM_CREATE_OK
        (created_prefix @ drop 2 (current_msg (client_at s p)) @ [LF]))]"
proof (cases "MAX_ROOM_NAME_LEN < length (drop 2 (current_msg (client_at s p)))")
  case True
  with assms show ?thesis
    by (auto simp: create_chat_room_def Let_def res_bind_eq_Inr dest: added_send)
next
  case False
  with assms have "create_loop p (drop 2 (current_msg (client_at s p)))
      (created_prefix @ drop 2 (current_msg (client_at s p)) @ [LF]) 0 s = Inr t"
    by (auto simp: create_chat_room_def Let_def res_bind_eq_Inr c_store_eq_Inr)
  from create_loop_frames [OF this] False show ?thesis
    by (auto simp: first_index_None first_index_Some split: option.splits)
qed

section \<open>Joining\<close>

definition join_replies :: "cptr \<Rightarrow> server \<Rightarrow> (int \<times> string) list" where
  "join_replies p s =
     (let n = parse_room_number (current_msg (client_at s p)); r = room_at s (nat n);
          fd = client_fd (client_at s p) in
      if n < 0 \<or> int MAX_ROOMS \<le> n then [(fd, frame ERR_ROOM_NOT_FOUND bad_number_text)]
      else if \<not> r_in_use r then [(fd, frame ERR_ROOM_NOT_FOUND no_room_text)]
      else if num_clients r = int MAX_CLIENTS_ROOM then
        [(fd, frame ERR_ROOM_CAPACITY_FULL room_full_text)]
      else broadcast_frames (cname (client_at s p) @ entered_suffix) p s (members_of s (nat n)) @
        [(fd, frame CMD_ROOM_JOIN_OK joined_text)])"

text \<open>The newcomer is stored before the notice goes out, and does not get it.\<close>

lemma broadcast_after_add:
  assumes "r_clients (room_at s i) k = None" and "k < MAX_CLIENTS_ROOM"
  shows "broadcast_frames m p (add_member p k i s) (members_of (add_member p k i s) i) =
    broadcast_frames m p s (members_of s i)"
proof -
  have "filter (\<lambda>q. q \<noteq> p) (List.map_filter (f(k := Some p)) xs) =
      filter (\<lambda>q. q \<noteq> p) (List.map_filter f xs)" if "f k = None" for f :: "nat \<Rightarrow> cptr option" and xs
    using that by (induction xs) (auto simp: List.map_filter_simps split: option.splits)
  from this [of "r_clients (room_at s i)"] assms(1) show ?thesis
    by (simp add: broadcast_frames_def members_of_def add_member_def)
qed

lemma enter_frames:
  assumes t: "enter_room p m i s = Inr t"
    and free: "first_index (\<lambda>k. r_clients (room_at s i) k = None) 0 MAX_CLIENTS_ROOM \<noteq> None"
  shows "frames_added s t (broadcast_frames m p s (members_of s i) @
    [(client_fd (client_at s p), frame CMD_ROOM_JOIN_OK joined_text)])"
proof -
  from free obtain k where k: "first_index (\<lambda>k. r_clients (room_at s i) k = None) 0 MAX_CLIENTS_ROOM = Some k"
    by auto
  with t obtain u v where u: "broadcast_message_in_room m i p (add_member p k i s) = Inr u" and
    v: "send_message_to_client (client_fd (client_at u p)) CMD_ROOM_JOIN_OK joined_text u = Inr v"
    and t': "t = move_into p i v"
    by (auto simp: enter_room_def res_bind_eq_Inr)
  have "frames_added (add_member p k i s) u (broadcast_frames m p s (members_of s i))"
    using added_broadcast [OF u] broadcast_after_add [of s i k m p] first_index_bound [OF k] by simp
  then have "frames_added s u (broadcast_frames m p s (members_of s i))"
    by (simp add: add_member_def)
  moreover have "client_at u p = client_at s p"
    using only_sends_state(1) [OF broadcast_InrD [OF u], of p] by (simp add: add_member_def)
  ultimately show ?thesis
    using added_trans [OF _ added_send [OF v]] by (simp add: t' move_into_def)
qed

lemma join_frames:
  assumes ok: "rooms_ok s" and t: "join_chat_room p s = Inr t"
  shows "frames_added s t (join_replies p s)"
proof -
  let ?n = "parse_room_number (current_msg (client_at s p))"
  let ?r = "room_at s (nat ?n)" and ?s1 = "emit (Lock (Room_lock (nat ?n))) s"
  show ?thesis
  proof (cases "?n < 0 \<or> int MAX_ROOMS \<le> ?n \<or> \<not> r_in_use ?r \<or> num_clients ?r = int MAX_CLIENTS_ROOM")
    case True
    with t show ?thesis
      unfolding join_chat_room_def join_replies_def Let_def res_bind_eq_Inr
      by (auto simp: res_bind_eq_Inr split: if_split_asm dest!: added_send)
  next
    case False
    with t obtain u where u: "enter_room p (cname (client_at s p) @ entered_suffix) (nat ?n) ?s1 = Inr u"
      and t': "t = emit (Unlock (Room_lock (nat ?n))) u"
      unfolding join_chat_room_def Let_def by (auto simp: res_bind_eq_Inr c_store_eq_Inr split: if_split_asm)
    have "nat ?n < MAX_ROOMS" using False by (auto simp: nat_less_iff)
    with ok have "room_ok ?r" by (rule rooms_okD)
    with False have "member_count ?r < MAX_CLIENTS_ROOM"
      using member_slots.count_le [of "r_clients ?r"] by (auto simp: room_ok_def)
    from member_slots.first_free_Some [OF this] have
      "first_index (\<lambda>k. r_clients (room_at ?s1 (nat ?n)) k = None) 0 MAX_CLIENTS_ROOM \<noteq> None"
      by (auto simp: non_null_def)
    from enter_frames [OF u this] False show ?thesis
      by (simp add: t' join_replies_def broadcast_frames_def members_of_def)
  qed
qed

section \<open>Leaving\<close>

lemma leave_frames:
  assumes t: "leave_room p (int i) s = Inr t"
  shows "frames_added s t
    (broadcast_frames (cname (client_at s p) @ left_suffix) p s (members_of s i))"
proof -
  let ?s1 = "emit (Lock (Room_lock i)) s"
  from t obtain u where
    u: "broadcast_message_in_room (cname (client_at s p) @ left_suffix) i p (remove_member p i ?s1) = Inr u"
    and t': "t = emit (Unlock (Room_lock i)) (clear_if_empty i u)"
    by (auto simp: leave_room_def Let_def res_bind_eq_Inr c_store_eq_Inr split: if_splits)
  have gone: "filter (\<lambda>q. q \<noteq> p) (List.map_filter (f(j := None)) xs) =
      filter (\<lambda>q. q \<noteq> p) (List.map_filter f xs)" if "f j = Some p" for f :: "nat \<Rightarrow> cptr option" and j xs
    using that by (induction xs) (auto simp: List.map_filter_simps split: option.splits)
  have "frames_added s u (broadcast_frames (cname (client_at s p) @ left_suffix) p s (members_of s i))"
  proof (cases "first_index (\<lambda>k. r_clients (room_at s i) k = Some p) 0 MAX_CLIENTS_ROOM")
    case None
    with added_broadcast [OF u] show ?thesis
      by (simp add: remove_member_def broadcast_frames_def members_of_def)
  next
    case (Some j)
    then have "r_clients (room_at s i) j = Some p" using first_index_bound by blast
    from gone [where f = "r_clients (room_at s i)" and j = j, OF this] added_broadcast [OF u] Some show ?thesis
      by (simp add: remove_member_def broadcast_frames_def members_of_def)
  qed
  then show ?thesis by (simp add: t' clear_if_empty_def)
qed

end
