(* ===== verification/Hall_Replies.thy ===== *)
theory Hall_Replies
  imports Room_Spec Room_Replies Room_Listing Room_View
begin

text \<open>
  What the rooms promise to be seen to do: the frames that each client receives when a message is handled,
  as a function of the hall and the names of the clients. Arrays, slots, locks and the order in which the
  members of a room are served do not appear.
\<close>

section \<open>The specification\<close>

definition hall_line :: "hall \<Rightarrow> nat \<Rightarrow> string" where
  "hall_line h i =
     (case h_rooms h i of None \<Rightarrow> [] | Some (name, ps) \<Rightarrow> ''Room '' @ dec_digits i @ '': '' @ name @ [LF])"

definition hall_list :: "hall \<Rightarrow> string" where
  "hall_list h = list_header @
     (if list_ex (\<lambda>i. h_rooms h i \<noteq> None) [0..<MAX_ROOMS] then concat (map (hall_line h) [0..<MAX_ROOMS])
      else no_rooms_text)"

text \<open>The frames for \<open>q\<close> when \<open>p\<close> alone gets one, and when the members of a room but \<open>p\<close> do.\<close>

definition for_self :: "cptr \<Rightarrow> cptr \<Rightarrow> string \<Rightarrow> string list" where
  "for_self p q f = (if q = p then [f] else [])"

definition for_room :: "cptr \<Rightarrow> hall \<Rightarrow> nat \<Rightarrow> cptr \<Rightarrow> string \<Rightarrow> string list" where
  "for_room p h i q text =
     (case h_rooms h i of None \<Rightarrow> []
      | Some (name, ps) \<Rightarrow> if q \<in> ps \<and> q \<noteq> p then [frame CMD_ROOM_MSG text] else [])"

definition told_leave :: "string \<Rightarrow> cptr \<Rightarrow> hall \<Rightarrow> cptr \<Rightarrow> string list" where
  "told_leave name p h q =
     (case h_place h p of Sits_in i \<Rightarrow> for_room p h i q (name @ left_suffix) | _ \<Rightarrow> [])"

definition told_create :: "cptr \<Rightarrow> string \<Rightarrow> hall \<Rightarrow> cptr \<Rightarrow> string list" where
  "told_create p name h q = for_self p q
     (if MAX_ROOM_NAME_LEN < length name then frame ERR_ROOM_NAME_INVALID name_invalid_text
      else if free_number h = None then frame ERR_ROOM_CAPACITY_FULL rooms_full_text
      else frame CMD_ROOM_CREATE_OK (created_prefix @ name @ [LF]))"

definition told_join :: "string \<Rightarrow> cptr \<Rightarrow> int \<Rightarrow> hall \<Rightarrow> cptr \<Rightarrow> string list" where
  "told_join name p number h q =
     (if number < 0 \<or> int MAX_ROOMS \<le> number then for_self p q (frame ERR_ROOM_NOT_FOUND bad_number_text)
      else (case h_rooms h (nat number) of
              None \<Rightarrow> for_self p q (frame ERR_ROOM_NOT_FOUND no_room_text)
            | Some (_, ps) \<Rightarrow>
                if card ps = MAX_CLIENTS_ROOM then for_self p q (frame ERR_ROOM_CAPACITY_FULL room_full_text)
                else for_room p h (nat number) q (name @ entered_suffix) @
                  for_self p q (frame CMD_ROOM_JOIN_OK joined_text)))"

definition told_accepted :: "string \<Rightarrow> cptr \<Rightarrow> string \<Rightarrow> hall \<Rightarrow> cptr \<Rightarrow> string list" where
  "told_accepted name p msg h q =
     (let command = char_at msg 0; content = drop 2 msg in
      if command = CMD_EXIT then told_leave name p h q
      else (case h_place h p of
              Unnamed \<Rightarrow> for_self p q
                (if MAX_USERNAME_LEN < length content then frame ERR_USERNAME_LENGTH username_long_text
                 else frame CMD_ROOM_LIST_RESPONSE (hall_list h))
            | In_lobby \<Rightarrow>
                if command = CMD_ROOM_CREATE_REQUEST then told_create p content h q
                else if command = CMD_ROOM_JOIN_REQUEST then
                  told_join name p (parse_room_number msg) h q
                else for_self p q (frame CMD_ROOM_LIST_RESPONSE (hall_list h))
            | Sits_in i \<Rightarrow>
                if command = CMD_ROOM_MESSAGE_SEND then for_room p h i q (name @ '': '' @ content)
                else told_leave name p h q @ for_self p q (frame CMD_ROOM_LEAVE_OK left_ok_text)))"

definition told :: "string \<Rightarrow> cptr \<Rightarrow> string \<Rightarrow> hall \<Rightarrow> cptr \<Rightarrow> string list" where
  "told name p msg h q =
     (case format_error msg of
        Some (code, text) \<Rightarrow> for_self p q (frame code text)
      | None \<Rightarrow>
          (case state_error (state_of (h_place h p)) (char_at msg 0) of
             Some text \<Rightarrow> for_self p q (frame ERR_PROTOCOL_INVALID_STATE_CMD text)
           | None \<Rightarrow> told_accepted name p msg h q))"

section \<open>Frames by receiver\<close>

text \<open>\<open>tells s t f\<close>: from \<open>s\<close> to \<open>t\<close> every client in use is sent what \<open>f\<close> says.\<close>

definition tells :: "server \<Rightarrow> server \<Rightarrow> (cptr \<Rightarrow> string list) \<Rightarrow> bool" where
  "tells s t f \<longleftrightarrow> (\<exists>new. frames_added s t new \<and>
     (\<forall>q. c_in_use (client_at s q) \<longrightarrow> frames_to (client_fd (client_at s q)) new = f q))"

lemma tellsI:
  "frames_added s t new \<Longrightarrow>
   (\<And>q. c_in_use (client_at s q) \<Longrightarrow> frames_to (client_fd (client_at s q)) new = f q) \<Longrightarrow> tells s t f"
  unfolding tells_def by blast

lemma tells_cong: "tells s t f \<Longrightarrow> (\<And>q. f q = g q) \<Longrightarrow> tells s t g"
  by (simp add: tells_def)

lemma to_self:
  assumes "sockets_differ s" and "c_in_use (client_at s p)" and "c_in_use (client_at s q)"
  shows "frames_to (client_fd (client_at s q)) [(client_fd (client_at s p), f)] = for_self p q f"
  using assms by (auto simp: sockets_differ_def for_self_def)

lemma tells_self:
  assumes "frames_added s t [(client_fd (client_at s p), f)]"
    and "sockets_differ s" and "c_in_use (client_at s p)"
  shows "tells s t (\<lambda>q. for_self p q f)"
  using assms(1) by (rule tellsI) (rule to_self [OF assms(2,3)])

lemma distinct_members:
  assumes "seated_once s" and "i < MAX_ROOMS"
  shows "distinct (members_of s i)"
proof -
  let ?f = "r_clients (room_at s i)"
  have "inj_on (the \<circ> ?f) {k \<in> {..<MAX_CLIENTS_ROOM}. ?f k \<noteq> None}"
  proof (rule inj_onI)
    fix k l assume k: "k \<in> {k \<in> {..<MAX_CLIENTS_ROOM}. ?f k \<noteq> None}" and
      l: "l \<in> {k \<in> {..<MAX_CLIENTS_ROOM}. ?f k \<noteq> None}" and eq: "(the \<circ> ?f) k = (the \<circ> ?f) l"
    from k eq l obtain q where "?f k = Some q" "?f l = Some q" by auto
    with k l assms have "sits s i k q" "sits s i l q" by (simp_all add: sits_def)
    with assms(1) show "k = l" unfolding seated_once_def by blast
  qed
  then have "inj_on (the \<circ> ?f) (set (filter (\<lambda>k. ?f k \<noteq> None) [0..<MAX_CLIENTS_ROOM]))"
    by (rule inj_on_subset) auto
  then show ?thesis unfolding members_of_def List.map_filter_def by (simp add: distinct_map)
qed

text \<open>Every pointer in a room leads to a client in use, and no client is stored twice; and a client that
  is in a room knows which.\<close>

definition seated :: "server \<Rightarrow> bool" where
  "seated s \<longleftrightarrow> rooms_ok s \<and> seated_once s \<and> (\<forall>i k q. sits s i k q \<longrightarrow> c_in_use (client_at s q))"

definition knows_room :: "cptr \<Rightarrow> server \<Rightarrow> bool" where
  "knows_room p s \<longleftrightarrow> (cstate (client_at s p) = IN_CHAT_ROOM \<longrightarrow>
     (\<exists>i k. sits s i k p \<and> room_index (client_at s p) = int i))"

lemma table_seated: "table_inv s \<Longrightarrow> seated s \<and> knows_room p s"
  using linked_sits [of s] linked_in_room [of s p] linked_seated [of s]
  unfolding table_inv_def seated_def knows_room_def by metis

lemma knows_roomE:
  assumes "knows_room p s" and "seated s" and "cstate (client_at s p) = IN_CHAT_ROOM"
  obtains i k where "sits s i k p" "room_index (client_at s p) = int i" "i < MAX_ROOMS" "r_in_use (room_at s i)"
proof -
  from assms(1,3) obtain i k where ik: "sits s i k p" "room_index (client_at s p) = int i"
    unfolding knows_room_def by blast
  then have "i < MAX_ROOMS" by (simp add: sits_def)
  moreover from this have "r_in_use (room_at s i)"
    using assms(2) ik(1) in_use_sits [of s i] by (auto simp: seated_def)
  ultimately show thesis using that ik by blast
qed

lemma to_room:
  assumes inv: "seated s" and d: "sockets_differ s" and i: "i < MAX_ROOMS" "r_in_use (room_at s i)"
    and q: "c_in_use (client_at s q)" and h: "h_rooms h = room_of s"
  shows "frames_to (client_fd (client_at s q)) (broadcast_frames m p s (members_of s i)) = for_room p h i q m"
proof -
  have used: "c_in_use (client_at s x)" if "x \<in> set (members_of s i)" for x
    using that inv by (auto simp: set_members [OF i(1)] seated_def)
  have "frames_to (client_fd (client_at s q)) (broadcast_frames m p s xs) =
      (if q \<in> set xs \<and> q \<noteq> p then [frame CMD_ROOM_MSG m] else [])"
    if "distinct xs" "\<And>x. x \<in> set xs \<Longrightarrow> c_in_use (client_at s x)" for xs
    using that
  proof (induction xs)
    case (Cons x xs)
    have "client_fd (client_at s x) = client_fd (client_at s q) \<longleftrightarrow> x = q"
      using d q Cons(3) [of x] by (auto simp: sockets_differ_def)
    with Cons show ?case by (auto simp: broadcast_frames_def frames_to_def)
  qed (simp add: broadcast_frames_def)
  from this [OF distinct_members [OF _ i(1)] used] show ?thesis
    using i inv h by (simp add: for_room_def room_of_def seated_def)
qed


section \<open>The operations\<close>

lemma hall_list_text: "room_list_text s = hall_list (hall_of s)"
proof -
  have "hall_line (hall_of s) i = room_line s i" if "i < MAX_ROOMS" for i
    using that by (simp add: hall_line_def room_line_def room_of_def room_entry_def)
  then have "map (hall_line (hall_of s)) [0..<MAX_ROOMS] = map (room_line s) [0..<MAX_ROOMS]" by simp
  moreover have "rooms_open s 0 \<longleftrightarrow> list_ex (\<lambda>i. h_rooms (hall_of s) i \<noteq> None) [0..<MAX_ROOMS]"
    by (auto simp: rooms_open_def list_ex_iff room_of_def)
  ultimately show ?thesis
    unfolding room_list_text_def hall_list_def room_lines_def by (simp only: split: if_split) blast
qed

lemma list_tells:
  assumes "rooms_ok s" and "sockets_differ s" and "c_in_use (client_at s p)" and "send_avail_rooms p s = Inr t"
  shows "tells s t (\<lambda>q. for_self p q (frame CMD_ROOM_LIST_RESPONSE (hall_list (hall_of s))))"
  using send_avail_rooms_frame [OF assms(1,4)]
  by (intro tells_self assms) (simp add: frames_added_def hall_list_text)

lemma leave_tells:
  assumes inv: "seated s" and k: "knows_room p s" and d: "sockets_differ s"
    and room: "cstate (client_at s p) = IN_CHAT_ROOM"
    and h: "h_rooms h = room_of s" "h_place h p = place_of (client_at s p)"
    and t: "leave_room p (room_index (client_at s p)) s = Inr t"
  shows "tells s t (told_leave (cname (client_at s p)) p h)"
proof -
  from k inv room obtain i k where ik: "sits s i k p" "room_index (client_at s p) = int i"
    "i < MAX_ROOMS" "r_in_use (room_at s i)" by (rule knows_roomE)
  have "h_place h p = Sits_in i" using room ik(2) h by (simp add: place_of_def)
  with leave_frames [OF t [unfolded ik(2)]] to_room [OF inv d ik(3,4) _ h(1)] show ?thesis
    by (auto simp: told_leave_def intro!: tellsI)
qed

lemma create_tells:
  assumes "sockets_differ s" and "c_in_use (client_at s p)" and "create_chat_room p s = Inr t"
  shows "tells s t (told_create p (drop 2 (current_msg (client_at s p))) (hall_of s))"
proof -
  have free: "free_number (hall_of s) = None \<longleftrightarrow> (\<forall>i. i < MAX_ROOMS \<longrightarrow> r_in_use (room_at s i))"
    unfolding free_number_hall first_index_None by simp
  show ?thesis
    unfolding told_create_def free by (intro tells_self assms(1,2) create_frames assms(3))
qed

lemma join_tells:
  assumes inv: "seated s" and d: "sockets_differ s" and p: "c_in_use (client_at s p)"
    and h: "h_rooms h = room_of s" and t: "join_chat_room p s = Inr t"
  shows "tells s t (told_join (cname (client_at s p)) p (parse_room_number (current_msg (client_at s p))) h)"
proof -
  let ?n = "parse_room_number (current_msg (client_at s p))"
  let ?r = "room_at s (nat ?n)"
  have ok: "rooms_ok s" and l: "seated_once s" using inv by (simp_all add: seated_def)
  note f = join_frames [OF ok t, unfolded join_replies_def Let_def]
  note self = tells_self [OF _ d p]
  show ?thesis
  proof (cases "?n < 0 \<or> int MAX_ROOMS \<le> ?n")
    case True
    with f show ?thesis by (intro tells_cong [OF self]) (simp_all add: told_join_def)
  next
    case n: False
    then have i: "nat ?n < MAX_ROOMS" by (auto simp: nat_less_iff)
    show ?thesis
    proof (cases "r_in_use ?r")
      case False
      with n f show ?thesis by (intro tells_cong [OF self]) (simp_all add: told_join_def h room_of_def)
    next
      case use: True
      have "num_clients ?r = int (card {q. \<exists>k. sits s (nat ?n) k q})"
        using rooms_okD [OF ok i] card_members [OF l i] by (simp add: room_ok_def)
      then have full: "num_clients ?r = int MAX_CLIENTS_ROOM \<longleftrightarrow>
          card {q. \<exists>k. sits s (nat ?n) k q} = MAX_CLIENTS_ROOM" by simp
      show ?thesis
      proof (cases "num_clients ?r = int MAX_CLIENTS_ROOM")
        case True
        with n use f full show ?thesis
          by (intro tells_cong [OF self]) (simp_all add: told_join_def h room_sits [OF i use])
      next
        case False
        let ?b = "broadcast_frames (cname (client_at s p) @ entered_suffix) p s (members_of s (nat ?n))"
        have "tells s t (\<lambda>q. for_room p h (nat ?n) q (cname (client_at s p) @ entered_suffix) @
            for_self p q (frame CMD_ROOM_JOIN_OK joined_text))"
        proof (rule tellsI)
          show "frames_added s t (?b @ [(client_fd (client_at s p), frame CMD_ROOM_JOIN_OK joined_text)])"
            using f n use False by simp
        next
          fix q assume q: "c_in_use (client_at s q)"
          show "frames_to (client_fd (client_at s q)) (?b @ [(client_fd (client_at s p), frame CMD_ROOM_JOIN_OK joined_text)]) =
              for_room p h (nat ?n) q (cname (client_at s p) @ entered_suffix) @
              for_self p q (frame CMD_ROOM_JOIN_OK joined_text)"
            using to_room [OF inv d i use q h] to_self [OF d p q] by (simp only: frames_to_simps(2))
        qed
        moreover have "told_join (cname (client_at s p)) p ?n h =
            (\<lambda>q. for_room p h (nat ?n) q (cname (client_at s p) @ entered_suffix) @
              for_self p q (frame CMD_ROOM_JOIN_OK joined_text))"
          using n False full by (intro ext) (simp add: told_join_def h room_sits [OF i use])
        ultimately show ?thesis by simp
      qed
    qed
  qed
qed

lemma chat_tells:
  assumes inv: "seated s" and k: "knows_room p s" and d: "sockets_differ s"
    and room: "cstate (client_at s p) = IN_CHAT_ROOM" and h: "h_rooms h = room_of s"
    and cmd: "char_at (current_msg (client_at s p)) 0 = CMD_ROOM_MESSAGE_SEND"
    and t: "handle_in_chat_room p s = Inr t"
  shows "tells s t (\<lambda>q. for_room p h (nat (room_index (client_at s p))) q
    (cname (client_at s p) @ '': '' @ drop 2 (current_msg (client_at s p))))"
proof -
  let ?i = "nat (room_index (client_at s p))"
  let ?m = "cname (client_at s p) @ '': '' @ drop 2 (current_msg (client_at s p))"
  from k inv room obtain i k where ik: "sits s i k p" "room_index (client_at s p) = int i"
    "i < MAX_ROOMS" "r_in_use (room_at s i)" by (rule knows_roomE)
  from t cmd obtain u where u: "broadcast_message_in_room ?m ?i p (emit (Lock (Room_lock ?i)) s) = Inr u"
    "t = emit (Unlock (Room_lock ?i)) u"
    by (auto simp: handle_in_chat_room_def Let_def res_bind_eq_Inr c_store_eq_Inr split: if_splits)
  have "frames_added s t (broadcast_frames ?m p s (members_of s ?i))"
    using added_broadcast [OF u(1)] by (simp add: u(2) broadcast_frames_def members_of_def)
  then show ?thesis
    by (rule tellsI) (use to_room [OF inv d ik(3,4) _ h] ik(2) in simp)
qed

section \<open>A message\<close>

lemma accepted_tells:
  assumes inv: "table_inv s" and d: "sockets_differ s" and p: "c_in_use (client_at s p)"
    and acc: "acceptable (client_at s p)" and t: "dispatch p s = Inr t"
  shows "tells s t (told_accepted (cname (client_at s p)) p (current_msg (client_at s p)) (hall_of s))"
proof -
  note sk = conjunct1 [OF table_seated [OF inv]] conjunct2 [OF table_seated [OF inv, of p]]
  have hall: "h_rooms (hall_of s) = room_of s" "h_place (hall_of s) p = place_of (client_at s p)" by simp_all
  show ?thesis
  proof (cases "char_at (current_msg (client_at s p)) 0 = CMD_EXIT")
    case True
    show ?thesis
    proof (cases "cstate (client_at s p) = IN_CHAT_ROOM")
      case room: True
      with t True obtain u where u: "leave_room p (room_index (client_at s p)) s = Inr u" "t = cleanup_client p u"
        by (auto simp: dispatch_def handle_client_disconnection_def res_bind_eq_Inr)
      have "frames_added s t new \<longleftrightarrow> frames_added s u new" for new
        by (simp add: u(2) cleanup_unfold frames_added_def)
      with leave_tells [OF sk d room hall u(1)] True show ?thesis
        by (auto simp: tells_def told_accepted_def)
    next
      case False
      with t True have "t = cleanup_client p s" by (simp add: dispatch_def handle_client_disconnection_def)
      then have "frames_added s t []" by (simp add: cleanup_unfold frames_added_def)
      moreover have "told_leave (cname (client_at s p)) p (hall_of s) q = []" for q
        using False by (simp add: told_leave_def place_of_def split: client_state.splits)
      ultimately show ?thesis using True by (auto simp: told_accepted_def intro!: tellsI)
    qed
  next
    case exit: False
    have ok: "rooms_ok s" using inv by (simp add: table_inv_def)
    let ?msg = "current_msg (client_at s p)" and ?name = "cname (client_at s p)"
    show ?thesis
    proof (cases "cstate (client_at s p)")
      case AWAITING_USERNAME
      with t exit have h: "handle_awaiting_username p s = Inr t" by (simp add: dispatch_def)
      have "tells s t (\<lambda>q. for_self p q (if MAX_USERNAME_LEN < length (drop 2 ?msg)
          then frame ERR_USERNAME_LENGTH username_long_text
          else frame CMD_ROOM_LIST_RESPONSE (hall_list (hall_of s))))"
      proof (rule tells_self [OF _ d p], cases "MAX_USERNAME_LEN < length (drop 2 ?msg)")
        case True
        with h show "frames_added s t [(client_fd (client_at s p), if MAX_USERNAME_LEN < length (drop 2 ?msg)
            then frame ERR_USERNAME_LENGTH username_long_text
            else frame CMD_ROOM_LIST_RESPONSE (hall_list (hall_of s)))]"
          by (auto simp: handle_awaiting_username_def Let_def dest: added_send)
      next
        case False
        with h obtain n where n: "send_avail_rooms p (upd_client p (\<lambda>c. c\<lparr>cname := n, cstate := IN_CHAT_LOBBY\<rparr>) s) = Inr t"
          by (auto simp: handle_awaiting_username_def Let_def res_bind_eq_Inr)
        let ?u = "upd_client p (\<lambda>c. c\<lparr>cname := n, cstate := IN_CHAT_LOBBY\<rparr>) s"
        have "room_list_text ?u = room_list_text s"
          using room_lines_state [of ?u s] by (simp add: room_list_text_def)
        with send_avail_rooms_frame [OF _ n] ok False
        show "frames_added s t [(client_fd (client_at s p), if MAX_USERNAME_LEN < length (drop 2 ?msg)
            then frame ERR_USERNAME_LENGTH username_long_text
            else frame CMD_ROOM_LIST_RESPONSE (hall_list (hall_of s)))]"
          by (simp add: frames_added_def hall_list_text)
      qed
      then show ?thesis
        by (rule tells_cong) (simp add: told_accepted_def exit place_of_def AWAITING_USERNAME Let_def)
    next
      case IN_CHAT_LOBBY
      with t exit have h: "handle_in_chat_lobby p s = Inr t" by (simp add: dispatch_def)
      have place: "h_place (hall_of s) p = In_lobby" using IN_CHAT_LOBBY by (simp add: place_of_def)
      have cmd: "char_at ?msg 0 \<in> {CMD_ROOM_CREATE_REQUEST, CMD_ROOM_JOIN_REQUEST, CMD_ROOM_LIST_REQUEST}"
        using acc exit IN_CHAT_LOBBY by (auto simp: acceptable_def state_error_def split: if_splits)
      consider (create) "char_at ?msg 0 = CMD_ROOM_CREATE_REQUEST" "create_chat_room p s = Inr t"
        | (join) "char_at ?msg 0 \<noteq> CMD_ROOM_CREATE_REQUEST" "char_at ?msg 0 = CMD_ROOM_JOIN_REQUEST" "join_chat_room p s = Inr t"
        | (list) "char_at ?msg 0 \<noteq> CMD_ROOM_CREATE_REQUEST" "char_at ?msg 0 \<noteq> CMD_ROOM_JOIN_REQUEST" "send_avail_rooms p s = Inr t"
        using h cmd by (auto simp: handle_in_chat_lobby_def Let_def split: if_splits)
      then show ?thesis
      proof cases
        case create
        from create_tells [OF d p create(2)] show ?thesis
          by (rule tells_cong) (use create(1) exit place in \<open>simp add: told_accepted_def Let_def\<close>)
      next
        case join
        from join_tells [OF sk(1) d p hall(1) join(3)] show ?thesis
          by (rule tells_cong) (use join(1,2) exit place in \<open>simp add: told_accepted_def Let_def\<close>)
      next
        case list
        from list_tells [OF ok d p list(3)] show ?thesis
          by (rule tells_cong) (use list(1,2) exit place in \<open>simp add: told_accepted_def Let_def\<close>)
      qed
    next
      case IN_CHAT_ROOM
      with t exit have r: "handle_in_chat_room p s = Inr t" by (simp add: dispatch_def)
      have place: "h_place (hall_of s) p = Sits_in (nat (room_index (client_at s p)))"
        using IN_CHAT_ROOM by (simp add: place_of_def)
      show ?thesis
      proof (cases "char_at ?msg 0 = CMD_ROOM_MESSAGE_SEND")
        case True
        from chat_tells [OF sk d IN_CHAT_ROOM hall(1) True r] show ?thesis
          by (rule tells_cong) (use True exit place in \<open>simp add: told_accepted_def Let_def\<close>)
      next
        case False
        let ?i = "nat (room_index (client_at s p))"
        from False r obtain u v where u: "leave_room p (room_index (client_at s p)) s = Inr u" and
          v: "send_message_to_client (client_fd (client_at u p)) CMD_ROOM_LEAVE_OK left_ok_text
            (emit (Lock (Room_lock ?i)) u) = Inr v" and
          t': "t = upd_client p (\<lambda>c. c\<lparr>cstate := IN_CHAT_LOBBY\<rparr>) (emit (Unlock (Room_lock ?i)) v)"
          by (auto simp: handle_in_chat_room_def Let_def res_bind_eq_Inr)
        from leave_tells [OF sk d IN_CHAT_ROOM hall u] obtain new where new: "frames_added s u new"
          "\<And>q. c_in_use (client_at s q) \<Longrightarrow>
            frames_to (client_fd (client_at s q)) new = told_leave ?name p (hall_of s) q" unfolding tells_def by blast
        have "client_fd (client_at u p) = client_fd (client_at s p)"
          using res_allD [OF leave_follows u] by (simp add: follows_def)
        with added_trans [OF new(1)] added_send [OF v]
        have "frames_added s t (new @ [(client_fd (client_at s p), frame CMD_ROOM_LEAVE_OK left_ok_text)])"
          by (simp add: t')
        then have "tells s t (\<lambda>q. told_leave ?name p (hall_of s) q @ for_self p q (frame CMD_ROOM_LEAVE_OK left_ok_text))"
          by (rule tellsI) (simp only: frames_to_simps(2) new(2) to_self [OF d p])
        then show ?thesis
          by (rule tells_cong) (use False exit place in \<open>simp add: told_accepted_def Let_def\<close>)
      qed
    qed
  qed
qed

lemma route_tells:
  assumes inv: "table_inv s" and d: "sockets_differ s" and p: "c_in_use (client_at s p)"
    and t: "route_client_command p s = Inr t"
  shows "tells s t (told (cname (client_at s p)) p (current_msg (client_at s p)) (hall_of s))"
proof (cases "format_error (current_msg (client_at s p))")
  case (Some x)
  obtain code str where x: "x = (code, str)" by (cases x)
  with Some t have "send_message_to_client (client_fd (client_at s p)) code str s = Inr t"
    by (auto simp: route_client_command_def validate_msg_format_def res_bind_eq_Inr)
  from tells_self [OF added_send [OF this] d p] show ?thesis
    by (rule tells_cong) (simp add: told_def Some x)
next
  case None
  show ?thesis
  proof (cases "state_error (cstate (client_at s p)) (char_at (current_msg (client_at s p)) 0)")
    case (Some str)
    with None t have "send_message_to_client (client_fd (client_at s p)) ERR_PROTOCOL_INVALID_STATE_CMD str s = Inr t"
      by (auto simp: route_client_command_def validate_msg_format_def command_valid_for_state_def
          Let_def res_bind_eq_Inr)
    from tells_self [OF added_send [OF this] d p] show ?thesis
      by (rule tells_cong) (simp add: told_def Some None)
  next
    case no_error: None
    with None have acc: "acceptable (client_at s p)" by (simp add: acceptable_def)
    with t have "dispatch p s = Inr t" by (auto elim: route_cases)
    from accepted_tells [OF inv d p acc this] show ?thesis
      by (rule tells_cong) (simp add: told_def no_error None)
  qed
qed

end
