(* ===== verification/Fine_Notices.thy ===== *)
theory Fine_Notices
  imports Fine_Hall Hall_Replies
begin

text \<open>
  What clients hear from each other while all threads are at work: the notices of the rooms that a step
  sends are the ones that its act calls for in the hall of that moment.
\<close>

section \<open>Notices\<close>

definition is_notice :: "string \<Rightarrow> bool" where
  "is_notice f \<longleftrightarrow> char_at f 0 = CMD_ROOM_MSG"

definition notices :: "string list \<Rightarrow> string list" where
  "notices fs = filter is_notice fs"

text \<open>The notices that \<open>q\<close> hears of an act; \<open>who\<close> gives the names of the clients.\<close>

fun heard :: "(cptr \<Rightarrow> string) \<Rightarrow> act \<Rightarrow> chat \<Rightarrow> cptr \<Rightarrow> string list" where
  "heard who (Message p msg) (h, asks) q = notices (told (who p) p msg h q)"
| "heard who (Gone p) (h, asks) q = told_leave (who p) p h q"
| "heard who a x q = []"

definition mute :: "server \<Rightarrow> server \<Rightarrow> bool" where
  "mute s t \<longleftrightarrow> (\<exists>new. frames_added s t new \<and> (\<forall>f \<in> set new. \<not> is_notice (snd f)))"

interpretation mute: effect_preorder mute
proof
  show "mute s s" for s by (auto simp: mute_def frames_added_def intro: exI [of _ "[]"])
next
  fix s t u assume "mute s t" "mute t u"
  then obtain f g where "frames_added s t f" "\<forall>x \<in> set f. \<not> is_notice (snd x)"
    "frames_added t u g" "\<forall>x \<in> set g. \<not> is_notice (snd x)" unfolding mute_def by blast
  then show "mute s u" unfolding mute_def by (intro exI [of _ "f @ g"]) (auto intro: added_trans)
qed

lemma mute_quiet: "sent_frames (trace t) = sent_frames (trace s) \<Longrightarrow> mute s t"
  unfolding mute_def frames_added_def by (intro exI [of _ "[]"]) simp

lemma mute_send: "code \<noteq> CMD_ROOM_MSG \<Longrightarrow> res_all (mute s) (send_message_to_client fd code m s)"
  unfolding mute_def by (rule res_allI) (auto simp: is_notice_def dest: added_send)

definition notifies :: "server \<Rightarrow> server \<Rightarrow> (cptr \<Rightarrow> string list) \<Rightarrow> bool" where
  "notifies s t f \<longleftrightarrow> (\<exists>new. frames_added s t new \<and>
     (\<forall>q. c_in_use (client_at s q) \<longrightarrow> notices (frames_to (client_fd (client_at s q)) new) = f q))"

lemma mute_notifies: "mute s t \<Longrightarrow> notifies s t (\<lambda>_. [])"
  unfolding mute_def notifies_def notices_def frames_to_def
  by (fastforce simp: filter_empty_conv)

lemma tells_notifies: "tells s t f \<Longrightarrow> notifies s t (\<lambda>q. notices (f q))"
  unfolding tells_def notifies_def by auto

lemma notifies_cong: "notifies s t f \<Longrightarrow> (\<And>q. f q = g q) \<Longrightarrow> notifies s t g"
  by (simp add: notifies_def)

lemma notices_self [simp]: "code \<noteq> CMD_ROOM_MSG \<Longrightarrow> notices (for_self p q (frame code m)) = []"
  by (simp add: notices_def for_self_def is_notice_def)

lemma notices_room [simp]: "notices (for_room p h i q m) = for_room p h i q m"
  by (simp add: notices_def for_room_def is_notice_def split: option.splits)

lemma notices_leave [simp]: "notices (told_leave name p h q) = told_leave name p h q"
  by (simp add: told_leave_def notices_def split: place.splits) (simp add: notices_def [symmetric])

lemma notices_create [simp]: "notices (told_create p name h q) = []"
  by (simp add: told_create_def reply_codes)

lemma notices_append [simp]: "notices (fs @ gs) = notices fs @ notices gs"
  by (simp add: notices_def)


section \<open>Steps that send no notice\<close>

lemma mute_codes [simp]:
  "CMD_ROOM_LIST_RESPONSE \<noteq> CMD_ROOM_MSG" "CMD_ROOM_CREATE_OK \<noteq> CMD_ROOM_MSG"
  "CMD_ROOM_LEAVE_OK \<noteq> CMD_ROOM_MSG" "CMD_ROOM_JOIN_OK \<noteq> CMD_ROOM_MSG"
  "CMD_WELCOME_REQUEST \<noteq> CMD_ROOM_MSG" "ERR_USERNAME_LENGTH \<noteq> CMD_ROOM_MSG"
  "ERR_ROOM_NAME_INVALID \<noteq> CMD_ROOM_MSG" "ERR_ROOM_CAPACITY_FULL \<noteq> CMD_ROOM_MSG"
  "ERR_ROOM_NOT_FOUND \<noteq> CMD_ROOM_MSG" "ERR_SERVER_FULL \<noteq> CMD_ROOM_MSG" "ERR_CONNECTING \<noteq> CMD_ROOM_MSG"
  "ERR_PROTOCOL_INVALID_STATE_CMD \<noteq> CMD_ROOM_MSG" "ERR_PROTOCOL_INVALID_FORMAT \<noteq> CMD_ROOM_MSG"
  "ERR_MSG_EMPTY_CONTENT \<noteq> CMD_ROOM_MSG"
  by (simp_all add: reply_codes)

lemma mute_emit [simp]:
  "(\<And>fd b n. act \<noteq> Send fd b n) \<Longrightarrow> mute s (emit act t) = mute s t"
  "(\<And>fd b n. act \<noteq> Send fd b n) \<Longrightarrow> mute (emit act s) t = mute s t"
  by (simp_all add: mute_def)

lemma mute_upd [simp]:
  "mute s (upd_client p f t) = mute s t" "mute s (upd_room i g t) = mute s t"
  "mute s (clear_msg p t) = mute s t"
  by (simp_all add: mute_def clear_msg_def)

lemma mute_next: "mute s u \<Longrightarrow> next_message p rest u = (c, t) \<Longrightarrow> mute s t"
  by (auto simp: next_message_def)

lemma mute_then_next:
  assumes "then_next p rest m = Inr (c, t)" and "res_all (mute s) m"
  shows "mute s t"
proof -
  from assms(1) obtain u where u: "m = Inr u" "t = clear_msg p u" by (auto simp: then_next_eq)
  from res_allD [OF assms(2) u(1)] show ?thesis by (simp add: u(2))
qed

lemma mute_create_step: "create_step p name success i rest s = Inr (c, t) \<Longrightarrow> mute s t"
proof -
  assume t: "create_step p name success i rest s = Inr (c, t)"
  let ?s = "emit (Lock (Room_lock i)) s"
  have found: "res_all (mute s) (found_room p name success i ?s)"
  proof (rule res_allI)
    fix u assume "found_room p name success i ?s = Inr u"
    from found_room_frames [OF this] show "mute s u"
      unfolding mute_def by (auto simp: is_notice_def)
  qed
  from t consider "t = emit (Unlock (Room_lock i)) ?s"
    | "then_next p rest (found_room p name success i ?s) = Inr (c, t)"
    | "then_next p rest (send_message_to_client (client_fd (client_at s p)) ERR_ROOM_CAPACITY_FULL
        rooms_full_text s) = Inr (c, t)"
    by (cases "i < MAX_ROOMS"; cases "r_in_use (room_at s i)") (auto simp: create_step_def Let_def)
  then show ?thesis
  proof cases
    case 1
    then show ?thesis by (simp add: mute.keep_refl)
  next
    case 2
    then show ?thesis using found by (rule mute_then_next)
  next
    case 3
    then show ?thesis by (rule mute_then_next) (rule mute_send, simp)
  qed
qed

lemma mute_list_step: "list_step p i acc avail rest s = Inr (c, t) \<Longrightarrow> mute s t"
proof -
  assume t: "list_step p i acc avail rest s = Inr (c, t)"
  show ?thesis
  proof (cases "i < MAX_ROOMS")
    case True
    with t have "t = emit (Unlock (Room_lock i)) (emit (Lock (Room_lock i)) s)"
      by (auto simp: list_step_def Let_def res_bind_eq_Inr split: if_splits)
    then show ?thesis by (simp add: mute.keep_refl)
  next
    case False
    with t have t: "then_next p rest (send_list p acc avail s) = Inr (c, t)"
      by (simp add: list_step_def send_list_def)
    have "res_all (mute s) (send_list p acc avail s)"
      unfolding send_list_def by (rule mute.keep_bind_value) (rule mute_send, simp)
    with t show ?thesis by (rule mute_then_next)
  qed
qed

lemma mute_left_step: "left_step p ri rest s = Inr (c, t) \<Longrightarrow> mute s t"
proof -
  assume t: "left_step p ri rest s = Inr (c, t)"
  let ?s = "emit (Lock (Room_lock (nat ri))) s"
  from t obtain u where u: "send_message_to_client (client_fd (client_at s p)) CMD_ROOM_LEAVE_OK left_ok_text ?s = Inr u"
    and t': "t = clear_msg p (upd_client p (\<lambda>c. c\<lparr>cstate := IN_CHAT_LOBBY\<rparr>) (emit (Unlock (Room_lock (nat ri))) u))"
    by (auto simp: left_step_def Let_def then_next_eq res_bind_eq_Inr)
  have "mute ?s u" by (rule res_allD [OF mute_send u]) simp
  then show ?thesis by (simp add: t')
qed

lemma mute_decrement: "mute s (decrement_clients w s)"
  by (rule mute_quiet) (simp add: decrement_clients_def)

lemma mute_clear_slot: "mute s (clear_slot p s)"
  by (rule mute_quiet) (simp add: clear_slot_def Let_def)

lemma mute_begin_create: "begin_create p rest s = Inr (c, t) \<Longrightarrow> mute s t"
  by (auto simp: begin_create_def Let_def res_bind_eq_Inr mute.keep_refl split: if_splits
      intro: mute_then_next mute_send [OF mute_codes(7)])

lemma mute_begin_awaiting: "begin_awaiting p rest s = Inr (c, t) \<Longrightarrow> mute s t"
  by (auto simp: begin_awaiting_def Let_def res_bind_eq_Inr mute.keep_refl split: if_splits
      intro: mute_then_next mute_send [OF mute_codes(6)])

lemma format_error_code: "format_error m = Some (code, x) \<Longrightarrow> code \<noteq> CMD_ROOM_MSG"
  by (auto simp: format_error_def split: if_splits)

lemma mute_validate:
  assumes v: "validate_msg_format p s = Inr (b, u)"
  shows "mute s u"
proof (cases "format_error (current_msg (client_at s p))")
  case None
  with v show ?thesis by (simp add: validate_msg_format_def mute.keep_refl)
next
  case (Some x)
  obtain code str where x: "x = (code, str)" by (cases x)
  with Some v have "send_message_to_client (client_fd (client_at s p)) code str s = Inr u"
    by (auto simp: validate_msg_format_def res_bind_eq_Inr)
  with mute_send [OF format_error_code [OF Some [unfolded x]]] show ?thesis by (rule res_allD)
qed

lemma mute_state_valid: "command_valid_for_state p s = Inr (b, u) \<Longrightarrow> mute s u"
  by (auto simp: command_valid_for_state_def Let_def res_bind_eq_Inr mute.keep_refl
      split: option.splits intro: res_allD [OF mute_send [OF mute_codes(12)]])

section \<open>Messages\<close>

lemma notifies_clear [simp]: "notifies s (clear_msg p t) f = notifies s t f"
  by (simp add: notifies_def clear_msg_def)

lemma disconnect_notifies:
  assumes inv: "seated s" and k: "knows_room p s" and d: "sockets_differ s"
    and h: "h_rooms h = room_of s" "h_place h p = place_of (client_at s p)"
    and t: "begin_disconnect p after s = Inr (c, t)"
  shows "notifies s t (told_leave (cname (client_at s p)) p h)"
proof (cases "cstate (client_at s p) = IN_CHAT_ROOM")
  case True
  with t have "leave_room p (room_index (client_at s p)) s = Inr t"
    by (auto simp: begin_disconnect_def res_bind_eq_Inr)
  from tells_notifies [OF leave_tells [OF inv k d True h this]] show ?thesis by simp
next
  case False
  with t have "t = s" by (simp add: begin_disconnect_def)
  moreover have "told_leave (cname (client_at s p)) p h q = []" for q
    using False h(2) by (simp add: told_leave_def place_of_def split: client_state.splits)
  ultimately show ?thesis
    by (intro notifies_cong [OF mute_notifies]) (simp_all add: mute.keep_refl)
qed

lemma lobby_notifies:
  assumes inv: "seated s" and d: "sockets_differ s" and p: "c_in_use (client_at s p)"
    and h: "h_rooms h = room_of s" and place: "h_place h p = In_lobby"
    and exit: "char_at (current_msg (client_at s p)) 0 \<noteq> CMD_EXIT"
    and t: "begin_lobby p rest s = Inr (c, t)"
  shows "notifies s t (\<lambda>q. notices (told_accepted (cname (client_at s p)) p (current_msg (client_at s p)) h q))"
proof -
  let ?k = "char_at (current_msg (client_at s p)) 0"
  consider (create) "?k = CMD_ROOM_CREATE_REQUEST" "begin_create p rest s = Inr (c, t)"
    | (join) "?k \<noteq> CMD_ROOM_CREATE_REQUEST" "?k = CMD_ROOM_JOIN_REQUEST" "then_next p rest (join_chat_room p s) = Inr (c, t)"
    | (other) "?k \<noteq> CMD_ROOM_CREATE_REQUEST" "?k \<noteq> CMD_ROOM_JOIN_REQUEST" "t = s \<or> t = clear_msg p s"
    using t by (auto simp: begin_lobby_def next_message_def Let_def split: if_splits)
  then show ?thesis
  proof cases
    case create
    from mute_notifies [OF mute_begin_create [OF create(2)]] show ?thesis
      by (rule notifies_cong) (simp add: told_accepted_def create(1) command_codes place Let_def)
  next
    case join
    from join(3) obtain u where u: "join_chat_room p s = Inr u" "t = clear_msg p u" by (auto simp: then_next_eq)
    from tells_notifies [OF join_tells [OF inv d p h u(1)]] show ?thesis
      unfolding u(2) notifies_clear
      by (rule notifies_cong) (use join(1,2) exit place in \<open>simp add: told_accepted_def Let_def\<close>)
  next
    case other
    have "mute s t" using other(3) by (auto simp: mute.keep_refl)
    from mute_notifies [OF this] show ?thesis
      by (rule notifies_cong) (use other(1,2) exit place in \<open>simp add: told_accepted_def Let_def\<close>)
  qed
qed

lemma in_room_notifies:
  assumes inv: "seated s" and k: "knows_room p s" and d: "sockets_differ s"
    and h: "h_rooms h = room_of s" "h_place h p = place_of (client_at s p)"
    and room: "cstate (client_at s p) = IN_CHAT_ROOM"
    and exit: "char_at (current_msg (client_at s p)) 0 \<noteq> CMD_EXIT"
    and t: "begin_in_room p rest s = Inr (c, t)"
  shows "notifies s t (\<lambda>q. notices (told_accepted (cname (client_at s p)) p (current_msg (client_at s p)) h q))"
proof -
  have place: "h_place h p = Sits_in (nat (room_index (client_at s p)))"
    using room h(2) by (simp add: place_of_def)
  show ?thesis
  proof (cases "char_at (current_msg (client_at s p)) 0 = CMD_ROOM_MESSAGE_SEND")
    case True
    with t obtain u where u: "handle_in_chat_room p s = Inr u" "t = clear_msg p u"
      by (auto simp: begin_in_room_def Let_def then_next_eq)
    from tells_notifies [OF chat_tells [OF inv k d room h(1) True u(1)]] show ?thesis
      unfolding u(2) notifies_clear
      by (rule notifies_cong) (use True exit place in \<open>simp add: told_accepted_def Let_def\<close>)
  next
    case False
    with t have "leave_room p (room_index (client_at s p)) s = Inr t"
      by (auto simp: begin_in_room_def Let_def res_bind_eq_Inr)
    from tells_notifies [OF leave_tells [OF inv k d room h this]] show ?thesis
      by (rule notifies_cong) (use False exit place in \<open>simp add: told_accepted_def Let_def\<close>)
  qed
qed

lemma dispatch_notifies:
  assumes inv: "seated s" and k: "knows_room p s" and d: "sockets_differ s" and p: "c_in_use (client_at s p)"
    and h: "h_rooms h = room_of s" "h_place h p = place_of (client_at s p)"
    and t: "begin_dispatch p rest s = Inr (c, t)"
  shows "notifies s t (\<lambda>q. notices (told_accepted (cname (client_at s p)) p (current_msg (client_at s p)) h q))"
proof (cases "char_at (current_msg (client_at s p)) 0 = CMD_EXIT")
  case True
  with t have "begin_disconnect p (Some rest) s = Inr (c, t)" by (simp add: begin_dispatch_def)
  from disconnect_notifies [OF inv k d h this] show ?thesis
    by (rule notifies_cong) (simp add: told_accepted_def True)
next
  case exit: False
  show ?thesis
  proof (cases "cstate (client_at s p)")
    case AWAITING_USERNAME
    with t exit have "begin_awaiting p rest s = Inr (c, t)" by (simp add: begin_dispatch_def)
    from mute_notifies [OF mute_begin_awaiting [OF this]] show ?thesis
      by (rule notifies_cong) (simp add: told_accepted_def exit h place_of_def AWAITING_USERNAME Let_def)
  next
    case IN_CHAT_LOBBY
    with t exit have "begin_lobby p rest s = Inr (c, t)" by (simp add: begin_dispatch_def)
    from lobby_notifies [OF inv d p h(1) _ exit this] IN_CHAT_LOBBY h(2) show ?thesis by (simp add: place_of_def)
  next
    case IN_CHAT_ROOM
    with t exit have "begin_in_room p rest s = Inr (c, t)" by (simp add: begin_dispatch_def)
    from in_room_notifies [OF inv k d h IN_CHAT_ROOM exit this] show ?thesis .
  qed
qed


lemma route_notifies:
  assumes inv: "seated s" and k: "knows_room p s" and d: "sockets_differ s" and p: "c_in_use (client_at s p)"
    and h: "h_rooms h = room_of s" "h_place h p = place_of (client_at s p)"
    and t: "begin_route p rest s = Inr (c, t)"
  shows "notifies s t (\<lambda>q. notices (told (cname (client_at s p)) p (current_msg (client_at s p)) h q))"
proof (cases "acceptable (client_at s p)")
  case True
  then have "begin_route p rest s = begin_dispatch p rest s"
    by (simp add: begin_route_def validate_msg_format_def command_valid_for_state_def acceptable_def Let_def)
  with t have "begin_dispatch p rest s = Inr (c, t)" by simp
  from dispatch_notifies [OF inv k d p h this] show ?thesis
    by (rule notifies_cong) (use True h(2) in \<open>simp add: told_def acceptable_def\<close>)
next
  case False
  obtain b u where u: "validate_msg_format p s = Inr (b, u)"
    using t by (auto simp: begin_route_def res_bind_eq_Inr)
  have "mute s t"
  proof (cases b)
    case False
    with u t mute_validate [OF u] show ?thesis by (auto simp: begin_route_def next_message_def)
  next
    case True
    with validate_cases [OF u] have [simp]: "u = s" and f: "format_error (current_msg (client_at s p)) = None"
      by simp_all
    obtain e x where x: "command_valid_for_state p s = Inr (e, x)"
      using t u True by (auto simp: begin_route_def res_bind_eq_Inr)
    with state_valid_cases [OF x] False f have "\<not> e" by (auto simp: acceptable_def)
    with t u x True mute_state_valid [OF x] show ?thesis by (auto simp: begin_route_def next_message_def)
  qed
  moreover have "notices (told (cname (client_at s p)) p (current_msg (client_at s p)) h q) = []" for q
    using False h(2) format_error_code [of "current_msg (client_at s p)"]
    by (auto simp: told_def acceptable_def split: option.splits)
  ultimately show ?thesis by (intro notifies_cong [OF mute_notifies]) simp_all
qed

section \<open>Any step\<close>

lemma settled_seated:
  assumes tab: "table_inv (settle cs s)" and p: "transit (cs (owner p)) \<noteq> Some p"
  shows "seated s \<and> knows_room p s"
proof -
  have "sits (settle cs s) = sits s" by (intro ext) (simp add: sits_def)
  moreover have "seated (settle cs s)" "knows_room p (settle cs s)" using table_seated [OF tab] by simp_all
  ultimately show ?thesis using p
    by (auto simp: seated_def knows_room_def rooms_ok_def seated_once_def)
qed

lemma chunk_notifies:
  assumes tab: "table_inv (settle cs s)" and d: "sockets_differ s" and c0: "cs w = Chunk p temp"
    and ok: "pc_ok w (cs w) s" and t: "micro w (cs w) s = Inr (c, t)"
  shows "notifies s t (heard (\<lambda>p. cname (client_at s p)) (act_of (cs w) s) (chat_at cs s))"
proof (cases "split_crlf temp")
  case None
  with t c0 have "mute s t"
    by (auto simp: append_msg_def res_bind_eq_Inr mute.keep_refl split: if_splits)
  with None c0 show ?thesis by (auto dest!: mute_notifies intro: notifies_cong)
next
  case (Some x)
  obtain seg rest where x: "x = (seg, rest)" by (cases x)
  have "temp \<noteq> []" using split_crlf_eq [OF Some [unfolded x]] by auto
  with ok c0 have p: "owner p = w" "c_in_use (client_at s p)" by simp_all
  let ?m = "current_msg (client_at s p) @ seg"
  let ?u = "upd_client p (\<lambda>c. c\<lparr>current_msg := ?m\<rparr>) s"
  from t c0 Some x have r: "begin_route p rest ?u = Inr (c, t)"
    by (auto simp: append_msg_def res_bind_eq_Inr c_store_eq_Inr)
  have sk: "seated s" "knows_room p s" using settled_seated [OF tab, of p] c0 p by simp_all
  have "sits ?u = sits s" by (intro ext) simp
  with sk p have u: "seated ?u" "knows_room p ?u"
    by (auto simp: seated_def knows_room_def seated_once_def)
  have d': "sockets_differ ?u" using d by (auto simp: sockets_differ_def)
  have h: "h_rooms (hall_at cs s) = room_of ?u" "h_place (hall_at cs s) p = place_of (client_at ?u p)"
    using room_of_cong [of ?u s] p c0 by simp_all
  have same: "c_in_use (client_at ?u q) = c_in_use (client_at s q)"
    "client_fd (client_at ?u q) = client_fd (client_at s q)" for q by simp_all
  from route_notifies [OF u d' _ h r] p
  have "notifies ?u t (\<lambda>q. notices (told (cname (client_at s p)) p ?m (hall_at cs s) q))" by simp
  then have "notifies s t (\<lambda>q. notices (told (cname (client_at s p)) p ?m (hall_at cs s) q))"
    by (simp only: notifies_def same added_upd)
  then show ?thesis by (rule notifies_cong) (simp add: c0 Some x chat_at_def)
qed

lemma heard_quiet: "mute s t \<Longrightarrow> (\<And>q. heard who a x q = []) \<Longrightarrow> notifies s t (heard who a x)"
  by (rule notifies_cong [OF mute_notifies]) simp_all

lemma micro_notifies:
  assumes tab: "table_inv (settle cs s)" and d: "sockets_differ s" and ok: "pc_ok w (cs w) s"
    and t: "micro w (cs w) s = Inr (c, t)"
  shows "notifies s t (heard (\<lambda>p. cname (client_at s p)) (act_of (cs w) s) (chat_at cs s))"
proof (cases "cs w")
  case (Chunk p temp)
  from chunk_notifies [OF tab d this ok t] show ?thesis .
next
  case (Creating p name success i rest)
  with t mute_create_step show ?thesis by (auto intro!: heard_quiet simp: chat_at_def)
next
  case (Uncounting p after)
  with t have "t = decrement_clients (owner p) s \<or> t = clear_msg p (decrement_clients (owner p) s)"
    by (auto simp: after_cleanup_def next_message_def split: option.splits)
  with Uncounting show ?thesis by (auto intro!: heard_quiet simp: mute_decrement)
next
  case (Greeting fd)
  with t show ?thesis by (auto simp: res_bind_eq_Inr intro!: heard_quiet res_allD [OF mute_send [OF mute_codes(5)]])
qed (use t mute_list_step mute_left_step mute_decrement mute_clear_slot mute.keep_refl in
    \<open>auto intro!: heard_quiet\<close>)

lemma begin_notifies:
  assumes inv: "sys_inv (m, settle cs s)" and d: "sockets_differ s" and c0: "cs w = Ready"
    and e: "event_ok w e s" and t: "begin_event w e s = Inr (c, t)"
  shows "notifies s t (heard (\<lambda>p. cname (client_at s p)) (act_of_event w e s) (chat_at cs s))"
proof (cases "ev_fd e = notification_fd (worker_at s w)")
  case True
  let ?fd = "efd_to_fd (efd_counter (worker_at s w))"
  obtain r u where u: "register_with_epoll w ?fd (ev_add_ok e) (read_efd w s) = (r, u)" by fastforce
  then have "sent_frames (trace u) = sent_frames (trace s)"
    by (auto simp: register_with_epoll_def Let_def read_efd_def split: if_splits)
  with t True u have "sent_frames (trace t) = sent_frames (trace s)"
    by (auto simp: begin_event_def begin_register_def Let_def decrement_clients_def split: if_splits option.splits)
  then have "mute s t" by (rule mute_quiet)
  with True show ?thesis by (auto intro!: heard_quiet simp: act_of_event_def)
next
  case other: False
  show ?thesis
  proof (cases "find_client_by_fd w (ev_fd e) s")
    case None
    with other t have "t = s" by (simp add: begin_event_def)
    with None other show ?thesis by (auto intro!: heard_quiet simp: act_of_event_def mute.keep_refl)
  next
    case (Some p)
    have find: "find_client_by_fd w (ev_fd e) (settle cs s) = Some p"
      using Some by (simp add: find_client_by_fd_def)
    have pos: "0 < ev_fd e" using e other by (simp add: event_ok_def)
    have p: "owner p = w" using find_client_Some [OF find pos sys_invD(2) [OF inv]] by simp
    have sk: "seated s" "knows_room p s"
      using settled_seated [OF sys_invD(1) [OF inv], of p] c0 p by simp_all
    have gone: "notifies s t (heard (\<lambda>p. cname (client_at s p)) (Gone p) (chat_at cs s))"
      if "begin_disconnect p None s = Inr (c, t)"
    proof -
      have "notifies s t (told_leave (cname (client_at s p)) p (hall_at cs s))"
        by (rule disconnect_notifies [OF sk d _ _ that]) (use p c0 in simp_all)
      then show ?thesis by (rule notifies_cong) (simp add: chat_at_def)
    qed
    have idle: "notifies s s (heard (\<lambda>p. cname (client_at s p)) Quiet (chat_at cs s))"
      by (rule heard_quiet) (simp_all add: mute.keep_refl)
    show ?thesis
      using t other Some gone idle
      by (cases "ev_recv e") (auto simp: begin_event_def begin_read_def act_of_event_def split: if_splits bool.splits)
  qed
qed

lemma mute_choose: "choose_step fd left s = Inr (m, t) \<Longrightarrow> mute s t"
proof -
  assume c: "choose_step fd left s = Inr (m, t)"
  let ?l = "Count_lock (worker_index s)"
  let ?s = "next_index (emit (Unlock ?l) (emit (Lock ?l) s))"
  have s: "mute s ?s" by (rule mute_quiet) (simp add: next_index_eq)
  have add: "mute s (next_index (emit (Unlock ?l) (upd_worker v f (emit (Lock ?l) s))))" for v f
    by (rule mute_quiet) (simp add: next_index_eq)
  have "mute s u" if "send_message_to_client fd ERR_SERVER_FULL capacity_text ?s = Inr u" for u
    using s by (rule mute.keep_trans) (rule res_allD [OF mute_send that], simp)
  with c s add show ?thesis
    by (auto simp: choose_step_def Let_def res_bind_eq_Inr split: if_splits nat.splits)
qed

lemma mute_hand_over: "hand_over fd w write_ok s = Inr t \<Longrightarrow> mute s t"
proof -
  let ?s1 = "emit (Sem_wait w) (upd_worker w (\<lambda>t. t\<lparr>new_client := new_client t - 1\<rparr>) s)"
  let ?s2 = "emit (Sem_post w) (upd_worker w (\<lambda>t. t\<lparr>new_client := new_client t + 1\<rparr>) ?s1)"
  assume h: "hand_over fd w write_ok s = Inr t"
  have ok: "mute s (upd_worker w f ?s1)" for f by (rule mute_quiet) simp
  have bad: "mute s (decrement_clients w (emit (Close fd) u))"
    if "send_message_to_client fd ERR_CONNECTING connection_text ?s2 = Inr u" for u
  proof -
    have "mute s ?s2" by (rule mute_quiet) simp
    moreover have "mute ?s2 u" by (rule res_allD [OF mute_send that]) simp
    moreover have "mute u (decrement_clients w (emit (Close fd) u))"
      by (rule mute.keep_trans [OF _ mute_decrement]) (simp add: mute.keep_refl)
    ultimately show ?thesis by (blast intro: mute.keep_trans)
  qed
  from h ok bad show ?thesis
    by (auto simp: hand_over_def handle_write_error_def Let_def res_bind_eq_Inr split: if_splits)
qed

lemma acts_notify:
  assumes "acts (m, cs, s) a (m', cs', t)" and "fine_reachable (m, cs, s)"
  shows "notifies s t (heard (\<lambda>p. cname (client_at s p)) a (chat_at cs s))"
proof -
  note d = fine_invD [OF fine_reachable_inv [OF assms(2)]]
  have sd: "sockets_differ s" using reachable_sockets [OF assms(2)] by simp
  have quiet: "notifies s t (heard (\<lambda>p. cname (client_at s p)) Quiet (chat_at cs s))" if "mute s t"
    using that by (rule heard_quiet) simp
  from assms(1) show ?thesis
  proof (cases rule: acts.cases)
    case (a_starts w efd add_ok)
    then have "worker_start w efd add_ok s = Some t" by simp
    then have "sent_frames (trace t) = sent_frames (trace s)"
      by (auto simp: worker_start_def register_with_epoll_def Let_def split: if_splits)
    with a_starts quiet mute_quiet show ?thesis by blast
  next
    case (a_accepts fd opts)
    with quiet show ?thesis by (simp add: mute.keep_refl)
  next
    case (a_chooses fd left)
    with quiet mute_choose show ?thesis by blast
  next
    case (a_resumes w fd write_ok)
    with quiet mute_hand_over show ?thesis by blast
  next
    case (a_begins w e c)
    then have "cs w = Ready" "event_ok w e s" "begin_event w e s = Inr (c, t)" by simp_all
    from begin_notifies [OF d(1) sd this] a_begins show ?thesis by simp
  next
    case (a_continues w c)
    then have "micro w (cs w) s = Inr (c, t)" by simp
    from micro_notifies [OF sys_invD(1) [OF d(1)] sd d(3) this] a_continues show ?thesis by simp
  qed
qed

end
