(* ===== verification/History_Properties.thy ===== *)
theory History_Properties
  imports Thread_Properties Fine_Notices
begin

text \<open>
  The threads together as one chat server: the acts on the hall, in the order of the critical sections
  that perform them, explain the state and what the members of the rooms hear.
\<close>

section \<open>A first message\<close>

lemma naming_message: "split_crlf (frame CMD_USERNAME_SUBMIT ''ann'') = Some (CMD_USERNAME_SUBMIT # '' ann'', [])"
  using split_frame [of "''ann''" CMD_USERNAME_SUBMIT "[]"] by (simp add: command_codes)

lemma naming_acts:
  obtains s c t where
    "fine_reachable (Accepting, (\<lambda>_. Ready)(0 := Chunk ann (frame CMD_USERNAME_SUBMIT ''ann'')), s)"
    "acts (Accepting, (\<lambda>_. Ready)(0 := Chunk ann (frame CMD_USERNAME_SUBMIT ''ann'')), s)
      (Message ann (CMD_USERNAME_SUBMIT # '' ann''))
      (Accepting, (\<lambda>_. Ready)(0 := c), t)"
    "client_at s ann = new_client_in_slot 20"
proof -
  let ?b = "frame CMD_USERNAME_SUBMIT ''ann''"
  let ?cs = "(\<lambda>_ :: nat. Ready)(0 := Chunk ann ?b)"
  from naming obtain s where s: "fine_reachable (Accepting, (\<lambda>_. Ready), s)"
    "fine_step (Accepting, (\<lambda>_. Ready), s) (Accepting, ?cs, s)"
    "client_at s ann = new_client_in_slot 20" .
  let ?u = "upd_client ann (\<lambda>c. c\<lparr>current_msg := CMD_USERNAME_SUBMIT # '' ann''\<rparr>) s"
  have x: "fine_reachable (Accepting, ?cs, s)" using s(1,2) by (rule fine_reachable.f_steps)
  have c: "current_msg (client_at s ann) = []" "cstate (client_at s ann) = AWAITING_USERNAME"
    by (simp_all add: s(3) new_client_in_slot_def)
  have "names_ok ?u" using fine_reachable_names [OF x] by (simp add: names_ok_def)
  then have "returns (begin_route ann [] ?u)" by (rule begin_route_returns) (simp add: c)
  then obtain d t where r: "begin_route ann [] ?u = Inr (d, t)" by (auto simp: returns_iff)
  have "append_msg ann (CMD_USERNAME_SUBMIT # '' ann'') s = Inr ?u"
    by (simp add: append_msg_def c c_store_def limits)
  with r have "micro 0 (?cs 0) s = Inr (d, t)" by (simp add: naming_message)
  then have "acts (Accepting, ?cs, s) (act_of (?cs 0) s) (Accepting, ?cs(0 := d), t)"
    by (rule acts.a_continues [where w = 0 and cs = ?cs, rotated 2]) simp_all
  then have "acts (Accepting, ?cs, s) (Message ann (CMD_USERNAME_SUBMIT # '' ann'')) (Accepting, (\<lambda>_. Ready)(0 := d), t)"
    by (simp add: naming_message c)
  with x s(3) show thesis using that by blast
qed

section \<open>The state\<close>

text \<open>
  C1: Under every interleaving of the critical sections the server is linearizable with respect to the
  abstract hall: each step performs at most one act (a whole message, a disconnection, or one of
  the two parts of creating a room), the acts in their order are legal, that is, rooms are opened under
  free numbers for clients of the lobby that have asked for them and a client that waits for its room does
  nothing else; and folding them over the empty hall gives the rooms, the member sets, the places of all
  clients and the names that were asked for, at every moment. (The history is one in which no client sends
  anything after an EXIT in the same chunk.)
\<close>

theorem threads_implement_hall:
  assumes "history (m, cs, s) as"
  shows "legal as empty_chat \<and> chat_at cs s = fold perform as empty_chat"
  using history_explains [OF assms] by simp

theorem threads_implement_hall_witness:
  "\<exists>m cs s as. history (m, cs, s) (as @ [Message ann (CMD_USERNAME_SUBMIT # '' ann'')]) \<and> legal as empty_chat \<and>
    h_place (fst (fold perform as empty_chat)) ann = Unnamed \<and>
    h_place (hall_at cs s) ann = In_lobby"
proof -
  from naming_acts obtain s c t where
    x: "fine_reachable (Accepting, (\<lambda>_. Ready)(0 := Chunk ann (frame CMD_USERNAME_SUBMIT ''ann'')), s)" and
    y: "acts (Accepting, (\<lambda>_. Ready)(0 := Chunk ann (frame CMD_USERNAME_SUBMIT ''ann'')), s)
      (Message ann (CMD_USERNAME_SUBMIT # '' ann'')) (Accepting, (\<lambda>_. Ready)(0 := c), t)" and
    s: "client_at s ann = new_client_in_slot 20" .
  from reachable_history [OF x] obtain as where as: "history (Accepting, (\<lambda>_. Ready)(0 := Chunk ann
      (frame CMD_USERNAME_SUBMIT ''ann'')), s) as" by blast
  note before = threads_implement_hall [OF as] and after = threads_implement_hall [OF h_acts [OF as y]]
  obtain h asks where ha: "fold perform as empty_chat = (h, asks)" by fastforce
  have h: "h_place h ann = Unnamed"
    using before ha s by (auto simp: chat_at_def new_client_in_slot_def place_of_def)
  have "well_formed Unnamed (CMD_USERNAME_SUBMIT # '' ann'')"
    by (simp add: well_formed_def format_error_def state_error_def char_at_def char_val_def command_codes limits)
  then have "fst (chat_at ((\<lambda>_. Ready)(0 := c)) t) = spec_message ann (CMD_USERNAME_SUBMIT # '' ann'') h"
    using after ha h by simp
  then have "h_place (hall_at ((\<lambda>_. Ready)(0 := c)) t) ann = In_lobby"
    by (simp add: chat_at_def spec_message_def h char_at_def command_codes limits del: hall_at_simps)
  with before ha h h_acts [OF as y] show ?thesis by fastforce
qed

section \<open>The notices\<close>

text \<open>
  C2: Under every interleaving the members of the rooms hear exactly what the acts call for: in each step,
  every client in use is sent the notices (chat messages, who has entered, who has left) that the
  specification gives for the step's act in the hall of that moment, and no others. So all members of
  a room hear the same messages in the same order, and a client hears nothing of a room it is not in. (The
  state is one that is reached while no client sends anything after an EXIT in the same chunk.)
\<close>

theorem notices_follow_acts:
  assumes "fine_reachable (m, cs, s)" and "acts (m, cs, s) a (m', cs', t)" and "c_in_use (client_at s q)"
  shows "\<exists>new. sent_frames (trace t) = sent_frames (trace s) @ new \<and>
    notices (frames_to (client_fd (client_at s q)) new) = heard (\<lambda>p. cname (client_at s p)) a (chat_at cs s) q"
  using acts_notify [OF assms(2,1)] assms(3) unfolding notifies_def frames_added_def by blast

theorem notices_follow_acts_witness:
  "\<exists>s t cs. acts (Accepting, cs, s) (Message ann (CMD_USERNAME_SUBMIT # '' ann'')) (Accepting, cs(0 := snd t), fst t) \<and>
    (\<exists>new. sent_frames (trace (fst t)) = sent_frames (trace s) @ new \<and> notices (frames_to 20 new) = [])"
proof -
  from naming_acts obtain s c t where
    x: "fine_reachable (Accepting, (\<lambda>_. Ready)(0 := Chunk ann (frame CMD_USERNAME_SUBMIT ''ann'')), s)" and
    y: "acts (Accepting, (\<lambda>_. Ready)(0 := Chunk ann (frame CMD_USERNAME_SUBMIT ''ann'')), s)
      (Message ann (CMD_USERNAME_SUBMIT # '' ann'')) (Accepting, (\<lambda>_. Ready)(0 := c), t)" and
    s: "client_at s ann = new_client_in_slot 20" .
  let ?cs = "(\<lambda>_ :: nat. Ready)(0 := Chunk ann (frame CMD_USERNAME_SUBMIT ''ann''))"
  have "c_in_use (client_at s ann)" "client_fd (client_at s ann) = 20" "cname (client_at s ann) = []"
    by (simp_all add: s new_client_in_slot_def)
  moreover have "heard (\<lambda>p. cname (client_at s p)) (Message ann (CMD_USERNAME_SUBMIT # '' ann'')) (chat_at ?cs s) ann = []"
    by (simp add: chat_at_def told_def format_error_def state_error_def char_at_def char_val_def command_codes
        limits s new_client_in_slot_def place_of_def told_accepted_def)
  ultimately have "\<exists>new. sent_frames (trace t) = sent_frames (trace s) @ new \<and> notices (frames_to 20 new) = []"
    using notices_follow_acts [OF x y, of ann] by simp
  moreover have "?cs(0 := c) = (\<lambda>_. Ready)(0 := c)" by simp
  ultimately show ?thesis using y by (metis fst_conv snd_conv)
qed

end
