(* ===== verification/System_Properties.thy ===== *)
theory System_Properties
  imports Samples Room_Replies
begin

text \<open>
  The properties of the threads together: the accounts of clients and descriptors, the way of a
  connection from \<open>accept4\<close> to a slot, and what an operation may not touch. A reachable state is one
  that \<open>sys_step\<close> leads to from the start; the steps assume that no client sends a message after
  EXIT in the same chunk (\<open>exit_last\<close>), and \<open>exit_is_not_the_end\<close> shows that the accounts fail otherwise.
\<close>

section \<open>Accounts\<close>

text \<open>
  In every state the server can reach while no client sends on after its EXIT, a worker's
  \<open>num_of_clients\<close> is the number of its slots in use plus the connections on their way to it (chosen
  by the main thread, or in the eventfd); it never exceeds 1500; and the semaphore \<open>new_client\<close> is
  free exactly while the eventfd is empty.
\<close>

lemma clients_accounted:
  assumes "reachable (m, s)" and "w < MAX_THREADS"
  shows "num_of_clients (worker_at s w) =
      int (client_count (worker_at s w) + pending_main m w + pending_efd s w) \<and>
    num_of_clients (worker_at s w) \<le> int MAX_CLIENTS_PER_THREAD \<and>
    new_client (worker_at s w) + pending_efd s w = 1"
  using sys_invD(6) [OF reachable_inv [OF assms(1)] assms(2)] by (simp add: worker_ok_def)

lemma clients_accounted_witness:
  "num_of_clients (worker_at greeting 0) = 1 \<and> client_count (worker_at greeting 0) = 0"
proof -
  have "pending_main Main_accepting 0 = 0" "pending_efd greeting 0 = 1"
    by (simp_all add: pending_main_def pending_efd_def greeting_worker)
  with clients_accounted [OF greeting_reachable, of 0] show ?thesis
    by (simp add: greeting_worker)
qed

text \<open>
  In every reachable state (the clients sending nothing after an EXIT) the room table is
  consistent: \<open>num_clients\<close> is the number of different members, a room is in use exactly when it has
  a member, and every member is a client in use, in the state \<open>IN_CHAT_ROOM\<close>, whose \<open>room_index\<close> is
  that room.
\<close>

lemma rooms_consistent:
  assumes "reachable (m, s)" and "i < MAX_ROOMS"
  shows "num_clients (room_at s i) = int (card {q. \<exists>k. sits s i k q}) \<and>
    (r_in_use (room_at s i) \<longleftrightarrow> {q. \<exists>k. sits s i k q} \<noteq> {}) \<and>
    (\<forall>q \<in> {q. \<exists>k. sits s i k q}. c_in_use (client_at s q) \<and>
      cstate (client_at s q) = IN_CHAT_ROOM \<and> room_index (client_at s q) = int i)"
proof -
  have inv: "rooms_ok s" "linked s"
    using sys_invD(1) [OF reachable_inv [OF assms(1)]] by (simp_all add: table_inv_def)
  have "num_clients (room_at s i) = int (card {q. \<exists>k. sits s i k q})"
    using rooms_okD [OF inv(1) assms(2)] card_members [OF linked_seated [OF inv(2)] assms(2)] by (simp add: room_ok_def)
  moreover have "r_in_use (room_at s i) \<longleftrightarrow> {q. \<exists>k. sits s i k q} \<noteq> {}"
    using in_use_sits [OF inv(1) assms(2)] by blast
  ultimately show ?thesis using linked_sits [OF inv(2)] by blast
qed

lemma rooms_consistent_witness: "\<not> r_in_use (room_at greeting 7) \<and> card {q. \<exists>k. sits greeting 7 k q} = 0"
proof -
  have "room_at greeting 7 = zero_room" by (simp add: greeting_def next_index_eq)
  with rooms_consistent [OF greeting_reachable, of 7] show ?thesis by (simp add: limits)
qed

text \<open>
  A client in the state \<open>IN_CHAT_ROOM\<close> is in exactly one place of exactly one room, the one its
  \<open>room_index\<close> names; serving a client keeps it so, whatever bytes it sends, as long as none of its
  messages follows an EXIT in the same chunk.
\<close>

lemma one_room_per_client:
  assumes "table_inv s" and "c_in_use (client_at s p)"
    and "exit_last (current_msg (client_at s p)) (cstr (take MAX_MESSAGE_LEN_TO_SERVER bytes))"
    and "read_and_process_client_message p (Received bytes) s = Inr t"
    and "cstate (client_at t q) = IN_CHAT_ROOM"
  shows "\<exists>!x. sits t (fst x) (snd x) q \<and> room_index (client_at t q) = int (fst x)"
proof -
  have l: "linked t" using read_inv [OF assms(1,2) _ assms(4)] assms(3) by (simp add: table_inv_def)
  from linked_in_room [OF l assms(5)] obtain i k where "sits t i k q" "room_index (client_at t q) = int i" .
  then show ?thesis using linked_unique [OF l] by (intro ex1I [of _ "(i, k)"]) force+
qed

lemma one_room_per_client_witness:
  "\<exists>t. read_and_process_client_message ann (Received (frame CMD_ROOM_MESSAGE_SEND ''hi'')) (room_server []) = Inr t \<and>
    (\<exists>!x. sits t (fst x) (snd x) bob \<and> room_index (client_at t bob) = int (fst x))"
proof -
  have "CMD_ROOM_MESSAGE_SEND \<in> {CMD_EXIT, CMD_ROOM_MESSAGE_SEND, CMD_LEAVE_ROOM,
      CMD_ROOM_CREATE_REQUEST, CMD_ROOM_JOIN_REQUEST, CMD_ROOM_LIST_REQUEST}" by simp
  from sample_read(2) [OF this, of "''hi''"] obtain t where
    t: "read_and_process_client_message ann (Received (frame CMD_ROOM_MESSAGE_SEND ''hi'')) (room_server []) = Inr t"
    by auto
  have "cstr (take MAX_MESSAGE_LEN_TO_SERVER (frame CMD_ROOM_MESSAGE_SEND ''hi'')) =
      frame CMD_ROOM_MESSAGE_SEND ''hi''"
    by (rule whole_frame) (simp_all add: limits command_codes)
  then have "exit_last (current_msg (client_at (room_server []) ann))
      (cstr (take MAX_MESSAGE_LEN_TO_SERVER (frame CMD_ROOM_MESSAGE_SEND ''hi'')))"
    using split_frame [of "''hi''" CMD_ROOM_MESSAGE_SEND "[]"]
    by (simp add: exit_last.simps [of _ "frame _ _"] exit_last.simps [of _ "[]"] is_exit_def
        command_codes char_at_def)
  moreover have "cstate (client_at t bob) = IN_CHAT_ROOM"
    using res_allD [OF read_own.read_keeps t] by (simp add: only_own_def)
  ultimately show ?thesis
    using one_room_per_client [OF room_inv _ _ t, of bob] t by auto
qed

text \<open>
  Descriptors never mix: in a reachable state no descriptor is held twice (by the main thread,
  an eventfd or a slot), and every one held is positive, so no client is confused with another or
  with a free slot, whose descriptor field is 0.
\<close>

lemma descriptors_distinct:
  assumes "reachable (m, s)" and "fd_of m s h = Some fd" and "fd_of m s h' = Some fd"
  shows "h = h' \<and> 0 < fd"
  using sys_invD(3) [OF reachable_inv [OF assms(1)]] assms(2,3)
  by (auto simp: fds_ok_def valid_fd_def)

lemma greeting_efd: "fd_of Main_accepting greeting (In_eventfd 0) = Some 20"
  by (simp add: greeting_worker efd_to_fd_def)

lemma descriptors_distinct_witness:
  "{h. fd_of Main_accepting greeting h = Some 20} = {In_eventfd 0}"
  using descriptors_distinct [OF greeting_reachable _ greeting_efd] greeting_efd by blast

text \<open>
  Nobody is forgotten: in a reachable state the descriptor of every client in a slot is in the
  epoll set of the worker that owns the slot, so what the client sends will be reported.
\<close>

lemma clients_registered:
  assumes "reachable (m, s)" and "c_in_use (client_at s p)"
  shows "client_fd (client_at s p) \<in> epoll_set (worker_at s (owner p)) \<and>
    owner p < MAX_THREADS \<and> slot p < MAX_CLIENTS_PER_THREAD"
proof -
  have "slots_ok s" by (rule sys_invD(2) [OF reachable_inv [OF assms(1)]])
  then show ?thesis
    using reachable_epoll [OF assms(1)] assms(2) by (auto simp: epoll_ok_def slots_ok_def split: if_splits)
qed

lemma clients_registered_witness:
  "\<exists>t. client_at t ann = new_client_in_slot 20 \<and> 20 \<in> epoll_set (worker_at t 0)"
proof -
  obtain t where t: "reachable (Main_accepting, t)" "client_at t ann = new_client_in_slot 20"
    using welcomed by blast
  from clients_registered [OF t(1), of ann] t(2) show ?thesis by auto
qed

section \<open>From accept to a slot\<close>

text \<open>
  A worker that reads a descriptor from its eventfd always finds a free slot for it: the
  capacity check of the main thread makes the failure branch of \<open>allocate_client_slot\<close> unreachable.
\<close>

lemma slot_for_every_client:
  assumes "reachable (m, s)" and "w < MAX_THREADS" and "efd_counter (worker_at s w) \<noteq> 0"
  shows "\<exists>t k. allocate_client_slot w fd s = (True, t) \<and> k < MAX_CLIENTS_PER_THREAD \<and>
    \<not> c_in_use (client_at s (Cptr w k)) \<and> client_at t (Cptr w k) = new_client_in_slot fd"
proof -
  obtain b t where bt: "allocate_client_slot w fd s = (b, t)" by fastforce
  have "client_count (worker_at s w) < MAX_CLIENTS_PER_THREAD"
    using sys_invD(6) [OF reachable_inv [OF assms(1)] assms(2)] assms(3)
    by (simp add: worker_ok_def pending_efd_def)
  then show ?thesis
    using bt by (cases rule: allocate_cases [OF bt]) auto
qed

lemma slot_for_every_client_witness:
  "\<exists>t k. allocate_client_slot 0 20 greeting = (True, t) \<and> k < MAX_CLIENTS_PER_THREAD \<and>
    \<not> c_in_use (client_at greeting (Cptr 0 k)) \<and> client_at t (Cptr 0 k) = new_client_in_slot 20"
  by (rule slot_for_every_client [OF greeting_reachable]) (simp_all add: greeting_worker)

text \<open>
  C23: \<open>find_worker_not_at_capacity\<close> takes the first worker below capacity in round-robin order from
  \<open>worker_index\<close>, counts the new client and moves the index behind that worker; it fails only when
  all workers are at capacity.
\<close>

theorem round_robin:
  assumes "worker_index s < MAX_THREADS" and "find_worker_not_at_capacity s = (r, t)"
  shows "case r of
      None \<Rightarrow> \<forall>w \<in> {..<MAX_THREADS}. at_capacity s w
    | Some w \<Rightarrow> \<not> at_capacity s w \<and> worker_index t = (w + 1) mod MAX_THREADS \<and>
        num_of_clients (worker_at t w) = num_of_clients (worker_at s w) + 1 \<and>
        (\<exists>j\<le>MAX_THREADS. w = nth_worker s j \<and> (\<forall>i \<in> {..<j}. at_capacity s (nth_worker s i)))"
proof -
  from find_worker_spec [OF assms(2) [unfolded find_worker_not_at_capacity_def] assms(1)]
  show ?thesis
  proof (elim disjE exE conjE)
    assume r: "r = None" and full: "\<forall>j\<le>MAX_THREADS. at_capacity s (nth_worker s j)"
    have "at_capacity s w" if w: "w < MAX_THREADS" for w
    proof -
      let ?j = "(w + MAX_THREADS - worker_index s) mod MAX_THREADS"
      have "nth_worker s ?j = w"
        using w assms(1) by (simp add: nth_worker_def mod_add_right_eq)
      then show ?thesis using full by (metis mod_less_divisor less_imp_le sizes_pos(1))
    qed
    with r show ?thesis by simp
  next
    fix j
    assume j: "j \<le> MAX_THREADS" "r = Some (nth_worker s j)" "\<not> at_capacity s (nth_worker s j)"
      "\<forall>i<j. at_capacity s (nth_worker s i)"
      "same_structs (set_index (nth_worker s (Suc j)) (one_more (nth_worker s j) s)) t"
    have "nth_worker s (Suc j) = (nth_worker s j + 1) mod MAX_THREADS"
      by (simp add: nth_worker_def mod_simps)
    with j show ?thesis by (auto simp: same_structs_state)
  qed
qed

theorem round_robin_witness:
  "\<exists>t. find_worker_not_at_capacity booted = (Some 0, t) \<and> worker_index t = 1 \<and>
    num_of_clients (worker_at t 0) = 1"
proof -
  obtain r t where rt: "find_worker_not_at_capacity booted = (r, t)" by fastforce
  have "r = Some 0"
    using rt by (simp add: find_worker_not_at_capacity_def find_worker_loop.simps [of MAX_THREADS]
        Let_def MAX_CLIENTS_PER_THREAD_def)
  with round_robin [OF _ rt] rt show ?thesis by (simp add: MAX_THREADS_def)
qed

text \<open>
  The eventfd hands over exactly the descriptor that was accepted: what \<open>hand_over\<close> writes into
  an empty eventfd reads back, through the 64-bit counter and the cast to \<open>int\<close>, as the same
  descriptor.
\<close>

lemma descriptor_handed_over:
  assumes "valid_fd fd" and "efd_counter (worker_at s w) = 0" and "hand_over fd w True s = Inr t"
  shows "efd_to_fd (efd_counter (worker_at t w)) = fd \<and> efd_counter (worker_at t w) \<noteq> 0"
  using assms fd_to_efd_valid [OF assms(1)] fd_round_trip [OF assms(1)]
  by (auto simp: hand_over_def Let_def)

lemma descriptor_handed_over_witness:
  "\<exists>t. hand_over 20 0 True booted = Inr t \<and> efd_to_fd (efd_counter (worker_at t 0)) = 20"
proof -
  obtain t where t: "hand_over 20 0 True booted = Inr t"
    by (simp add: hand_over_def Let_def efd_20)
  have "valid_fd 20" "efd_counter (worker_at booted 0) = 0" by (simp_all add: valid_fd_def)
  from descriptor_handed_over [OF this t] t show ?thesis by blast
qed

text \<open>
  When the write to the eventfd fails, \<open>handle_write_error\<close> undoes the reservation: the client
  is told and its descriptor closed, the count of the worker and its semaphore are what they were
  before the client was assigned to it.
\<close>

lemma failed_hand_over:
  assumes "0 < new_client (worker_at s w)" and "hand_over fd w False s = Inr t"
  shows "sent_frames (trace t) = sent_frames (trace s) @ [(fd, frame ERR_CONNECTING connection_text)] \<and>
    Close fd \<in> set (trace t) \<and>
    worker_at t w = (worker_at s w)\<lparr>num_of_clients := num_of_clients (worker_at s w) - 1\<rparr>"
proof -
  from assms(2) obtain u where
    u: "send_message_to_client fd ERR_CONNECTING connection_text
      (emit (Sem_post w) (upd_worker w (\<lambda>t. t\<lparr>new_client := new_client t + 1\<rparr>)
        (emit (Sem_wait w) (upd_worker w (\<lambda>t. t\<lparr>new_client := new_client t - 1\<rparr>) s)))) = Inr u"
    and t: "t = decrement_clients w (emit (Close fd) u)"
    by (auto simp: hand_over_def handle_write_error_def Let_def res_bind_eq_Inr)
  note same = only_sends_state [OF send_InrD [OF u]]
  show ?thesis
    using res_allD [OF send_frames u] assms(1)
    by (auto simp: t decrement_clients_def same)
qed

lemma failed_hand_over_witness:
  "\<exists>t. hand_over 20 0 False booted = Inr t \<and>
    sent_frames (trace t) = [(20, frame ERR_CONNECTING connection_text)]"
proof -
  have "length connection_text \<le> 200" by (simp add: connection_text_def)
  from reply_sends [OF this] obtain u where "send_message_to_client 20 ERR_CONNECTING connection_text
      (emit (Sem_post 0) (upd_worker 0 (\<lambda>t. t\<lparr>new_client := new_client t + 1\<rparr>)
        (emit (Sem_wait 0) (upd_worker 0 (\<lambda>t. t\<lparr>new_client := new_client t - 1\<rparr>) booted)))) = Inr u"
    by blast
  then obtain t where t: "hand_over 20 0 False booted = Inr t"
    by (simp add: hand_over_def handle_write_error_def Let_def)
  from failed_hand_over [OF _ t] t show ?thesis by simp
qed

text \<open>
  When every worker is at capacity the new client is refused with \<open>ERR_SERVER_FULL\<close> and its
  connection closed, and no client, room or count of the server changes.
\<close>

lemma full_server_refuses:
  assumes "worker_index s < MAX_THREADS" and "\<forall>w \<in> {..<MAX_THREADS}. at_capacity s w"
    and "pick_worker fd s = Inr (c, t)"
  shows "c = None \<and> Close fd \<in> set (trace t) \<and>
    (fd, frame ERR_SERVER_FULL capacity_text) \<in> set (sent_frames (trace t)) \<and>
    (\<forall>p. client_at t p = client_at s p) \<and> (\<forall>w. worker_at t w = worker_at s w) \<and>
    (\<forall>i. room_at t i = room_at s i)"
proof -
  obtain r u where u: "find_worker_loop MAX_THREADS s = (r, u)" by fastforce
  from find_worker_spec [OF u assms(1)] assms(2) have
    r: "r = None" "same_structs (set_index (nth_worker s (Suc MAX_THREADS)) s) u"
    by auto
  with assms(3) u obtain v where v: "send_message_to_client fd ERR_SERVER_FULL capacity_text u = Inr v"
    and c: "c = None" "t = emit (Close fd) v"
    by (auto simp: pick_worker_def find_worker_not_at_capacity_def res_bind_eq_Inr)
  show ?thesis
    using res_allD [OF send_frames v] only_sends_state [OF send_InrD [OF v]] same_structs_state [OF r(2)]
    by (simp add: c)
qed

lemma full_server_refuses_witness:
  "\<exists>t. pick_worker 20 full_server = Inr (None, t) \<and> Close 20 \<in> set (trace t)"
proof -
  obtain r u where u: "find_worker_loop MAX_THREADS full_server = (r, u)" by fastforce
  from find_worker_spec [OF u] have r: "r = None" by auto
  have "length capacity_text \<le> 200" by (simp add: capacity_text_def)
  from reply_sends [OF this] obtain v where "send_message_to_client 20 ERR_SERVER_FULL capacity_text u = Inr v"
    by blast
  with r u obtain c t where t: "pick_worker 20 full_server = Inr (c, t)"
    by (simp add: pick_worker_def find_worker_not_at_capacity_def)
  from full_server_refuses [OF _ _ t] t show ?thesis by simp
qed

text \<open>
  When a socket option cannot be set on a fresh connection, the round ends without closing its
  descriptor: the client is neither served nor disconnected, and nobody holds the descriptor.
\<close>

lemma keep_alive_failure_leaks:
  assumes "\<not> list_all id (take 4 opts)"
  shows "accept_round fd opts write_ok s = Inr (Main_accepting, s)"
  using assms by (simp add: accept_round_def set_socket_keep_alive_def)

section \<open>What an operation may not touch\<close>

text \<open>
  C20: Serving a client leaves alone every other client (its name, state, room and message buffer),
  every other worker, and the hand-over of new clients.
\<close>

theorem others_untouched:
  assumes "read_and_process_client_message p r s = Inr t"
  shows "(\<forall>q \<in> - {p}. client_at t q = client_at s q) \<and>
    (\<forall>w \<in> - {owner p}. worker_at t w = worker_at s w) \<and>
    efd_counter (worker_at t (owner p)) = efd_counter (worker_at s (owner p)) \<and>
    new_client (worker_at t (owner p)) = new_client (worker_at s (owner p))"
  using res_allD [OF read_own.read_keeps assms] by (simp add: only_own_def)

theorem others_untouched_witness:
  "\<exists>t. read_and_process_client_message ann (Received (frame CMD_LEAVE_ROOM ''dummy'')) (room_server []) = Inr t \<and>
    client_at t bob = client_at (room_server []) bob"
proof -
  have "CMD_LEAVE_ROOM \<in> {CMD_EXIT, CMD_ROOM_MESSAGE_SEND, CMD_LEAVE_ROOM,
      CMD_ROOM_CREATE_REQUEST, CMD_ROOM_JOIN_REQUEST, CMD_ROOM_LIST_REQUEST}" by simp
  from sample_read(2) [OF this, of "''dummy''"] obtain t where
    t: "read_and_process_client_message ann (Received (frame CMD_LEAVE_ROOM ''dummy'')) (room_server []) = Inr t"
    by auto
  with others_untouched [OF t] show ?thesis by simp
qed

text \<open>
  Serving a client follows the lock discipline: it takes a lock only while it holds none,
  releases exactly the lock it took, and returns with none held, whatever the client sent and
  whatever happens to its socket; so no thread can wait for another in a circle.
\<close>

lemma locks_balanced:
  assumes "read_and_process_client_message p r s = Inr t"
  shows "\<exists>as. trace t = trace s @ as \<and> held None as = Some None"
  using res_allD [OF read_locks.read_keeps assms] by (simp add: balanced_def lock_path_def)

lemma locks_balanced_witness:
  "\<exists>t. read_and_process_client_message ann (Received (frame CMD_EXIT ''dummy'')) (room_server []) = Inr t \<and>
    held None (trace t) = Some None"
proof -
  have "CMD_EXIT \<in> {CMD_EXIT, CMD_ROOM_MESSAGE_SEND, CMD_LEAVE_ROOM,
      CMD_ROOM_CREATE_REQUEST, CMD_ROOM_JOIN_REQUEST, CMD_ROOM_LIST_REQUEST}" by simp
  from sample_read(2) [OF this, of "''dummy''"] obtain t where
    t: "read_and_process_client_message ann (Received (frame CMD_EXIT ''dummy'')) (room_server []) = Inr t"
    by auto
  with locks_balanced [OF t] show ?thesis by auto
qed

text \<open>
  C16: In a reachable state, handling a message never faults while the room list fits its buffer:
  no index leaves its array (the room number of a client in a room, the number it asks to join) and
  no other buffer is too small, for any message in the client's buffer. (Reachable: while no client sends
  anything after an EXIT in the same chunk.)
\<close>

theorem message_never_faults:
  assumes "reachable (m, s)" and "length (room_list_text s) + 4 < MAX_MESSAGE_LEN_FROM_SERVER"
  shows "\<exists>t. route_client_command p s = Inr t"
  using route_returns [of s p] reachable_inv [OF assms(1)] reachable_names [OF assms(1)] assms(2)
  by (auto simp: sys_inv_def list_fits_def returns_iff)

theorem message_never_faults_witness: "\<exists>t. route_client_command ann greeting = Inr t"
proof -
  have "room_at greeting i = zero_room" for i by (simp add: greeting_def next_index_eq)
  then have "length (room_list_text greeting) + 4 < MAX_MESSAGE_LEN_FROM_SERVER"
    by (intro short_names_fit) simp
  from message_never_faults [OF greeting_reachable this] show ?thesis .
qed

end
