(* ===== verification/Room_Properties.thy ===== *)
theory Room_Properties
  imports Samples Hall_Replies
begin

text \<open>
  The properties of the rooms: the operations implement the hall, and every client receives
  exactly the frames it should.
\<close>

section \<open>Refinement\<close>

text \<open>
  C5: Handling a message implements the specification: seen as names, member sets and places, the
  state after \<open>route_client_command\<close> is what \<open>spec_message\<close> makes of the state before, when the
  message is acceptable, and the state before otherwise.
\<close>

theorem messages_implement_hall:
  assumes "table_inv s" and "route_client_command p s = Inr t"
  shows "hall_of t = (if acceptable (client_at s p)
    then spec_message p (current_msg (client_at s p)) (hall_of s) else hall_of s)"
  using assms(2)
proof (cases rule: route_cases)
  case rejected
  then show ?thesis by (simp add: hall_structs same_structs_sends)
next
  case accepted
  then show ?thesis by (simp add: dispatch_refines [OF assms(1)])
qed

lemma tea_members: "set (members_of (room_server msg) 3) = {ann, bob}"
  by (subst set_members) (auto simp: room_sits_iff limits)

theorem messages_implement_hall_witness:
  "\<exists>t. route_client_command ann (room_server (CMD_LEAVE_ROOM # '' bye'')) = Inr t \<and>
    h_rooms (hall_of t) 3 = Some (''tea'', {bob}) \<and> h_place (hall_of t) ann = In_lobby"
proof -
  let ?s = "room_server (CMD_LEAVE_ROOM # '' bye'')"
  obtain t where t: "route_client_command ann ?s = Inr t" using sample_routes(2) by blast
  have "acceptable (client_at ?s ann)"
    by (simp add: acceptable_def format_error_def state_error_def char_at_def char_val_def
        command_codes limits)
  moreover have "room_of ?s 3 = Some (''tea'', {ann, bob})"
    by (simp add: room_of_def tea_members) (simp add: limits)
  moreover have "{ann, bob} - {ann} = {bob}" by auto
  moreover have "place_of (client_at ?s ann) = Sits_in 3" by (simp add: place_of_def)
  moreover from calculation have h: "hall_of t = spec_leave ann In_lobby (hall_of ?s)"
    using messages_implement_hall [OF room_inv t]
    by (simp add: spec_message_def Let_def char_at_def command_codes)
  ultimately have "h_rooms (hall_of t) 3 = Some (''tea'', {bob}) \<and> h_place (hall_of t) ann = In_lobby"
    unfolding h by (simp add: spec_leave_def)
  with t show ?thesis by blast
qed

text \<open>
  C6: What the clients see is a function of the hall: when a message of \<open>p\<close> has been handled, every client
  \<open>q\<close> in use has been sent exactly the frames, in order, that \<open>told\<close> computes from the name of \<open>p\<close>, the message, and
  the rooms, members and places of the hall, for every command and every way it can be refused.
\<close>

theorem messages_answered:
  assumes "table_inv s" and "sockets_differ s" and "c_in_use (client_at s p)" and "c_in_use (client_at s q)"
    and "route_client_command p s = Inr t"
  shows "\<exists>new. sent_frames (trace t) = sent_frames (trace s) @ new \<and>
    frames_to (client_fd (client_at s q)) new =
      told (cname (client_at s p)) p (current_msg (client_at s p)) (hall_of s) q"
  using route_tells [OF assms(1,2,3,5)] assms(4) unfolding tells_def frames_added_def by blast

theorem messages_answered_witness:
  "\<exists>t new. route_client_command ann (room_server (CMD_ROOM_MESSAGE_SEND # '' hi'')) = Inr t \<and>
    sent_frames (trace t) = new \<and> frames_to 21 new = [frame CMD_ROOM_MSG ''ann: hi'']"
proof -
  let ?s = "room_server (CMD_ROOM_MESSAGE_SEND # '' hi'')"
  obtain t where t: "route_client_command ann ?s = Inr t" using sample_routes(2) by blast
  have "sockets_differ ?s" by (auto simp: sockets_differ_def split: if_splits)
  moreover have "told ''ann'' ann (CMD_ROOM_MESSAGE_SEND # '' hi'') (hall_of ?s) bob = [frame CMD_ROOM_MSG ''ann: hi'']"
    by (simp add: told_def format_error_def state_error_def char_at_def char_val_def command_codes limits
        told_accepted_def place_of_def for_room_def room_of_def tea_members [unfolded char_at_def])
  ultimately show ?thesis
    using messages_answered [OF room_inv _ _ _ t, of bob] t by simp
qed

text \<open>
  The state of a client follows the state machine of the protocol: a message other than EXIT
  leaves it or moves it from nameless to the lobby, from the lobby to a room, or back to the lobby;
  so a client that has a name never becomes nameless again but by leaving the server.
\<close>

lemma state_machine:
  assumes "table_inv s" and "route_client_command p s = Inr t"
    and "char_at (current_msg (client_at s p)) 0 \<noteq> CMD_EXIT"
  shows "(cstate (client_at s p), cstate (client_at t p)) \<in> Id \<union>
      {(AWAITING_USERNAME, IN_CHAT_LOBBY), (IN_CHAT_LOBBY, IN_CHAT_ROOM), (IN_CHAT_ROOM, IN_CHAT_LOBBY)} \<and>
    min (cstate (client_at s p)) IN_CHAT_LOBBY \<le> cstate (client_at t p)"
proof -
  have "(cstate (client_at s p), cstate (client_at t p)) \<in> Id \<union> moves"
  proof (cases "acceptable (client_at s p)")
    case True
    with assms(2) have "dispatch p s = Inr t" by (auto elim: route_cases)
    from dispatch_refines [OF assms(1) True this] have
      "h_place (hall_of t) p = h_place (spec_message p (current_msg (client_at s p)) (hall_of s)) p" by simp
    with spec_message_moves [OF assms(3), of "hall_of s" p] show ?thesis by (simp flip: state_of_place)
  next
    case False
    with assms(2) have "only_sends s t" by (auto elim: route_cases)
    then show ?thesis by (simp add: only_sends_state)
  qed
  then show ?thesis
    by (auto simp: moves_def min_def less_eq_client_state_def)
qed

lemma state_machine_witness:
  "\<exists>t. route_client_command ann (room_server (CMD_LEAVE_ROOM # '' bye'')) = Inr t \<and>
    IN_CHAT_LOBBY \<le> cstate (client_at t ann)"
proof -
  obtain t where t: "route_client_command ann (room_server (CMD_LEAVE_ROOM # '' bye'')) = Inr t"
    using sample_routes(2) by blast
  from state_machine [OF room_inv t] t show ?thesis
    by (simp add: char_at_def command_codes min_def less_eq_client_state_def)
qed

section \<open>What clients are told\<close>

text \<open>
  A chat client that parses the frames the server sends it, one by one, knows whether it is in
  a room: if its flag agreed with the state of its slot before a chunk of its bytes was processed,
  it agrees afterwards, whatever was in the chunk, short of an EXIT.
\<close>

lemma client_knows_its_room:
  assumes "no_exit (current_msg (client_at s p)) temp" and "process_messages p temp s = Inr t"
    and "is_in_room a = (cstate (client_at s p) = IN_CHAT_ROOM)"
  shows "\<exists>new. sent_frames (trace t) = sent_frames (trace s) @ new \<and>
    is_in_room (foldl (\<lambda>a f. parse_server_msg f a) a (frames_to (client_fd (client_at s p)) new)) =
      (cstate (client_at t p) = IN_CHAT_ROOM)"
proof -
  have fold: "is_in_room (foldl (\<lambda>a f. parse_server_msg f a) b fs) = view fs (is_in_room b)" for b fs
    by (induction fs arbitrary: b) (simp_all add: parse_in_room)
  from process_follows [OF assms(1,2)] assms(3) show ?thesis
    by (auto simp: follows_def in_room_def fold)
qed

lemma client_knows_its_room_witness:
  "\<exists>t new. process_messages ann (frame CMD_LEAVE_ROOM ''dummy'') (room_server []) = Inr t \<and>
    sent_frames (trace t) = new \<and>
    is_in_room (foldl (\<lambda>a f. parse_server_msg f a) (idle_app True) (frames_to 20 new)) =
      (cstate (client_at t ann) = IN_CHAT_ROOM)"
proof -
  have "CMD_LEAVE_ROOM \<in> {CMD_EXIT, CMD_ROOM_MESSAGE_SEND, CMD_LEAVE_ROOM,
      CMD_ROOM_CREATE_REQUEST, CMD_ROOM_JOIN_REQUEST, CMD_ROOM_LIST_REQUEST}" by simp
  from sample_read(2) [OF this, of "''dummy''"] obtain t where
    "read_and_process_client_message ann (Received (frame CMD_LEAVE_ROOM ''dummy'')) (room_server []) = Inr t"
    by auto
  moreover have "cstr (take MAX_MESSAGE_LEN_TO_SERVER (frame CMD_LEAVE_ROOM ''dummy'')) =
      frame CMD_LEAVE_ROOM ''dummy''"
    by (rule whole_frame) (simp_all add: limits command_codes)
  ultimately have t: "process_messages ann (frame CMD_LEAVE_ROOM ''dummy'') (room_server []) = Inr t"
    by (simp add: read_and_process_client_message_def)
  have "no_exit (current_msg (client_at (room_server []) ann)) (frame CMD_LEAVE_ROOM ''dummy'')"
    using split_frame [of "''dummy''" CMD_LEAVE_ROOM "[]"]
    by (simp add: no_exit.simps [of _ "frame _ _"] no_exit.simps [of _ "[]"] is_exit_def
        command_codes char_at_def)
  from client_knows_its_room [OF this t, of "idle_app True"] t show ?thesis
    by (auto simp: idle_app_def)
qed

text \<open>
  A chat message reaches exactly the other members of the sender's room, once each, in the order
  of their places, with the sender's name in front; the sender gets nothing.
\<close>

lemma chat_reaches_members:
  assumes "table_inv s" and "cstate (client_at s p) = IN_CHAT_ROOM"
    and "acceptable (client_at s p)" and "char_at (current_msg (client_at s p)) 0 = CMD_ROOM_MESSAGE_SEND"
    and "route_client_command p s = Inr t"
  shows "sent_frames (trace t) = sent_frames (trace s) @
    map (\<lambda>q. (client_fd (client_at s q),
        frame CMD_ROOM_MSG (cname (client_at s p) @ '': '' @ drop 2 (current_msg (client_at s p)))))
      (filter (\<lambda>q. q \<noteq> p) (members_of s (nat (room_index (client_at s p)))))"
proof -
  from assms(5) assms(3) have "dispatch p s = Inr t" by (auto elim: route_cases)
  with assms(2,4) have "handle_in_chat_room p s = Inr t"
    by (simp add: dispatch_def command_codes)
  with assms(4) obtain u where
    "broadcast_message_in_room (cname (client_at s p) @ '': '' @ drop 2 (current_msg (client_at s p)))
      (nat (room_index (client_at s p))) p
      (emit (Lock (Room_lock (nat (room_index (client_at s p))))) s) = Inr u"
    "t = emit (Unlock (Room_lock (nat (room_index (client_at s p))))) u"
    by (auto simp: handle_in_chat_room_def Let_def res_bind_eq_Inr c_store_eq_Inr split: if_splits)
  with added_broadcast show ?thesis
    by (fastforce simp: frames_added_def broadcast_frames_def members_of_def)
qed

lemma chat_reaches_members_witness:
  "\<exists>t. route_client_command ann (room_server (CMD_ROOM_MESSAGE_SEND # '' hi'')) = Inr t \<and>
    sent_frames (trace t) = [(21, frame CMD_ROOM_MSG ''ann: hi'')]"
proof -
  let ?s = "room_server (CMD_ROOM_MESSAGE_SEND # '' hi'')"
  obtain t where t: "route_client_command ann ?s = Inr t" using sample_routes(2) by blast
  have "acceptable (client_at ?s ann)"
    by (simp add: acceptable_def format_error_def state_error_def char_at_def char_val_def
        command_codes limits)
  moreover have "members_of ?s 3 = [ann, bob]"
  proof -
    have "List.map_filter (r_clients tea_room) [2..<n] = []" for n
      by (simp add: List.map_filter_def)
    moreover have "[0..<MAX_CLIENTS_ROOM] = 0 # 1 # [2..<MAX_CLIENTS_ROOM]"
      by (simp add: limits upt_conv_Cons numeral_2_eq_2)
    ultimately show ?thesis by (simp add: members_of_def List.map_filter_simps)
  qed
  ultimately show ?thesis
    using chat_reaches_members [OF room_inv _ _ _ t] t by (simp add: char_at_def)
qed

text \<open>
  \<open>create_chat_room\<close> answers its client, and nobody else, on each of its branches: the name is
  too long, no room is free, or the room is created.
\<close>

lemma create_answers:
  assumes "create_chat_room p s = Inr t"
  shows "sent_frames (trace t) = sent_frames (trace s) @
    [(client_fd (client_at s p),
      if MAX_ROOM_NAME_LEN < length (drop 2 (current_msg (client_at s p))) then
        frame ERR_ROOM_NAME_INVALID name_invalid_text
      else if \<forall>i \<in> {..<MAX_ROOMS}. r_in_use (room_at s i) then
        frame ERR_ROOM_CAPACITY_FULL rooms_full_text
      else frame CMD_ROOM_CREATE_OK
        (created_prefix @ drop 2 (current_msg (client_at s p)) @ [LF]))]"
  using create_frames [OF assms] by (simp add: frames_added_def Ball_def)

lemma create_answers_witness:
  "\<exists>t. create_chat_room ann (lobby_server (CMD_ROOM_CREATE_REQUEST # '' tea'')) = Inr t \<and>
    sent_frames (trace t) = [(20, frame CMD_ROOM_CREATE_OK (''Room created successfully: tea'' @ [LF]))]"
proof -
  have "length (drop 2 (current_msg (client_at (lobby_server (CMD_ROOM_CREATE_REQUEST # '' tea'')) ann)))
      \<le> MAX_CONTENT_LEN" by (simp add: limits)
  from create_returns [OF this] obtain t where
    t: "create_chat_room ann (lobby_server (CMD_ROOM_CREATE_REQUEST # '' tea'')) = Inr t"
    by (auto simp: returns_iff)
  have "\<exists>i. i < MAX_ROOMS" by (intro exI [of _ 0]) simp
  with create_answers [OF t] t show ?thesis by (simp add: created_prefix_def) (simp add: limits)
qed

text \<open>
  \<open>join_chat_room\<close> answers on each of its branches (no room number, no such room, the room is
  full, joined), and when the client joins, the members that were there before it, and only they,
  get the notice, before the client gets its confirmation.
\<close>

lemma join_answers:
  assumes "rooms_ok s" and "join_chat_room p s = Inr t"
  shows "sent_frames (trace t) = sent_frames (trace s) @ join_replies p s"
  using join_frames [OF assms] by (simp add: frames_added_def)

lemma join_answers_witness:
  "\<exists>t. join_chat_room ann (lobby_server (CMD_ROOM_JOIN_REQUEST # '' 51'')) = Inr t \<and>
    sent_frames (trace t) = [(20, frame ERR_ROOM_NOT_FOUND bad_number_text)]"
proof -
  let ?s = "lobby_server (CMD_ROOM_JOIN_REQUEST # '' 51'')"
  have "returns (join_chat_room ann ?s)" by (rule join_returns) (simp add: limits)
  then obtain t where t: "join_chat_room ann ?s = Inr t" by (auto simp: returns_iff)
  have "rooms_ok ?s" using lobby_inv by (simp add: table_inv_def)
  moreover have "parse_room_number (CMD_ROOM_JOIN_REQUEST # '' 51'') = 51"
    by (simp add: parse_room_number_def char_at_def c_isdigit_def c_atoi_def c_isspace_def
        digit_val_def Let_def)
  ultimately show ?thesis
    using join_answers [OF _ t] t by (simp add: join_replies_def Let_def limits)
qed

text \<open>
  Leaving a room tells the members that stay, and only them, and it is told under the name the
  client had.
\<close>

lemma leave_notifies:
  assumes "table_inv s" and "sits s i k p" and "leave_room p (int i) s = Inr t"
  shows "sent_frames (trace t) = sent_frames (trace s) @
    map (\<lambda>q. (client_fd (client_at s q), frame CMD_ROOM_MSG (cname (client_at s p) @ left_suffix)))
      (filter (\<lambda>q. q \<noteq> p) (members_of s i))"
  using leave_frames [OF assms(3)] by (simp add: frames_added_def broadcast_frames_def)

lemma leave_notifies_witness:
  "\<exists>t. leave_room bob 3 (room_server []) = Inr t \<and>
    (20, frame CMD_ROOM_MSG (''bob left the room'' @ [LF])) \<in> set (sent_frames (trace t))"
proof -
  have "returns (leave_room bob (int 3) (room_server []))" by (rule leave_returns) (simp_all add: limits)
  then obtain t where t: "leave_room bob (int 3) (room_server []) = Inr t" by (auto simp: returns_iff)
  have s: "sits (room_server []) 3 1 bob" by (simp add: room_sits_iff)
  have "ann \<in> set (members_of (room_server []) 3)" by (simp add: tea_members)
  with leave_notifies [OF room_inv s t] t show ?thesis by (simp add: left_suffix_def)
qed

end
