(* ===== verification/Send_Stream.thy ===== *)
theory Send_Stream
  imports Transport "HOL-Library.Stream"
begin

text \<open>
  The send loop against a socket that is never known to recover: the answers of \<open>send\<close> are an infinite
  stream, and the loop may run for ever. It shows when the finite scripts of \<open>Transport\<close> are the whole
  story. The second part puts two threads on one socket.
\<close>

section \<open>The loop on a stream of answers\<close>

text \<open>\<open>None\<close> is a loop that does not end.\<close>

partial_function (option) send_stream :: "send_reply stream \<Rightarrow> nat \<Rightarrow> nat \<Rightarrow> (nat \<times> send_reply stream) option" where
  "send_stream ks sent len =
     (if sent < len then
        (case shd ks of
           Send_failed \<Rightarrow> Some (sent, stl ks)
         | Would_block \<Rightarrow> send_stream (stl ks) sent len
         | Accepted k \<Rightarrow> send_stream (stl ks) (sent + min k (len - sent)) len)
      else Some (sent, ks))"

declare send_stream.simps [code]

text \<open>What a prefix of the answers takes, and whether it decides the loop.\<close>

fun taken :: "send_reply list \<Rightarrow> nat" where
  "taken [] = 0"
| "taken (Accepted k # rs) = k + taken rs"
| "taken (r # rs) = taken rs"

definition decides :: "nat \<Rightarrow> send_reply list \<Rightarrow> bool" where
  "decides len rs \<longleftrightarrow> Send_failed \<in> set rs \<or> len \<le> taken rs"

lemma stream_stop: "\<not> sent < len \<Longrightarrow> send_stream ks sent len = Some (sent, ks)"
  by (subst send_stream.simps) simp

lemma stream_round [simp]:
  "sent < len \<Longrightarrow> send_stream (Send_failed ## ks) sent len = Some (sent, ks)"
  "sent < len \<Longrightarrow> send_stream (Would_block ## ks) sent len = send_stream ks sent len"
  "sent < len \<Longrightarrow> send_stream (Accepted k ## ks) sent len = send_stream ks (sent + min k (len - sent)) len"
  by (subst send_stream.simps, simp)+

text \<open>A prefix that decides ends the loop.\<close>

lemma decided_ends:
  "decides (len - sent) rs \<Longrightarrow> sent \<le> len \<Longrightarrow> \<exists>y. send_stream (rs @- ks) sent len = Some y"
proof (induction rs arbitrary: sent)
  case Nil
  then show ?case by (simp add: decides_def stream_stop)
next
  case (Cons r rs)
  show ?case
  proof (cases "sent < len")
    case False
    then show ?thesis by (simp add: stream_stop)
  next
    case True
    show ?thesis
    proof (cases r)
      case (Accepted k)
      have "decides (len - (sent + min k (len - sent))) rs"
        using Cons.prems(1) Accepted by (auto simp: decides_def)
      with Cons.IH [OF this] True Accepted show ?thesis by simp
    next
      case Would_block
      with Cons.prems Cons.IH True show ?thesis by (simp add: decides_def)
    next
      case Send_failed
      with True show ?thesis by simp
    qed
  qed
qed

text \<open>A loop that ends has used a finite script, and \<open>send_loop\<close> on this script gives the same.\<close>

definition scripted :: "send_reply stream \<Rightarrow> nat \<Rightarrow> nat \<Rightarrow> nat \<times> send_reply stream \<Rightarrow> bool" where
  "scripted ks sent len y \<longleftrightarrow> (sent \<le> len \<longrightarrow>
     (\<exists>rs. ks = rs @- snd y \<and> send_loop rs sent len = (fst y, []) \<and> decides (len - sent) rs))"

lemma scriptedI:
  "(sent \<le> len \<Longrightarrow> ks = rs @- snd y \<and> send_loop rs sent len = (fst y, []) \<and> decides (len - sent) rs) \<Longrightarrow>
     scripted ks sent len y"
  unfolding scripted_def by blast

lemma stream_script: "send_stream ks sent len = Some y \<Longrightarrow> scripted ks sent len y"
proof (rule send_stream.raw_induct [of scripted])
  fix loop ks sent len y
  assume IH: "\<And>ks sent len y. loop ks sent len = Some y \<Longrightarrow> scripted ks sent len y"
    and body: "(if sent < len then
        (case shd ks of
           Accepted k \<Rightarrow> loop (stl ks) (sent + min k (len - sent)) len
         | Would_block \<Rightarrow> loop (stl ks) sent len
         | Send_failed \<Rightarrow> Some (sent, stl ks))
      else Some (sent, ks)) = Some y"
  obtain r ks1 where ks: "ks = r ## ks1" by (cases ks)
  show "scripted ks sent len y"
  proof (cases "sent < len")
    case False
    with body show ?thesis by (intro scriptedI [where rs = "[]"]) (auto simp: decides_def)
  next
    case True
    show ?thesis
    proof (cases r)
      case (Accepted k)
      with body True ks have "loop ks1 (sent + min k (len - sent)) len = Some y" by simp
      from IH [OF this] True obtain rs where
        "ks1 = rs @- snd y" "send_loop rs (sent + min k (len - sent)) len = (fst y, [])"
        "decides (len - (sent + min k (len - sent))) rs" by (auto simp: scripted_def)
      with True Accepted ks show ?thesis
        by (intro scriptedI [where rs = "r # rs"]) (auto simp: decides_def)
    next
      case Would_block
      with body True ks have "loop ks1 sent len = Some y" by simp
      from IH [OF this] True obtain rs where
        "ks1 = rs @- snd y" "send_loop rs sent len = (fst y, [])" "decides (len - sent) rs"
        by (auto simp: scripted_def)
      with True Would_block ks show ?thesis
        by (intro scriptedI [where rs = "r # rs"]) (auto simp: decides_def)
    next
      case Send_failed
      with body True ks show ?thesis
        by (intro scriptedI [where rs = "[r]"]) (auto simp: decides_def)
    qed
  qed
qed

lemma ended_script:
  "send_stream ks sent len = Some (n, ks') \<Longrightarrow> sent \<le> len \<Longrightarrow>
     \<exists>rs. ks = rs @- ks' \<and> send_loop rs sent len = (n, []) \<and> decides (len - sent) rs"
  using stream_script [of ks sent len "(n, ks')"] by (simp add: scripted_def)

text \<open>A socket that takes nothing: the loop does not end.\<close>

lemma taken_stuck: "\<forall>r \<in> set rs. r = Would_block \<or> r = Accepted 0 \<Longrightarrow> taken rs = 0"
  by (induction rs rule: taken.induct) auto

lemma stuck_socket:
  assumes "\<And>r. r \<in> sset ks \<Longrightarrow> r = Would_block \<or> r = Accepted 0" and "0 < len"
  shows "send_stream ks 0 len = None"
proof (rule ccontr)
  assume "send_stream ks 0 len \<noteq> None"
  then obtain n ks' where "send_stream ks 0 len = Some (n, ks')" by auto
  from ended_script [OF this] obtain rs where rs: "ks = rs @- ks'" "decides len rs" by auto
  then have "\<forall>r \<in> set rs. r = Would_block \<or> r = Accepted 0" using assms(1) by simp
  then show False using rs(2) taken_stuck [of rs] assms(2) by (auto simp: decides_def)
qed

section \<open>Two threads that send to one socket\<close>

text \<open>
  A worker answers its client without a lock on the socket; another worker can be broadcasting to the same
  client. Each thread runs the loop on its own buffer; the state is how much of each the kernel
  has taken, and what has gone into the socket.
\<close>

inductive senders :: "string \<Rightarrow> string \<Rightarrow> nat \<times> nat \<times> string \<Rightarrow> nat \<times> nat \<times> string \<Rightarrow> bool" for a b where
  first_sends: "i < length a \<Longrightarrow> k \<le> length a - i \<Longrightarrow>
    senders a b (i, j, out) (i + k, j, out @ take k (drop i a))"
| second_sends: "j < length b \<Longrightarrow> k \<le> length b - j \<Longrightarrow>
    senders a b (i, j, out) (i, j + k, out @ take k (drop j b))"

text \<open>Neither loses bytes or their order: what goes out is a shuffle of the two prefixes.\<close>

lemma shuffle_right: "xs \<in> shuffles ys zs \<Longrightarrow> xs @ us \<in> shuffles (ys @ us) zs"
proof (induction ys zs arbitrary: xs rule: shuffles.induct)
  case (2 ys)
  then show ?case by simp
next
  case (1 zs)
  then show ?case by (induction zs arbitrary: xs) (auto simp: Cons_in_shuffles_leftI Cons_in_shuffles_rightI)
next
  case (3 x ys y zs)
  then show ?case by (auto simp: image_iff)
qed

lemma senders_shuffle:
  "senders a b (i, j, out) (i', j', out') \<Longrightarrow> out \<in> shuffles (take i a) (take j b) \<Longrightarrow>
     out' \<in> shuffles (take i' a) (take j' b)"
proof (induction rule: senders.cases)
  case (first_sends i k j out)
  then show ?case using shuffle_right by (simp add: take_add)
next
  case (second_sends j k i out)
  then have "out \<in> shuffles (take j b) (take i a)" by (simp add: shuffles_commutes)
  from shuffle_right [OF this, of "take k (drop j b)"] second_sends show ?case
    by (simp add: take_add shuffles_commutes [of _ "take i a"])
qed

text \<open>One thread's message lands inside the other's when the kernel takes only a part of it.\<close>

lemma senders_mix:
  assumes "0 < length b" and "k < length a"
  shows "(senders a b)\<^sup>*\<^sup>* (0, 0, []) (length a, length b, take k a @ b @ drop k a)"
proof -
  have "senders a b (0, 0, []) (k, 0, take k a)"
    using first_sends [of 0 a k b 0 "[]"] assms(2) by (simp add: less_imp_le) (metis less_nat_zero_code list.size(3))
  moreover have "senders a b (k, 0, take k a) (k, length b, take k a @ b)"
    using second_sends [of 0 b "length b" a k "take k a"] assms by simp
  moreover have "senders a b (k, length b, take k a @ b) (length a, length b, (take k a @ b) @ drop k a)"
    using first_sends [of k a "length a - k" b "length b" "take k a @ b"] assms by simp
  ultimately have "(senders a b)\<^sup>*\<^sup>* (0, 0, []) (length a, length b, (take k a @ b) @ drop k a)"
    by (meson converse_rtranclp_into_rtranclp rtranclp.rtrancl_refl)
  then show ?thesis by simp
qed

end
