(* ===== verification/Ghost_Member.thy ===== *)
theory Ghost_Member
  imports System_Safety Room_Spec Framing
begin

text \<open>
  What becomes of the messages that follow an EXIT in the same chunk. The loop goes on with the slot
  that \<open>cleanup_client\<close> has zeroed, which is that of a client without a name: a SUBMIT and a CREATE
  are obeyed, and the room that is opened has a member that no thread looks at any more.
\<close>

section \<open>A message in an empty buffer\<close>

lemma accepted_frame:
  assumes c: "is_command code" "code \<noteq> CMD_EXIT" and w: "is_word content" "length content \<le> MAX_CONTENT_LEN"
    and st: "state_error (cstate (client_at s p)) code = None"
    and buf: "current_msg (client_at s p) = []"
    and ok: "table_inv s" "names_ok s" "list_fits s"
  obtains v where "dispatch p (upd_client p (\<lambda>c. c\<lparr>current_msg := code # SPACE # content\<rparr>) s) = Inr v"
    "process_messages p (frame code content @ rest) s = process_messages p rest (clear_msg p v)"
    "hall_of (clear_msg p v) = spec_message p (code # SPACE # content) (hall_of s)"
    "ids_kept s (clear_msg p v)"
proof -
  let ?u = "upd_client p (\<lambda>c. c\<lparr>current_msg := code # SPACE # content\<rparr>) s"
  have acc: "acceptable (client_at ?u p)"
    using format_ok [OF c(1) w(2) word_not_blank(1) [OF w(1)]] st by (simp add: acceptable_def char_at_def)
  have u: "table_inv ?u" "names_ok ?u" "list_fits ?u"
    using ok list_fits_state [of ?u s] by (simp_all add: names_ok_def)
  from route_returns [OF u] obtain v where v: "route_client_command p ?u = Inr v"
    by (auto simp: returns_iff)
  with acc have d: "dispatch p ?u = Inr v" by (auto elim: route_cases)
  have code: "code \<noteq> LF" using c(1) by (auto simp: is_command_def command_codes)
  have step: "process_messages p (frame code content @ rest) s = process_messages p rest (clear_msg p v)"
    using process_frame [OF buf word_not_blank(2) [OF w(1)] code w(2)] v by simp
  have hall: "hall_of (clear_msg p v) = spec_message p (code # SPACE # content) (hall_of s)"
  proof -
    have "hall_of (clear_msg p v) = hall_of v"
      unfolding clear_msg_def by (rule hall_cong) (simp_all add: place_of_def split: client_state.split)
    moreover have "hall_of ?u = hall_of s"
      by (rule hall_cong) (simp_all add: place_of_def split: client_state.split)
    ultimately show ?thesis using dispatch_refines [OF u(1) acc d] by simp
  qed
  have "ids_kept s (clear_msg p v)"
  proof -
    have "ids_kept ?u v" by (rule dispatch_ids [OF d]) (simp add: char_at_def c(2))
    then show ?thesis by (simp add: ids_kept_def clear_msg_def)
  qed
  with d step hall show thesis by (rule that)
qed

section \<open>The slot after an EXIT\<close>

definition vacated :: "cptr \<Rightarrow> server \<Rightarrow> server" where
  "vacated p s = clear_msg p (cleanup_client p
     (upd_client p (\<lambda>c. c\<lparr>current_msg := CMD_EXIT # SPACE # ''dummy''\<rparr>) s))"

lemma vacated_fields:
  "current_msg (client_at (vacated p s) p) = []" "cstate (client_at (vacated p s) p) = AWAITING_USERNAME"
  "\<not> c_in_use (client_at (vacated p s) p)" "room_at (vacated p s) i = room_at s i"
  "num_of_clients (worker_at (vacated p s) (owner p)) = num_of_clients (worker_at s (owner p)) - 1"
  by (simp_all add: vacated_def cleanup_fields cleanup_structs_rooms clear_msg_def)

lemma vacated_ok:
  assumes "table_inv s" "names_ok s" "list_fits s" and out: "cstate (client_at s p) \<noteq> IN_CHAT_ROOM"
  shows "table_inv (vacated p s)" "names_ok (vacated p s)" "list_fits (vacated p s)"
proof -
  let ?u = "upd_client p (\<lambda>c. c\<lparr>current_msg := CMD_EXIT # SPACE # ''dummy''\<rparr>) s"
  have "table_inv (upd_client p (\<lambda>_. zero_client) ?u)"
    using assms(1) out by (auto simp: table_inv_def upd_client_upd_client intro: linked_upd_client)
  then show "table_inv (vacated p s)" by (simp add: vacated_def clear_msg_def cleanup_inv)
  show "names_ok (vacated p s)"
    using assms(2) by (simp add: vacated_def clear_msg_def cleanup_unfold names_ok_def)
  show "list_fits (vacated p s)"
    using assms(3) list_fits_state [OF vacated_fields(4)] by simp
qed

section \<open>A member that is not there\<close>

lemma submit_ok:
  assumes d: "dispatch p (upd_client p (\<lambda>c. c\<lparr>current_msg := m\<rparr>) s) = Inr v"
    and st: "cstate (client_at s p) = AWAITING_USERNAME" and m: "char_at m 0 \<noteq> CMD_EXIT"
    and ok: "table_inv s" "names_ok s" "list_fits s"
  shows "table_inv (clear_msg p v)" "names_ok (clear_msg p v)" "list_fits (clear_msg p v)"
proof -
  let ?u = "upd_client p (\<lambda>c. c\<lparr>current_msg := m\<rparr>) s"
  from d st m have h: "handle_awaiting_username p ?u = Inr v" by (simp add: dispatch_def)
  let ?n = "upd_client p (\<lambda>c. c\<lparr>cname := drop 2 m, cstate := IN_CHAT_LOBBY\<rparr>) ?u"
  have "table_inv ?n"
    using ok(1) st by (auto simp: table_inv_def upd_client_upd_client intro: linked_upd_client)
  with awaiting_structs [OF h] ok(1) have "table_inv v"
    by (auto simp: table_inv_structs)
  then show "table_inv (clear_msg p v)" by (simp add: clear_msg_def)
  have "names_ok v"
    using res_allD [OF dispatch_names d] ok(2) by (simp add: names_kept_def names_ok_def)
  then show "names_ok (clear_msg p v)" by (simp add: clear_msg_def names_ok_def)
  have "room_at v i = room_at s i" for i
    using awaiting_structs [OF h] by (auto simp: same_structs_state)
  then have "room_at (clear_msg p v) i = room_at s i" for i by (simp add: clear_msg_def)
  with ok(3) show "list_fits (clear_msg p v)" using list_fits_state by metis
qed

lemma ghost_member:
  assumes ok: "table_inv s" "names_ok s" "list_fits s"
    and out: "cstate (client_at s p) \<noteq> IN_CHAT_ROOM" and buf: "current_msg (client_at s p) = []"
    and n: "is_word n" "length n \<le> MAX_USERNAME_LEN" and r: "is_word r" "length r \<le> MAX_ROOM_NAME_LEN"
    and free: "free_number (hall_of s) = Some i"
  shows "\<exists>t. process_messages p (frame CMD_EXIT ''dummy'' @ frame CMD_USERNAME_SUBMIT n @
        frame CMD_ROOM_CREATE_REQUEST r) s = Inr t \<and>
    h_rooms (hall_of t) i = Some (r, {p}) \<and> \<not> c_in_use (client_at t p) \<and> \<not> table_inv t \<and>
    num_of_clients (worker_at t (owner p)) = num_of_clients (worker_at s (owner p)) - 1"
proof -
  let ?a = "vacated p s"
  have cmds: "is_command CMD_USERNAME_SUBMIT" "is_command CMD_ROOM_CREATE_REQUEST"
    "CMD_USERNAME_SUBMIT \<noteq> CMD_EXIT" "CMD_ROOM_CREATE_REQUEST \<noteq> CMD_EXIT"
    by (simp_all add: is_command_def command_codes)
  have len: "length n \<le> MAX_CONTENT_LEN" "length r \<le> MAX_CONTENT_LEN"
    using n(2) r(2) by (simp_all add: limits)
  have a: "table_inv ?a" "names_ok ?a" "list_fits ?a" by (rule vacated_ok [OF ok out])+
  have ha: "hall_of ?a = (hall_of s)\<lparr>h_place := (h_place (hall_of s))(p := Unnamed)\<rparr>"
  proof (rule hall_eqI)
    show "h_rooms (hall_of ?a) = h_rooms ((hall_of s)\<lparr>h_place := (h_place (hall_of s))(p := Unnamed)\<rparr>)"
      using room_of_cong [OF vacated_fields(4)] by simp
    have "place_of (client_at ?a q) = (if q = p then Unnamed else place_of (client_at s q))" for q
    proof (cases "q = p")
      case True
      then show ?thesis by (simp add: place_of_def vacated_fields(2))
    next
      case False
      then show ?thesis by (simp add: vacated_def clear_msg_def cleanup_unfold)
    qed
    then show "h_place (hall_of ?a) = h_place ((hall_of s)\<lparr>h_place := (h_place (hall_of s))(p := Unnamed)\<rparr>)"
      by (simp add: fun_eq_iff)
  qed
  obtain v where v: "dispatch p (upd_client p (\<lambda>c. c\<lparr>current_msg := CMD_USERNAME_SUBMIT # SPACE # n\<rparr>) ?a) = Inr v"
    "process_messages p (frame CMD_USERNAME_SUBMIT n @ frame CMD_ROOM_CREATE_REQUEST r) ?a =
      process_messages p (frame CMD_ROOM_CREATE_REQUEST r) (clear_msg p v)"
    "hall_of (clear_msg p v) = spec_message p (CMD_USERNAME_SUBMIT # SPACE # n) (hall_of ?a)"
    "ids_kept ?a (clear_msg p v)"
    by (rule accepted_frame [OF cmds(1,3) n(1) len(1) _ vacated_fields(1) a])
      (simp add: vacated_fields(2) state_error_def)
  let ?b = "clear_msg p v"
  have hb: "hall_of ?b = (hall_of s)\<lparr>h_place := (h_place (hall_of s))(p := In_lobby)\<rparr>"
    unfolding v(3) ha using n(2)
    by (simp add: spec_message_def Let_def char_at_def command_codes)
  have b: "table_inv ?b" "names_ok ?b" "list_fits ?b"
    by (rule submit_ok [OF v(1) vacated_fields(2) _ a], simp add: char_at_def command_codes)+
  have "place_of (client_at ?b p) = In_lobby" using hb by (simp flip: hall_simps(2))
  then have "cstate (client_at ?b p) = IN_CHAT_LOBBY" by (simp flip: state_of_place)
  then have lobby: "cstate (client_at v p) = IN_CHAT_LOBBY" by simp
  obtain w where w: "process_messages p (frame CMD_ROOM_CREATE_REQUEST r @ []) ?b = process_messages p [] (clear_msg p w)"
    "hall_of (clear_msg p w) = spec_message p (CMD_ROOM_CREATE_REQUEST # SPACE # r) (hall_of ?b)"
    "ids_kept ?b (clear_msg p w)"
    by (rule accepted_frame [OF cmds(2,4) r(1) len(2) _ _ b, of p "[]"])
      (simp_all add: lobby state_error_def command_codes)
  let ?t = "clear_msg p w"
  have room: "h_rooms (hall_of ?t) i = Some (r, {p})"
  proof -
    have "free_number (hall_of ?b) = Some i" using free by (simp add: hb free_number_def)
    then show ?thesis
      unfolding w(2) using r(2) hb
      by (simp add: spec_message_def spec_create_def Let_def char_at_def command_codes)
  qed
  have ids: "ids_kept ?a ?t" using v(4) w(3) by (rule ids.keep_trans)
  then have gone: "\<not> c_in_use (client_at ?t p)" and
    count: "num_of_clients (worker_at ?t (owner p)) = num_of_clients (worker_at s (owner p)) - 1"
    using vacated_fields [of p s] by (simp_all add: ids_kept_def)
  have "\<not> table_inv ?t"
  proof
    assume "table_inv ?t"
    then have l: "linked ?t" by (simp add: table_inv_def)
    from room have i: "i < MAX_ROOMS" "p \<in> set (members_of ?t i)"
      by (auto simp: room_of_def split: if_splits)
    then obtain k where "sits ?t i k p" using set_members [OF i(1)] by auto
    with l gone show False by (auto simp: linked_def)
  qed
  moreover have "process_messages p (frame CMD_EXIT ''dummy'' @ frame CMD_USERNAME_SUBMIT n @
        frame CMD_ROOM_CREATE_REQUEST r) s = Inr ?t"
    using process_exit [OF buf out] v(2) w(1) by (simp add: vacated_def process_nothing)
  ultimately show ?thesis using room gone count by blast
qed

end
