(* ===== verification/Message_Properties.thy ===== *)
theory Message_Properties
  imports Samples Send_Stream Ghost_Member
begin

text \<open>
  The properties of messages on their way into and out of the server: framing, validation, the
  limits of the buffers, and sending.
\<close>

section \<open>Framing\<close>

text \<open>
  C21: How TCP cuts the stream does not matter: however the frames of a list of requests are cut into chunks
  that \<open>recv\<close> can deliver, reading the chunks one after the other handles exactly these requests, whole and
  in their order, and has the same outcome, fault included, unless a cut separates the CR from the LF
  of a terminator.
\<close>

theorem requests_survive_cutting:
  assumes "concat chunks = frames_of requests" and "list_all sendable requests" and "uncut chunks"
    and "current_msg (client_at s p) = []"
  shows "read_chunks p chunks s = serve p requests s"
proof -
  have "NUL \<notin> set (concat chunks)" unfolding assms(1) by (rule frames_no_nul [OF assms(2)])
  from read_chunks_concat [OF assms(3) this, of p s] show ?thesis
    unfolding assms(1) process_requests [OF assms(2,4)] .
qed

theorem requests_survive_cutting_witness:
  "read_chunks ann [CMD_LEAVE_ROOM # '' dum'', ''my'' @ [CR, LF, CMD_ROOM_LIST_REQUEST], '' dummy'' @ [CR, LF]] (room_server []) =
    serve ann [(CMD_LEAVE_ROOM, ''dummy''), (CMD_ROOM_LIST_REQUEST, ''dummy'')] (room_server [])"
  by (rule requests_survive_cutting)
    (simp_all add: frames_of_def frame_def MSG_TERMINATOR_def sendable_def cuts_terminator_def command_codes limits)

text \<open>The case of two chunks, with whatever the buffer holds.\<close>

lemma chunks_do_not_matter:
  assumes "\<not> cuts_terminator a b" and "NUL \<notin> set (a @ b)"
    and "length (a @ b) \<le> MAX_MESSAGE_LEN_TO_SERVER"
  shows "read_and_process_client_message p (Received (a @ b)) s =
    res_bind (read_and_process_client_message p (Received a) s)
      (\<lambda>t. read_and_process_client_message p (Received b) t)"
proof -
  have "cstr (take MAX_MESSAGE_LEN_TO_SERVER x) = x" if "x \<in> {a, b, a @ b}" for x
    using that assms(2,3) by (auto simp: cstr_id)
  then show ?thesis
    using process_append [OF assms(1), of p s]
    by (simp add: read_and_process_client_message_def del: take_append)
qed

lemma chunks_do_not_matter_witness:
  "read_and_process_client_message ann (Received (CMD_LEAVE_ROOM # '' dum'' @ ''my'' @ [CR, LF])) (room_server []) =
    res_bind (read_and_process_client_message ann (Received (CMD_LEAVE_ROOM # '' dum'')) (room_server []))
      (\<lambda>t. read_and_process_client_message ann (Received (''my'' @ [CR, LF])) t)"
  using chunks_do_not_matter [of "CMD_LEAVE_ROOM # '' dum''" "''my'' @ [CR, LF]" ann "room_server []"]
  by (simp add: cuts_terminator_def command_codes limits)

text \<open>
  C30: A terminator that arrives in two chunks is lost: after \<open>m CR\<close> and then \<open>LF\<close> no message has
  been handled, and CR and LF stay in the buffer as content of the next message.
\<close>

theorem cut_terminator_is_lost:
  assumes "LF \<notin> set m" and "NUL \<notin> set m" and "length m < MAX_MESSAGE_LEN_TO_SERVER"
    and "length (current_msg (client_at s p)) + length m + 2 < MAX_MESSAGE_LEN_TO_SERVER * 3"
  shows "res_bind (read_and_process_client_message p (Received (m @ [CR])) s)
      (read_and_process_client_message p (Received [LF])) =
    Inr (upd_client p (\<lambda>c. c\<lparr>current_msg := current_msg c @ m @ [CR, LF]\<rparr>) s)"
proof -
  have "cstr (take MAX_MESSAGE_LEN_TO_SERVER (m @ [CR])) = m @ [CR]"
    "cstr (take MAX_MESSAGE_LEN_TO_SERVER [LF]) = [LF]"
    using assms(2,3) by (simp_all add: cstr_id limits)
  then show ?thesis
    using process_cut_terminator [OF assms(1,4)]
    by (simp add: read_and_process_client_message_def [abs_def])
qed

theorem cut_terminator_is_lost_witness:
  "res_bind (read_and_process_client_message ann (Received ((CMD_LEAVE_ROOM # '' x'') @ [CR])) (room_server []))
      (read_and_process_client_message ann (Received [LF])) =
    Inr (upd_client ann (\<lambda>c. c\<lparr>current_msg := current_msg c @ (CMD_LEAVE_ROOM # '' x'') @ [CR, LF]\<rparr>)
      (room_server []))"
  by (rule cut_terminator_is_lost) (simp_all add: command_codes limits)

text \<open>
  C31: Bytes without a terminator are collected in \<open>current_msg\<close>; the write stays inside its 396
  bytes exactly while the collected length does, and nothing limits that length to it.
\<close>

theorem message_buffer_bound:
  assumes "split_crlf (cstr (take MAX_MESSAGE_LEN_TO_SERVER bytes)) = None"
    and "cstr (take MAX_MESSAGE_LEN_TO_SERVER bytes) \<noteq> []"
  shows "read_and_process_client_message p (Received bytes) s =
    (let new = current_msg (client_at s p) @ cstr (take MAX_MESSAGE_LEN_TO_SERVER bytes) in
     if length new < 396 then Inr (upd_client p (\<lambda>c. c\<lparr>current_msg := new\<rparr>) s)
     else Inl (Overflow Current_msg))"
  using process_unterminated [OF assms] by (simp add: read_and_process_client_message_def Let_def)

theorem message_buffer_bound_witness:
  "read_and_process_client_message ann (Received ''abc'') (lobby_server (replicate 393 CHR ''x'')) =
    Inl (Overflow Current_msg)"
proof -
  have "cstr (take MAX_MESSAGE_LEN_TO_SERVER ''abc'') = ''abc''" by (simp add: cstr_id limits)
  with message_buffer_bound [of "''abc''" ann "lobby_server (replicate 393 CHR ''x'')"] show ?thesis
    by simp
qed

text \<open>
  C29: An EXIT does not end the chunk it came in: what follows is obeyed on the slot that has been freed. A second EXIT
  makes the worker count two clients less for the one that left and closes descriptor 0; a SUBMIT and
  a CREATE open a room whose only member is the freed slot, which no thread serves, and the
  tables are inconsistent.
\<close>

theorem exit_is_not_the_end:
  assumes ok: "table_inv s" "names_ok s" "list_fits s" and buf: "current_msg (client_at s p) = []"
    and out: "cstate (client_at s p) \<noteq> IN_CHAT_ROOM"
    and n: "is_word n" "length n \<le> MAX_USERNAME_LEN" "NUL \<notin> set n"
    and r: "is_word r" "length r \<le> MAX_ROOM_NAME_LEN" "NUL \<notin> set r"
    and free: "free_number (hall_of s) = Some i"
  shows "(\<exists>t. read_and_process_client_message p
        (Received (frame CMD_EXIT ''dummy'' @ frame CMD_EXIT ''dummy'')) s = Inr t \<and>
      num_of_clients (worker_at t (owner p)) = num_of_clients (worker_at s (owner p)) - 2 \<and>
      Close 0 \<in> set (trace t)) \<and>
    (\<exists>t. read_and_process_client_message p
        (Received (frame CMD_EXIT ''dummy'' @ frame CMD_USERNAME_SUBMIT n @ frame CMD_ROOM_CREATE_REQUEST r)) s = Inr t \<and>
      num_of_clients (worker_at t (owner p)) = num_of_clients (worker_at s (owner p)) - 1 \<and>
      h_rooms (hall_of t) i = Some (r, {p}) \<and> \<not> c_in_use (client_at t p) \<and> \<not> table_inv t)"
proof -
  have read: "read_and_process_client_message p (Received m) s = process_messages p m s"
    if "length m \<le> MAX_MESSAGE_LEN_TO_SERVER" "NUL \<notin> set m" "m \<noteq> []" for m
    using that by (simp add: read_and_process_client_message_def cstr_id)
  have codes: "NUL \<notin> set (frame c m)" if "NUL \<notin> set m" "c \<noteq> NUL" for c m
    using that by (simp add: frame_def MSG_TERMINATOR_def)
  have len: "length (frame c m) = length m + 4" "frame c m \<noteq> []" for c m
    by (simp_all add: frame_def MSG_TERMINATOR_def)
  let ?twice = "frame CMD_EXIT ''dummy'' @ frame CMD_EXIT ''dummy''"
  let ?on = "frame CMD_EXIT ''dummy'' @ frame CMD_USERNAME_SUBMIT n @ frame CMD_ROOM_CREATE_REQUEST r"
  have "read_and_process_client_message p (Received ?twice) s = process_messages p ?twice s"
    by (rule read) (simp_all add: len codes limits command_codes)
  moreover have "read_and_process_client_message p (Received ?on) s = process_messages p ?on s"
    using n r by (intro read) (simp_all add: len codes limits command_codes)
  ultimately show ?thesis
    using process_exit_twice [OF buf out] ghost_member [OF ok out buf n(1,2) r(1,2) free] by auto
qed

theorem exit_is_not_the_end_witness:
  "\<exists>t. read_and_process_client_message ann
      (Received (frame CMD_EXIT ''dummy'' @ frame CMD_USERNAME_SUBMIT ''eve'' @ frame CMD_ROOM_CREATE_REQUEST ''tea''))
      (lobby_server []) = Inr t \<and>
    h_rooms (hall_of t) 0 = Some (''tea'', {ann}) \<and> \<not> c_in_use (client_at t ann)"
proof -
  have "is_word ''eve''" "is_word ''tea''" by (simp_all add: is_word_def c_isspace_def)
  moreover have "free_number (hall_of (lobby_server [])) = Some 0"
    unfolding free_number_def by (rule first_index_here) (simp_all add: room_of_def limits)
  ultimately show ?thesis
    using exit_is_not_the_end [OF lobby_inv sample_names(1) sample_fits(1), of "[]" ann "''eve''" "''tea''" 0]
    by (auto simp: limits)
qed

section \<open>Validation\<close>

text \<open>
  \<open>validate_msg_format\<close> accepts exactly the messages of the protocol: a command byte between
  1 and 7, a space, and 1 to 128 characters of content that are not all spaces.
\<close>

lemma format_accepted:
  "format_error msg = None \<longleftrightarrow>
    3 \<le> length msg \<and> length msg \<le> MAX_CONTENT_LEN + 2 \<and> msg ! 1 = SPACE \<and>
    1 \<le> char_val (msg ! 0) \<and> char_val (msg ! 0) \<le> 7 \<and> set (drop 2 msg) - {SPACE} \<noteq> {}"
proof -
  have blank: "dropWhile (\<lambda>c. c = SPACE) xs = [] \<longleftrightarrow> set xs - {SPACE} = {}" for xs
    by (auto simp: dropWhile_eq_Nil_conv)
  have codes: "char_val CMD_EXIT = 1" "char_val CMD_ROOM_MESSAGE_SEND = 7"
    by (simp_all add: command_codes char_val_def)
  show ?thesis
    by (cases "length msg < 3") (auto simp: format_error_def blank codes char_at_def not_less)
qed

text \<open>
  The commands a client may send follow the state machine of the protocol: only the user name
  before it has one, create, join and list in the lobby, messages and leaving in a room, and EXIT
  always.
\<close>

lemma commands_by_state:
  "state_error st code = None \<longleftrightarrow>
    code \<in> insert CMD_EXIT (case st of
        AWAITING_USERNAME \<Rightarrow> {CMD_USERNAME_SUBMIT}
      | IN_CHAT_LOBBY \<Rightarrow> {CMD_ROOM_CREATE_REQUEST, CMD_ROOM_JOIN_REQUEST, CMD_ROOM_LIST_REQUEST}
      | IN_CHAT_ROOM \<Rightarrow> {CMD_ROOM_MESSAGE_SEND, CMD_LEAVE_ROOM})"
  by (cases st) (auto simp: state_error_def)

text \<open>
  A message that is not acceptable is answered with one error frame, with the code of the first
  test it fails (the format before the state), and changes nothing on the server.
\<close>

lemma rejection:
  assumes "\<not> acceptable (client_at s p)" and "route_client_command p s = Inr t"
  shows "server_rooms t = server_rooms s \<and> worker_threads t = worker_threads s \<and>
    sent_frames (trace t) = sent_frames (trace s) @
      [(client_fd (client_at s p),
        case format_error (current_msg (client_at s p)) of
          Some (code, str) \<Rightarrow> frame code str
        | None \<Rightarrow> frame ERR_PROTOCOL_INVALID_STATE_CMD
            (the (state_error (cstate (client_at s p)) (char_at (current_msg (client_at s p)) 0))))]"
proof (cases "format_error (current_msg (client_at s p))")
  case (Some x)
  obtain code str where x: "x = (code, str)" by (cases x)
  with Some assms(2) have "send_message_to_client (client_fd (client_at s p)) code str s = Inr t"
    by (auto simp: route_client_command_def validate_msg_format_def res_bind_eq_Inr)
  with Some x send_InrD [OF this] res_allD [OF send_frames this] show ?thesis
    by (simp add: only_sends_def)
next
  case None
  with assms obtain str where str: "state_error (cstate (client_at s p)) (char_at (current_msg (client_at s p)) 0) = Some str"
    by (auto simp: acceptable_def)
  with None assms(2) have
    "send_message_to_client (client_fd (client_at s p)) ERR_PROTOCOL_INVALID_STATE_CMD str s = Inr t"
    by (auto simp: route_client_command_def validate_msg_format_def command_valid_for_state_def
        Let_def res_bind_eq_Inr)
  with None str send_InrD [OF this] res_allD [OF send_frames this] show ?thesis
    by (simp add: only_sends_def)
qed

lemma rejection_witness:
  "\<exists>t. route_client_command ann (lobby_server (CMD_LEAVE_ROOM # '' x'')) = Inr t \<and>
    sent_frames (trace t) = [(20, frame ERR_PROTOCOL_INVALID_STATE_CMD lobby_error_text)]"
proof -
  let ?s = "lobby_server (CMD_LEAVE_ROOM # '' x'')"
  obtain t where t: "route_client_command ann ?s = Inr t" using sample_routes(1) by blast
  have "format_error (CMD_LEAVE_ROOM # '' x'') = None"
    "state_error IN_CHAT_LOBBY (char_at (CMD_LEAVE_ROOM # '' x'') 0) = Some lobby_error_text"
    by (simp_all add: format_error_def state_error_def char_at_def char_val_def command_codes limits)
  with rejection [OF _ t] t show ?thesis by (simp add: acceptable_def)
qed

text \<open>
  C32: \<open>parse_room_number\<close> reads back every number of one or two digits as the room list prints it.
\<close>

theorem room_number_round_trip:
  assumes "n < 100"
  shows "parse_room_number (c # SPACE # dec_digits n) = int n"
  by (rule parse_room_number_digits [OF assms])

theorem room_number_round_trip_witness: "parse_room_number (CMD_ROOM_JOIN_REQUEST # SPACE # dec_digits 42) = 42"
  using room_number_round_trip [of 42] by simp

text \<open>
  \<open>parse_room_number\<close> yields -1 or a number of at most two digits, whatever the content, so the
  two tests of \<open>join_chat_room\<close> keep the index inside \<open>SERVER_ROOMS\<close>.
\<close>

lemma room_number_bounds: "parse_room_number msg \<in> {-1..99}"
  using parse_room_number_bounds [of msg] by simp

text \<open>
  In the state \<open>AWAITING_USERNAME\<close> a name of at most 32 characters is stored, moves the client to
  the lobby and is answered with the room list; a longer one is answered with
  \<open>ERR_USERNAME_LENGTH\<close> and changes nothing.
\<close>

lemma user_name_taken:
  assumes "rooms_ok s" and "handle_awaiting_username p s = Inr t"
  shows "let name = drop 2 (current_msg (client_at s p)) in
    if length name \<le> MAX_USERNAME_LEN then
      client_at t p = (client_at s p)\<lparr>cname := name, cstate := IN_CHAT_LOBBY\<rparr> \<and>
      sent_frames (trace t) = sent_frames (trace s) @
        [(client_fd (client_at s p), frame CMD_ROOM_LIST_RESPONSE (room_list_text s))]
    else client_at t p = client_at s p \<and>
      sent_frames (trace t) = sent_frames (trace s) @
        [(client_fd (client_at s p), frame ERR_USERNAME_LENGTH username_long_text)]"
proof (cases "length (drop 2 (current_msg (client_at s p))) \<le> MAX_USERNAME_LEN")
  case False
  with assms(2) have "send_message_to_client (client_fd (client_at s p)) ERR_USERNAME_LENGTH
      username_long_text s = Inr t"
    by (simp add: handle_awaiting_username_def Let_def)
  from False res_allD [OF send_frames this] only_sends_state(1) [OF send_InrD [OF this]] show ?thesis
    by (simp add: Let_def)
next
  case True
  let ?name = "drop 2 (current_msg (client_at s p))"
  let ?u = "upd_client p (\<lambda>c. c\<lparr>cname := ?name, cstate := IN_CHAT_LOBBY\<rparr>) s"
  from True assms(2) have u: "send_avail_rooms p ?u = Inr t"
    by (simp add: handle_awaiting_username_def Let_def c_store_def)
  have "room_list_text ?u = room_list_text s"
    using room_lines_state [of ?u s] by (simp add: room_list_text_def)
  with True send_avail_rooms_frame [OF _ u] assms(1) same_structs_state(1) [OF send_avail_rooms_structs [OF u]]
  show ?thesis by (simp add: Let_def)
qed

lemma user_name_taken_witness:
  "\<exists>t. handle_awaiting_username ann (lobby_server (CMD_USERNAME_SUBMIT # '' eve'')) = Inr t \<and>
    cname (client_at t ann) = ''eve''"
proof -
  let ?s = "lobby_server (CMD_USERNAME_SUBMIT # '' eve'')"
  have ok: "rooms_ok ?s" using lobby_inv by (simp add: table_inv_def)
  obtain t where t: "handle_awaiting_username ann ?s = Inr t"
    using awaiting_returns [OF ok sample_fits(1), of ann] by (auto simp: returns_iff)
  from user_name_taken [OF ok t] t show ?thesis by (simp add: Let_def limits)
qed

section \<open>Sending\<close>

text \<open>
  A message that fits is framed and handed to the socket from its first byte on; unless the
  socket fails, all of it is taken, however the kernel splits it and however often it would block.
\<close>

lemma whole_message_sent:
  assumes "length m + 4 < MAX_MESSAGE_LEN_FROM_SERVER" and "Send_failed \<notin> set (replies s)"
  shows "\<exists>rest. send_message_to_client fd code m s =
    Inr (emit (Send fd (frame code m) (length m + 4)) (s\<lparr>replies := rest\<rparr>)) \<and>
    (\<exists>used. replies s = used @ rest)"
proof -
  obtain n rest where n: "send_loop (replies s) 0 (length (frame code m)) = (n, rest)" by fastforce
  from send_loop_suffix [OF n] obtain used where
    used: "replies s = used @ rest" "Send_failed \<notin> set used \<longrightarrow> n = length (frame code m)" by auto
  with assms(2) have "n = length m + 4" by simp
  with n assms(1) have "send_message_to_client fd code m s =
      Inr (emit (Send fd (frame code m) (length m + 4)) (s\<lparr>replies := rest\<rparr>))"
    by (simp add: send_message_to_client_def)
  with used(1) show ?thesis by blast
qed

lemma whole_message_sent_witness:
  "\<exists>rest. send_message_to_client 5 CMD_ROOM_MSG ''hi'' (zero_server [Accepted 2, Would_block, Accepted 1]) =
    Inr (emit (Send 5 (frame CMD_ROOM_MSG ''hi'') 6)
      ((zero_server [Accepted 2, Would_block, Accepted 1])\<lparr>replies := rest\<rparr>))"
  using whole_message_sent [of "''hi''" "zero_server [Accepted 2, Would_block, Accepted 1]" 5 CMD_ROOM_MSG]
  by (auto simp: limits)

text \<open>
  C27: The send loop ends exactly when some prefix of the kernel's answers has a failure in it or takes
  the whole message; the finite scripts of \<open>send_loop\<close> are then all there is. Against a socket that
  answers \<open>EAGAIN\<close> for ever it never ends, and a worker that broadcasts holds the lock of the room all the time.
\<close>

theorem send_loop_ends:
  "((\<exists>y. send_stream ks 0 len = Some y) \<longleftrightarrow> (\<exists>k. decides len (stake k ks))) \<and>
   (send_stream ks 0 len = Some (n, ks') \<longrightarrow> (\<exists>rs. ks = rs @- ks' \<and> send_loop rs 0 len = (n, [])))"
proof (intro conjI iffI impI)
  assume "\<exists>y. send_stream ks 0 len = Some y"
  then obtain n ks' where "send_stream ks 0 len = Some (n, ks')" by auto
  from ended_script [OF this] obtain rs where rs: "ks = rs @- ks'" "decides len rs" by auto
  have "stake (length rs) ks = rs" by (simp add: rs(1) stake_shift)
  with rs(2) show "\<exists>k. decides len (stake k ks)" by metis
next
  assume "\<exists>k. decides len (stake k ks)"
  then obtain k where "decides (len - 0) (stake k ks)" by auto
  from decided_ends [OF this, of "sdrop k ks"] show "\<exists>y. send_stream ks 0 len = Some y" by (simp add: stake_sdrop)
next
  assume "send_stream ks 0 len = Some (n, ks')"
  from ended_script [OF this] show "\<exists>rs. ks = rs @- ks' \<and> send_loop rs 0 len = (n, [])" by auto
qed

theorem send_loop_ends_witness:
  "send_stream (sconst Would_block) 0 6 = None \<and>
   (\<exists>rs. Would_block ## Accepted 6 ## sconst Would_block = rs @- sconst Would_block \<and> send_loop rs 0 6 = (6, []))"
proof -
  have "\<not> decides 6 (stake k (sconst Would_block))" for k
    using taken_stuck [of "stake k (sconst Would_block)"] by (auto simp: decides_def)
  then have "send_stream (sconst Would_block) 0 6 = None"
    using send_loop_ends [of "sconst Would_block" 6] by (cases "send_stream (sconst Would_block) 0 6") blast+
  moreover have "send_stream (Would_block ## Accepted 6 ## sconst Would_block) 0 6 = Some (6, sconst Would_block)"
    by (simp add: stream_stop)
  ultimately show ?thesis using send_loop_ends by blast
qed

text \<open>
  C28: Two threads that send to one client at the same time can destroy both messages: if the kernel takes only
  the first \<open>k\<close> bytes of one, the other thread's message follows in the middle of it, and what the client finds
  before the first terminator is neither of the two.
\<close>

theorem frames_can_mix:
  assumes "0 < k" and "k \<le> length m + 2" and "LF \<notin> set m" "LF \<notin> set n" and "c \<noteq> LF" "d \<noteq> LF"
  shows "\<exists>out. (senders (frame c m) (frame d n))\<^sup>*\<^sup>* (0, 0, [])
      (length (frame c m), length (frame d n), out) \<and>
    split_crlf out = Some (take k (frame c m) @ d # SPACE # n, drop k (frame c m))"
proof -
  let ?a = "frame c m" and ?b = "frame d n"
  have "(senders ?a ?b)\<^sup>*\<^sup>* (0, 0, []) (length ?a, length ?b, take k ?a @ ?b @ drop k ?a)"
    by (rule senders_mix) (use assms(2) in simp_all)
  moreover have f: "?a = (c # SPACE # m) @ MSG_TERMINATOR" by (simp add: frame_def)
  have "take k ?a = take k (c # SPACE # m)" unfolding f take_append using assms(2) by simp
  then have "LF \<notin> set (take k ?a)" using assms(3,5) by (auto dest: in_set_takeD)
  then have "LF \<notin> set (take k ?a @ d # SPACE # n)" using assms(4,6) by simp
  from split_crlf_app [OF this, of "drop k ?a"]
  have "split_crlf (take k ?a @ ?b @ drop k ?a) = Some (take k ?a @ d # SPACE # n, drop k ?a)"
    by (simp add: frame_def MSG_TERMINATOR_def)
  ultimately show ?thesis by blast
qed

text \<open>An error reply of the client's own worker, and a chat message of another.\<close>

theorem frames_can_mix_witness:
  "\<exists>out. (senders (frame ERR_PROTOCOL_INVALID_STATE_CMD ''no'') (frame CMD_ROOM_MSG ''bob: hi''))\<^sup>*\<^sup>*
      (0, 0, []) (6, 11, out) \<and>
    split_crlf out = Some (ERR_PROTOCOL_INVALID_STATE_CMD # SPACE # CHR ''n'' # CMD_ROOM_MSG # '' bob: hi'', ''o'' @ [CR, LF])"
  using frames_can_mix [of 3 "''no''" "''bob: hi''" ERR_PROTOCOL_INVALID_STATE_CMD CMD_ROOM_MSG]
  by (simp add: reply_codes frame_def MSG_TERMINATOR_def numeral_eq_Suc)

section \<open>The room list\<close>

text \<open>
  The room list a client gets is the header and one line for each room in use, in the order of
  their numbers, or the notice that there is none; and nobody else gets anything.
\<close>

lemma room_list_sent:
  assumes "rooms_ok s" and "send_avail_rooms p s = Inr t"
  shows "sent_frames (trace t) = sent_frames (trace s) @
    [(client_fd (client_at s p), frame CMD_ROOM_LIST_RESPONSE
      (if \<exists>i \<in> {..<MAX_ROOMS}. r_in_use (room_at s i) then
         list_header @ concat (map (\<lambda>i. if r_in_use (room_at s i) then room_entry i (room_at s i) else [])
           [0..<MAX_ROOMS])
       else list_header @ no_rooms_text))]"
proof -
  have "rooms_open s 0 \<longleftrightarrow> (\<exists>i \<in> {..<MAX_ROOMS}. r_in_use (room_at s i))"
    by (auto simp: rooms_open_def)
  moreover have "room_line s = (\<lambda>i. if r_in_use (room_at s i) then room_entry i (room_at s i) else [])"
    by (rule ext) (simp add: room_line_def)
  ultimately show ?thesis
    using send_avail_rooms_frame [OF assms] by (simp add: room_list_text_def room_lines_def)
qed

lemma room_list_sent_witness:
  "\<exists>t. send_avail_rooms ann (lobby_server []) = Inr t \<and>
    sent_frames (trace t) = [(20, frame CMD_ROOM_LIST_RESPONSE (list_header @ no_rooms_text))]"
proof -
  have ok: "rooms_ok (lobby_server [])" using lobby_inv by (simp add: table_inv_def)
  obtain t where t: "send_avail_rooms ann (lobby_server []) = Inr t"
    using send_avail_rooms_returns [OF ok, of ann] sample_fits(1) by (auto simp: list_fits_def returns_iff)
  from room_list_sent [OF ok t] t show ?thesis by simp
qed

text \<open>
  C26: With names of at most 18 characters the room list is never too long.
\<close>

theorem short_room_names_safe:
  assumes "rooms_ok s" and "\<forall>i \<in> {..<MAX_ROOMS}. length (room_name (room_at s i)) \<le> 18"
  shows "\<exists>t. send_avail_rooms p s = Inr t"
  using send_avail_rooms_returns [OF assms(1), of p] short_names_fit [of s] assms(2)
  by (simp add: returns_iff)

theorem short_room_names_safe_witness: "\<exists>t. send_avail_rooms bob (room_server []) = Inr t"
  by (rule short_room_names_safe) (use room_inv in \<open>simp_all add: table_inv_def\<close>)

text \<open>
  C25: With all 50 rooms in use under names of the full 24 characters, which the server admits, asking
  for the list writes past the end of \<open>room_list_msg\<close>.
\<close>

theorem long_room_names_overflow:
  assumes "rooms_ok s"
    and "\<forall>i \<in> {..<MAX_ROOMS}. r_in_use (room_at s i) \<and> length (room_name (room_at s i)) = MAX_ROOM_NAME_LEN"
  shows "send_avail_rooms p s = Inl (Overflow Room_list_msg)"
  by (rule long_names_overflow [OF assms(1)]) (use assms(2) in simp)

definition crowded_server :: server where
  "crowded_server = (zero_server [])\<lparr>server_rooms :=
     (\<lambda>_. tea_room\<lparr>room_name := replicate 24 CHR ''x''\<rparr>)\<rparr>"

theorem long_room_names_overflow_witness:
  "send_avail_rooms ann crowded_server = Inl (Overflow Room_list_msg)"
proof (rule long_room_names_overflow)
  have room: "room_at crowded_server i = tea_room\<lparr>room_name := replicate 24 CHR ''x''\<rparr>" for i
    by (simp add: crowded_server_def room_at_def)
  show "rooms_ok crowded_server"
    using tea_ok by (simp add: rooms_ok_def room room_ok_def) (simp add: limits)
  show "\<forall>i\<in>{..<MAX_ROOMS}. r_in_use (room_at crowded_server i) \<and>
      length (room_name (room_at crowded_server i)) = MAX_ROOM_NAME_LEN"
    by (simp add: room) (simp add: limits)
qed

section \<open>Disconnection\<close>

text \<open>
  C24: A disconnection clears the client's slot, closes its descriptor, takes it out of the epoll set
  and off the worker's count, once each, and leaves it a member of no room.
\<close>

theorem disconnection:
  assumes "table_inv s" and "handle_client_disconnection p s = Inr t"
  shows "client_at t p = zero_client \<and> Close (client_fd (client_at s p)) \<in> set (trace t) \<and>
    client_fd (client_at s p) \<notin> epoll_set (worker_at t (owner p)) \<and>
    num_of_clients (worker_at t (owner p)) = num_of_clients (worker_at s (owner p)) - 1 \<and>
    (\<forall>i k. \<not> sits t i k p)"
proof -
  from disconnect_ids [OF assms(2)] obtain u where u: "ids_kept s u" "t = cleanup_client p u" by blast
  have "\<not> sits t i k p" for i k
  proof
    assume "sits t i k p"
    moreover have "linked t" using disconnect_inv [OF assms] by (simp add: table_inv_def)
    ultimately have "c_in_use (client_at t p)" by (rule linked_sits(1) [rotated])
    then show False by (simp add: u(2) cleanup_fields)
  qed
  with u show ?thesis
    using cleanup_fields(1-3) [where s = u and p = p] by (simp add: ids_kept_def) (simp add: cleanup_unfold)
qed

theorem disconnection_witness:
  "\<exists>t. handle_client_disconnection ann (room_server []) = Inr t \<and> client_at t ann = zero_client \<and>
    Close 20 \<in> set (trace t)"
proof -
  obtain t where t: "handle_client_disconnection ann (room_server []) = Inr t"
    using disconnect_returns [OF room_inv sample_names(2), of ann] by (auto simp: returns_iff)
  from disconnection [OF room_inv t] t show ?thesis by simp
qed

end
