(* ===== verification/Client_Requests.thy ===== *)
theory Client_Requests
  imports Client_Messages Hall_Replies
begin

text \<open>
  What a user asks for by typing a line, as a reference definition on words, and what comes of it at the
  other end: the client sends exactly this request, the server carries it out on the hall, and the
  frames it answers with bring the client's flag back into agreement.
\<close>

section \<open>Words\<close>

function words :: "string \<Rightarrow> string list" where
  "words [] = []"
| "words (c # cs) =
     (if c_isspace c then words cs
      else takeWhile (\<lambda>x. \<not> c_isspace x) (c # cs) # words (dropWhile (\<lambda>x. \<not> c_isspace x) (c # cs)))"
  by pat_completeness auto
termination
  by (relation "measure length") (auto simp: le_imp_less_Suc length_dropWhile_le)

lemma words_skip: "words (dropWhile c_isspace str) = words str"
  by (induction str) auto

lemma scan_word_words:
  "scan_word str = (case words str of [] \<Rightarrow> None
     | w # ws \<Rightarrow> Some (w, dropWhile (\<lambda>c. \<not> c_isspace c) (dropWhile c_isspace str)))"
proof (cases "dropWhile c_isspace str")
  case Nil
  with words_skip [of str] show ?thesis by (simp add: scan_word_def)
next
  case (Cons c cs)
  then have "\<not> c_isspace c" by (metis hd_dropWhile list.sel(1) list.distinct(1))
  with Cons words_skip [of str, symmetric] show ?thesis by (simp add: scan_word_def Let_def)
qed

lemma words_rest:
  assumes "words str = w # ws"
  shows "words (dropWhile (\<lambda>c. \<not> c_isspace c) (dropWhile c_isspace str)) = ws"
proof (cases "dropWhile c_isspace str")
  case Nil
  with assms words_skip [of str] show ?thesis by (metis list.distinct(1) words.simps(1))
next
  case (Cons c cs)
  then have "\<not> c_isspace c" by (metis hd_dropWhile list.sel(1) list.distinct(1))
  with Cons words_skip [of str] assms show ?thesis by simp
qed

lemma words_length: "w \<in> set (words str) \<Longrightarrow> length w \<le> length str"
proof (induction str rule: words.induct)
  case (2 c cs)
  show ?case
  proof (cases "c_isspace c")
    case True
    with 2 show ?thesis by auto
  next
    case False
    with 2(3) have "w = takeWhile (\<lambda>x. \<not> c_isspace x) (c # cs) \<or>
        w \<in> set (words (dropWhile (\<lambda>x. \<not> c_isspace x) (c # cs)))" by simp
    then show ?thesis
      using 2(2) [OF False] False length_takeWhile_le [of "\<lambda>x. \<not> c_isspace x" "c # cs"]
        length_dropWhile_le [of "\<lambda>x. \<not> c_isspace x" "c # cs"] by auto
  qed
qed simp

lemma words_are_words: "w \<in> set (words str) \<Longrightarrow> is_word w"
proof (induction str rule: words.induct)
  case (2 c cs)
  show ?case
  proof (cases "c_isspace c")
    case True
    with 2(1,3) show ?thesis by simp
  next
    case False
    have "is_word (takeWhile (\<lambda>x. \<not> c_isspace x) (c # cs))"
      using False by (auto simp: is_word_def dest: set_takeWhileD)
    with 2(2,3) False show ?thesis by auto
  qed
qed simp

section \<open>Requests\<close>

text \<open>The command and the content a line stands for, in a room and out of one.\<close>

definition requested :: "bool \<Rightarrow> string \<Rightarrow> (char \<times> string) option" where
  "requested seated_in line =
     (if char_at line 0 \<noteq> CHR ''/'' then (if seated_in then Some (CMD_ROOM_MESSAGE_SEND, line) else None)
      else
        (case words line of
           [] \<Rightarrow> None
         | cmd # args \<Rightarrow>
             if seated_in then
               (if cmd = ''/leave'' then Some (CMD_LEAVE_ROOM, ''dummy'')
                else if cmd = ''/exit'' then Some (CMD_EXIT, ''dummy'') else None)
             else
               (case args of
                  [] \<Rightarrow>
                    if cmd = ''/list'' then Some (CMD_ROOM_LIST_REQUEST, ''dummy'')
                    else if cmd = ''/exit'' then Some (CMD_EXIT, ''dummy'') else None
                | arg # _ \<Rightarrow>
                    if cmd = ''/create'' then Some (CMD_ROOM_CREATE_REQUEST, arg)
                    else if cmd = ''/join'' then Some (CMD_ROOM_JOIN_REQUEST, arg) else None)))"

lemma scan_command_words:
  assumes "length line < MAX_CONTENT_LEN"
  shows "scan_command line = Inr (case words line of [] \<Rightarrow> (None, None)
    | [w] \<Rightarrow> (Some w, None) | w # v # _ \<Rightarrow> (Some w, Some v))"
proof (cases "words line")
  case Nil
  then show ?thesis by (simp add: scan_command_def scan_word_words)
next
  case (Cons w ws)
  let ?r = "dropWhile (\<lambda>c. \<not> c_isspace c) (dropWhile c_isspace line)"
  have r: "words ?r = ws" by (rule words_rest [OF Cons])
  have w: "length w < MAX_CONTENT_LEN" using words_length [of w line] Cons assms by simp
  have "length ?r \<le> length line"
    by (meson length_dropWhile_le order_trans)
  then have v: "length v < MAX_CONTENT_LEN" if "ws = v # vs" for v vs
    using words_length [of v ?r] r that assms by simp
  show ?thesis
  proof (cases ws)
    case Nil
    with Cons r w show ?thesis
      by (simp add: scan_command_def scan_word_words c_store_def limits)
  next
    case (Cons v vs)
    with \<open>words line = w # ws\<close> r w v [OF Cons] show ?thesis
      by (simp add: scan_command_def scan_word_words c_store_def limits)
  qed
qed

lemma requested_length:
  "requested b line = Some (code, content) \<Longrightarrow> length line < MAX_CONTENT_LEN \<Longrightarrow> length content < MAX_CONTENT_LEN"
  using words_length [of content line]
  by (auto simp: requested_def limits split: if_splits list.splits)


section \<open>The client's end\<close>

text \<open>What is formatted is the request: nothing else is sent, and no request is lost.\<close>

definition request_frame :: "(char \<times> string) option \<Rightarrow> string option" where
  "request_frame r = map_option (\<lambda>(code, content). frame code content) r"

lemma handle_commands_request:
  assumes len: "length line < MAX_CONTENT_LEN" and slash: "char_at line 0 = CHR ''/''"
  shows "\<exists>b. handle_commands line MAX_MESSAGE_LEN_TO_SERVER a = Inr (request_frame (requested (is_in_room a) line), b) \<and>
    (requested (is_in_room a) line \<noteq> None \<longrightarrow> b = a) \<and> to_server b = to_server a \<and> is_in_room b = is_in_room a"
proof -
  have "\<not> c_isspace (CHR ''/'')" by (simp add: c_isspace_def)
  with slash obtain w ws where w: "words line = w # ws" by (cases line) (auto simp: char_at_def)
  note scan = scan_command_words [OF len, unfolded w]
  have arg: "length v < MAX_CONTENT_LEN" if "v \<in> set ws" for v
    using words_length [of v line] that w len by simp
  show ?thesis
  proof (cases "is_in_room a")
    case True
    then show ?thesis
      using w scan slash
      by (cases ws)
        (auto simp: handle_commands_def requested_def request_frame_def commands_def Let_def ui_msg_display_def
          frame_def MSG_TERMINATOR_def command_codes snprintf_def limits)
  next
    case False
    show ?thesis
    proof (cases ws)
      case Nil
      with False w scan slash show ?thesis
        by (auto simp: handle_commands_def requested_def request_frame_def commands_def Let_def ui_msg_display_def
            frame_def MSG_TERMINATOR_def command_codes snprintf_def limits)
    next
      case (Cons v vs)
      with arg [of v] False w scan slash show ?thesis
        by (auto simp: handle_commands_def requested_def request_frame_def commands_def Let_def ui_msg_display_def
            frame_def MSG_TERMINATOR_def command_codes snprintf_def limits)
    qed
  qed
qed

lemma validate_request:
  assumes run: "is_running a" and len: "length line < MAX_CONTENT_LEN"
  shows "\<exists>b. validate_and_format line MAX_MESSAGE_LEN_TO_SERVER a = Inr (request_frame (requested (is_in_room a) line), b) \<and>
    (requested (is_in_room a) line \<noteq> None \<longrightarrow> b = a) \<and> to_server b = to_server a \<and> is_in_room b = is_in_room a"
proof (cases "char_at line 0 = CHR ''/''")
  case True
  with handle_commands_request [OF len True, of a] run show ?thesis by (simp add: validate_and_format_def)
next
  case False
  with run len show ?thesis
    by (auto simp: validate_and_format_def requested_def request_frame_def ui_msg_display_def
        frame_def MSG_TERMINATOR_def command_codes snprintf_def limits)
qed

lemma send_request:
  assumes run: "is_running a" and len: "length line < MAX_CONTENT_LEN" and line: "line \<noteq> []"
    and sends: "\<And>msg. sends msg = int (length msg)"
  shows "\<exists>b. send_command sends line a = Inr b \<and> is_in_room b = is_in_room a \<and>
    to_server b = to_server a @ (case requested (is_in_room a) line of None \<Rightarrow> [] | Some (code, content) \<Rightarrow> frame code content)"
proof -
  from validate_request [OF run len] obtain b where
    b: "validate_and_format line MAX_MESSAGE_LEN_TO_SERVER a = Inr (request_frame (requested (is_in_room a) line), b)"
    "to_server b = to_server a" "is_in_room b = is_in_room a" by blast
  show ?thesis
  proof (cases "requested (is_in_room a) line")
    case None
    with b line show ?thesis by (simp add: send_command_def request_frame_def ui_msg_display_def)
  next
    case (Some r)
    obtain code content where r: "r = (code, content)" by (cases r)
    with b line Some sends show ?thesis
      by (simp add: send_command_def request_frame_def send_message_def)
  qed
qed


section \<open>The server's end\<close>

lemma requested_good:
  assumes req: "requested (is_in_room a) line = Some (code, content)"
    and len: "length line < MAX_CONTENT_LEN" and lf: "LF \<notin> set line" and blank: "set line - {SPACE} \<noteq> {}"
  shows "good_request code content a"
proof (cases "char_at line 0 = CHR ''/''")
  case True
  have content: "length content < MAX_CONTENT_LEN" by (rule requested_length [OF req len])
  have "if is_in_room a then room_request code content else lobby_request code content"
    using req True content words_are_words [of content line]
    by (auto simp: requested_def room_request_def lobby_request_def split: if_splits list.splits)
  then show ?thesis by (rule request_good)
next
  case False
  with req have r: "is_in_room a" "code = CMD_ROOM_MESSAGE_SEND" "content = line"
    by (simp_all add: requested_def split: if_splits)
  have c: "is_command CMD_ROOM_MESSAGE_SEND" by (simp add: is_command_def)
  have "state_error st CMD_ROOM_MESSAGE_SEND = None" if "in_step a st" for st
    using r(1) that by (auto simp: in_step_def state_error_def command_codes)
  moreover have "dropWhile (\<lambda>c. c = SPACE) line \<noteq> []" using blank by (auto simp: dropWhile_eq_Nil_conv)
  ultimately show ?thesis using format_ok [OF c, of line] len lf r by (simp add: good_request_def)
qed

text \<open>One request in an empty buffer, from the bytes to the hall and the frames.\<close>

lemma request_handled:
  assumes good: "good_request code content a" and step: "in_step a (cstate (client_at s p))"
    and inv: "table_inv s" and d: "sockets_differ s" and p: "c_in_use (client_at s p)"
    and buf: "current_msg (client_at s p) = []"
    and t: "process_messages p (frame code content) s = Inr t"
  shows "hall_of t = spec_message p (code # SPACE # content) (hall_of s) \<and>
    tells s t (told (cname (client_at s p)) p (code # SPACE # content) (hall_of s))"
proof -
  let ?u = "upd_client p (\<lambda>c. c\<lparr>current_msg := code # SPACE # content\<rparr>) s"
  from good step have acc: "format_error (code # SPACE # content) = None"
    "state_error (cstate (client_at s p)) code = None" "LF \<notin> set content"
    by (simp_all add: good_request_def)
  have len: "length content \<le> MAX_CONTENT_LEN" using acc(1) by (auto simp: format_error_def split: if_splits)
  have code: "code \<noteq> LF"
    using acc(1) by (auto simp: format_error_def char_at_def char_val_def command_codes split: if_splits)
  have "res_bind (route_client_command p ?u) (\<lambda>t. process_messages p [] (clear_msg p t)) = Inr t"
    using process_frame [OF buf acc(3) code len, of "[]"] t by simp
  then obtain v where v: "route_client_command p ?u = Inr v" and t': "t = clear_msg p v"
    by (auto simp: process_nothing res_bind_eq_Inr)
  have a: "acceptable (client_at ?u p)" using acc by (simp add: acceptable_def char_at_def)
  have h: "hall_of ?u = hall_of s"
    by (rule hall_cong) (simp_all add: place_of_def split: client_state.split)
  have u: "table_inv ?u" "sockets_differ ?u" "c_in_use (client_at ?u p)"
    using inv d p by (auto simp: sockets_differ_def)
  from v a have "dispatch p ?u = Inr v" by (auto elim: route_cases)
  from dispatch_refines [OF u(1) a this] have "hall_of v = spec_message p (code # SPACE # content) (hall_of s)"
    by (simp add: h)
  moreover have "hall_of t = hall_of v"
    unfolding t' by (rule hall_cong) (simp_all add: clear_msg_def place_of_def split: client_state.split)
  moreover have "tells s t (told (cname (client_at s p)) p (code # SPACE # content) (hall_of s))"
  proof -
    from route_tells [OF u v] obtain new where new: "frames_added ?u v new"
      "\<And>q. c_in_use (client_at ?u q) \<Longrightarrow> frames_to (client_fd (client_at ?u q)) new =
         told (cname (client_at s p)) p (code # SPACE # content) (hall_of s) q"
      unfolding tells_def h by auto
    have "frames_added s t new" using new(1) by (simp add: t' clear_msg_def)
    then show ?thesis
    proof (rule tellsI)
      fix q assume "c_in_use (client_at s q)"
      with new(2) [of q] show "frames_to (client_fd (client_at s q)) new =
          told (cname (client_at s p)) p (code # SPACE # content) (hall_of s) q"
        by (cases "q = p") simp_all
    qed
  qed
  ultimately show ?thesis by simp
qed

text \<open>A request other than EXIT leaves the client informed.\<close>

lemma request_informs:
  assumes good: "good_request code content a" and step: "in_step a (cstate (client_at s p))"
    and buf: "current_msg (client_at s p) = []" and exit: "code \<noteq> CMD_EXIT"
    and t: "process_messages p (frame code content) s = Inr t"
  shows "follows p s t"
proof (rule process_follows [OF _ t])
  from good step have acc: "format_error (code # SPACE # content) = None" "LF \<notin> set content"
    by (simp_all add: good_request_def)
  have code: "code \<noteq> LF"
    using acc(1) by (auto simp: format_error_def char_at_def char_val_def command_codes split: if_splits)
  from split_frame [OF acc(2) code, of "[]"] show "no_exit (current_msg (client_at s p)) (frame code content)"
    using exit by (simp add: no_exit.simps [of _ "frame _ _"] no_exit.simps [of _ "[]"] is_exit_def char_at_def buf)
qed

end
