(* ===== verification/Chat_Display.thy ===== *)
theory Chat_Display
  imports Client_Requests
begin

text \<open>
  A chat line on the screens: the input thread shows it to who typed it, the server passes it on with the name of
  the sender, and the receiving thread of every other member shows it once.
\<close>

lemma input_chat:
  assumes run: "is_running a" and room: "is_in_room a" and len: "length line < MAX_CONTENT_LEN"
    and lf: "LF \<notin> set line" and line: "line \<noteq> []" "char_at line 0 \<noteq> CHR ''/''" "line \<notin> {''HELP'', ''HELP!''}"
    and sends: "\<And>msg. sends msg = int (length msg)"
  shows "\<exists>b. input_round sends (Some line) a = Inr (True, b) \<and>
    shown b = shown a @ [(Msg_win, '' You: '' @ line @ [LF])] \<and>
    to_server b = to_server a @ frame CMD_ROOM_MESSAGE_SEND line"
proof -
  let ?a = "ui_input_prompt ''> '' a"
  have strip: "strip_newline line = line"
    using lf unfolding strip_newline_def by (subst takeWhile_eq_all_conv) auto
  have cmd: "line \<noteq> ''/exit''" using line(2) by (auto simp: char_at_def)
  have "send_command sends line ?a =
      Inr (?a\<lparr>to_server := to_server ?a @ frame CMD_ROOM_MESSAGE_SEND line\<rparr>)"
    using run room len line sends
    by (simp add: send_command_def validate_and_format_def send_message_def snprintf_def
        frame_def MSG_TERMINATOR_def command_codes limits)
  then show ?thesis
    using run room len line cmd
    by (simp add: input_round_def input_line_def read_line_def c_store_def strip Let_def limits
        ui_msg_display_def ui_input_prompt_def)
qed

text \<open>What a chat message looks like on a screen: the bytes of the frame without the code and without CR.\<close>

definition chat_text :: "string \<Rightarrow> string \<Rightarrow> string" where
  "chat_text name line = ''  '' @ filter (\<lambda>c. c \<noteq> CR) (name @ '': '' @ line) @ [LF]"

lemma parse_chat:
  assumes "NUL \<notin> set name" and "NUL \<notin> set line"
  shows "parse_server_msg (frame CMD_ROOM_MSG (name @ '': '' @ line)) a =
    ui_msg_display Msg_win (chat_text name line) a"
proof -
  have "cstr (drop 1 (frame CMD_ROOM_MSG (name @ '': '' @ line))) = drop 1 (frame CMD_ROOM_MSG (name @ '': '' @ line))"
    by (rule cstr_id) (use assms in \<open>simp add: frame_def MSG_TERMINATOR_def\<close>)
  then show ?thesis
    by (simp add: parse_server_msg_def Let_def chat_text_def frame_def MSG_TERMINATOR_def char_at_def reply_codes)
qed

text \<open>The other members of a room, seen from the place of a client.\<close>

lemma room_mates:
  assumes l: "linked s" and ok: "rooms_ok s" and p: "cstate (client_at s p) = IN_CHAT_ROOM"
  obtains i name ps where "place_of (client_at s p) = Sits_in i" "room_of s i = Some (name, ps)"
    "\<forall>q. q \<in> ps \<longleftrightarrow> place_of (client_at s q) = Sits_in i"
proof -
  from linked_in_room [OF l p] obtain i k where
    ik: "sits s i k p" "room_index (client_at s p) = int i" "i < MAX_ROOMS" .
  then have "r_in_use (room_at s i)" using in_use_sits [OF ok ik(3)] by blast
  then have r: "room_of s i = Some (room_name (room_at s i), {q. \<exists>k. sits s i k q})"
    by (rule room_sits [OF ik(3)])
  have "(\<exists>k. sits s i k q) \<longleftrightarrow> place_of (client_at s q) = Sits_in i" for q
  proof
    assume "\<exists>k. sits s i k q"
    with linked_sits [OF l] show "place_of (client_at s q) = Sits_in i" by (auto simp: place_of_def)
  next
    assume "place_of (client_at s q) = Sits_in i"
    then have q: "cstate (client_at s q) = IN_CHAT_ROOM" "nat (room_index (client_at s q)) = i"
      by (auto simp: place_of_def split: client_state.splits)
    from linked_in_room [OF l q(1)] obtain j k where "sits s j k q" "room_index (client_at s q) = int j" .
    with q(2) show "\<exists>k. sits s i k q" by auto
  qed
  with r p ik(2) show thesis by (intro that [of i]) (auto simp: place_of_def)
qed

lemma chat_told:
  assumes inv: "table_inv s" and p: "cstate (client_at s p) = IN_CHAT_ROOM"
    and fmt: "format_error (CMD_ROOM_MESSAGE_SEND # SPACE # line) = None"
  shows "told name p (CMD_ROOM_MESSAGE_SEND # SPACE # line) (hall_of s) q =
    (if q \<noteq> p \<and> h_place (hall_of s) q = h_place (hall_of s) p
     then [frame CMD_ROOM_MSG (name @ '': '' @ line)] else [])"
proof -
  have "linked s" "rooms_ok s" using inv by (simp_all add: table_inv_def)
  from room_mates [OF this p] obtain i n ps where
    r: "place_of (client_at s p) = Sits_in i" "room_of s i = Some (n, ps)"
    "\<forall>q. q \<in> ps \<longleftrightarrow> place_of (client_at s q) = Sits_in i" .
  then show ?thesis
    using fmt by (simp add: told_def told_accepted_def for_room_def state_error_def char_at_def command_codes)
qed

end
