(* ===== verification/Client_Properties.thy ===== *)
theory Client_Properties
  imports Samples Chat_Display
begin

text \<open>
  The properties of the chat client: what it sends is what the server accepts, and where it differs
  from the protocol.
\<close>

section \<open>Client to server\<close>

text \<open>
  C19: What the client lets through, the server carries out: a line of at most 127 characters that is
  not blank becomes one frame; if the client's flag agrees with the state of its slot and the
  slot's buffer is empty, the server takes exactly this frame from the stream, accepts it, and
  dispatches it, and nothing of it stays in the buffer.
\<close>

theorem client_requests_accepted:
  assumes "validate_and_format line MAX_MESSAGE_LEN_TO_SERVER a = Inr (Some msg, b)"
    and "length line < MAX_CONTENT_LEN" and "LF \<notin> set line" and "set line - {SPACE} \<noteq> {}"
    and "in_step a (cstate (client_at s p))" and "current_msg (client_at s p) = []"
  shows "\<exists>code content. msg = frame code content \<and>
    process_messages p msg s =
      res_bind (dispatch p (upd_client p (\<lambda>c. c\<lparr>current_msg := code # SPACE # content\<rparr>) s))
        (\<lambda>t. Inr (clear_msg p t))"
proof -
  have blank: "dropWhile (\<lambda>c. c = SPACE) line \<noteq> []" using assms(4) by (auto simp: dropWhile_eq_Nil_conv)
  from validate_Some [OF assms(1-3) blank] obtain code content where
    c: "msg = frame code content" "good_request code content a" .
  let ?s = "upd_client p (\<lambda>c. c\<lparr>current_msg := code # SPACE # content\<rparr>) s"
  from c(2) assms(5) have acc: "format_error (code # SPACE # content) = None"
    "state_error (cstate (client_at s p)) code = None" "LF \<notin> set content"
    by (simp_all add: good_request_def)
  have len: "length content \<le> MAX_CONTENT_LEN" using acc(1) by (auto simp: format_error_def split: if_splits)
  have code: "code \<noteq> LF"
    using acc(1) by (auto simp: format_error_def char_at_def char_val_def command_codes split: if_splits)
  have "route_client_command p ?s = dispatch p ?s"
    using acc by (simp add: route_client_command_def validate_msg_format_def
        command_valid_for_state_def char_at_def)
  with process_frame [OF assms(6) acc(3) code len, of "[]"] show ?thesis
    using c(1) by (auto simp: process_nothing)
qed

text \<open>
  C3: From the keyboard to the hall and back: a line of at most 127 characters that asks for something
  (\<open>requested\<close> reads it off the words of the line) makes the client send one frame; the server, when it
  handles the frame, does to the abstract hall what the request says, and answers the client with the frames the
  specification gives; and if the client's flag agreed with the server before, then after it has parsed these
  frames one by one it agrees again.
\<close>

theorem typed_line_takes_effect:
  assumes "is_running a" and "length line < MAX_CONTENT_LEN" and "LF \<notin> set line" and "set line - {SPACE} \<noteq> {}"
    and "\<forall>msg. sends msg = int (length msg)"
    and "requested (is_in_room a) line = Some (code, content)" and "code \<noteq> CMD_EXIT"
    and "table_inv s" and "sockets_differ s" and "c_in_use (client_at s p)"
    and "in_step a (cstate (client_at s p))" and "current_msg (client_at s p) = []"
    and "process_messages p (frame code content) s = Inr t"
  shows "\<exists>b new. send_command sends line a = Inr b \<and> to_server b = to_server a @ frame code content \<and>
    hall_of t = spec_message p (code # SPACE # content) (hall_of s) \<and>
    sent_frames (trace t) = sent_frames (trace s) @ new \<and>
    frames_to (client_fd (client_at s p)) new =
      told (cname (client_at s p)) p (code # SPACE # content) (hall_of s) p \<and>
    is_in_room (foldl (\<lambda>a f. parse_server_msg f a) b (frames_to (client_fd (client_at s p)) new)) =
      (\<exists>i. h_place (hall_of t) p = Sits_in i)"
proof -
  have good: "good_request code content a" by (rule requested_good [OF assms(6,2-4)])
  from assms(4) have "line \<noteq> []" by auto
  with send_request [OF assms(1,2) _ assms(5) [rule_format]] assms(6) obtain b where
    b: "send_command sends line a = Inr b" "is_in_room b = is_in_room a" "to_server b = to_server a @ frame code content"
    by auto
  note h = request_handled [OF good assms(11,8-10,12,13)]
  from h obtain new where new: "sent_frames (trace t) = sent_frames (trace s) @ new"
    "frames_to (client_fd (client_at s p)) new = told (cname (client_at s p)) p (code # SPACE # content) (hall_of s) p"
    using assms(10) unfolding tells_def frames_added_def by blast
  have fold: "is_in_room (foldl (\<lambda>a f. parse_server_msg f a) b fs) = view fs (is_in_room b)" for b fs
    by (induction fs arbitrary: b) (simp_all add: parse_in_room)
  have "is_in_room a = in_room s p" using assms(11) by (simp add: in_step_def in_room_def)
  with request_informs [OF good assms(11,12,7,13)] new(1) b(2)
  have "is_in_room (foldl (\<lambda>a f. parse_server_msg f a) b (frames_to (client_fd (client_at s p)) new)) = in_room t p"
    by (auto simp: follows_def fold)
  moreover have "in_room t p = (\<exists>i. h_place (hall_of t) p = Sits_in i)"
    by (auto simp: in_room_def place_of_def split: client_state.splits)
  ultimately show ?thesis using b h new by blast
qed

theorem typed_line_takes_effect_witness:
  "\<exists>t b new. process_messages ann (frame CMD_ROOM_CREATE_REQUEST ''tea'') (lobby_server []) = Inr t \<and>
    send_command (\<lambda>msg. int (length msg)) ''/create tea'' (idle_app False) = Inr b \<and>
    h_rooms (hall_of t) 0 = Some (''tea'', {ann}) \<and>
    frames_to 20 new = [frame CMD_ROOM_CREATE_OK (''Room created successfully: tea'' @ [LF])] \<and>
    is_in_room (foldl (\<lambda>a f. parse_server_msg f a) b (frames_to 20 new))"
proof -
  let ?s = "lobby_server []" and ?m = "CMD_ROOM_CREATE_REQUEST # '' tea''"
  let ?u = "upd_client ann (\<lambda>c. c\<lparr>current_msg := ?m\<rparr>) ?s"
  have req: "requested (is_in_room (idle_app False)) ''/create tea'' = Some (CMD_ROOM_CREATE_REQUEST, ''tea'')"
    by (simp add: requested_def char_at_def c_isspace_def)
  have d: "sockets_differ ?s" by (auto simp: sockets_differ_def split: if_splits)
  have "names_ok ?u" by (simp add: names_ok_def limits)
  moreover have "table_inv ?u" by (simp add: lobby_inv)
  moreover have "list_fits ?u" by (simp add: list_fits_def short_names_fit)
  ultimately have "returns (route_client_command ann ?u)" by (intro route_returns)
  then obtain v where "route_client_command ann ?u = Inr v" by (auto simp: returns_iff)
  with process_frame [of ?s ann "''tea''" CMD_ROOM_CREATE_REQUEST "[]"]
  have t: "process_messages ann (frame CMD_ROOM_CREATE_REQUEST ''tea'') ?s = Inr (clear_msg ann v)"
    by (simp add: process_nothing command_codes limits)
  have free: "free_number (hall_of ?s) = Some 0"
    unfolding free_number_hall by (simp add: first_index_Some limits)
  have wf: "format_error ?m = None" "state_error IN_CHAT_LOBBY CMD_ROOM_CREATE_REQUEST = None"
    by (simp_all add: format_error_def state_error_def char_at_def char_val_def command_codes limits)
  have "h_rooms (spec_message ann ?m (hall_of ?s)) 0 = Some (''tea'', {ann})"
    "h_place (spec_message ann ?m (hall_of ?s)) ann = Sits_in 0"
    using free by (simp_all add: spec_message_def spec_create_def char_at_def command_codes place_of_def limits)
  moreover have "told ''ann'' ann ?m (hall_of ?s) ann = [frame CMD_ROOM_CREATE_OK (''Room created successfully: tea'' @ [LF])]"
    using wf free by (simp add: told_def told_accepted_def told_create_def for_self_def char_at_def place_of_def
        created_prefix_def command_codes limits)
  ultimately show ?thesis
    using typed_line_takes_effect [where sends = "\<lambda>msg. int (length msg)", OF _ _ _ _ _ req _ lobby_inv d _ _ _ t] t
    by (fastforce simp: in_step_def limits command_codes)
qed

text \<open>
  C4: A chat line appears on every screen it is meant for: when a user in a room types a line that is not a
  command, its own window shows it after \<open>You:\<close>, the client sends one frame, and once the server has handled the frame and
  every client has shown what it was sent, the window of each other member of the room has got exactly one new
  text, the line after the name of the sender, and the windows of all other clients are as they were.
\<close>

theorem chat_line_is_shown:
  assumes "is_running a" and "is_in_room a" and "length line < MAX_CONTENT_LEN" and "LF \<notin> set line" and "NUL \<notin> set line"
    and "set line - {SPACE} \<noteq> {}" and "char_at line 0 \<noteq> CHR ''/''" and "line \<notin> {''HELP'', ''HELP!''}"
    and "\<forall>msg. sends msg = int (length msg)"
    and "table_inv s" and "sockets_differ s" and "c_in_use (client_at s p)" and "cstate (client_at s p) = IN_CHAT_ROOM"
    and "current_msg (client_at s p) = []" and "NUL \<notin> set (cname (client_at s p))"
    and "process_messages p (frame CMD_ROOM_MESSAGE_SEND line) s = Inr t"
  shows "\<exists>b new. input_round sends (Some line) a = Inr (True, b) \<and>
    shown b = shown a @ [(Msg_win, '' You: '' @ line @ [LF])] \<and>
    to_server b = to_server a @ frame CMD_ROOM_MESSAGE_SEND line \<and>
    sent_frames (trace t) = sent_frames (trace s) @ new \<and>
    (\<forall>q screen. c_in_use (client_at s q) \<longrightarrow>
      shown (foldl (\<lambda>a f. parse_server_msg f a) screen (frames_to (client_fd (client_at s q)) new)) =
        shown screen @ (if q \<noteq> p \<and> h_place (hall_of s) q = h_place (hall_of s) p
          then [(Msg_win, chat_text (cname (client_at s p)) line)] else []))"
proof -
  have line: "line \<noteq> []" using assms(6) by auto
  have req: "requested (is_in_room a) line = Some (CMD_ROOM_MESSAGE_SEND, line)"
    using assms(2,7) by (simp add: requested_def)
  have good: "good_request CMD_ROOM_MESSAGE_SEND line a" by (rule requested_good [OF req assms(3,4,6)])
  have step: "in_step a (cstate (client_at s p))" using assms(2,13) by (simp add: in_step_def)
  from request_handled [OF good step assms(10,11,12,14,16)] obtain new where
    new: "sent_frames (trace t) = sent_frames (trace s) @ new"
    "\<And>q. c_in_use (client_at s q) \<Longrightarrow> frames_to (client_fd (client_at s q)) new =
      told (cname (client_at s p)) p (CMD_ROOM_MESSAGE_SEND # SPACE # line) (hall_of s) q"
    unfolding tells_def frames_added_def by blast
  have fmt: "format_error (CMD_ROOM_MESSAGE_SEND # SPACE # line) = None"
    using good by (simp add: good_request_def)
  note told = chat_told [OF assms(10,13) fmt]
  have "shown (foldl (\<lambda>a f. parse_server_msg f a) screen (frames_to (client_fd (client_at s q)) new)) =
      shown screen @ (if q \<noteq> p \<and> h_place (hall_of s) q = h_place (hall_of s) p
        then [(Msg_win, chat_text (cname (client_at s p)) line)] else [])"
    if "c_in_use (client_at s q)" for q screen
    using parse_chat [OF assms(15,5)] unfolding new(2) [OF that] told by (simp add: ui_msg_display_def)
  with input_chat [OF assms(1-4) line assms(7,8) assms(9) [rule_format]] new(1) show ?thesis by blast
qed

theorem chat_line_is_shown_witness:
  "\<exists>t b new. process_messages ann (frame CMD_ROOM_MESSAGE_SEND ''hi'') (room_server []) = Inr t \<and>
    input_round (\<lambda>msg. int (length msg)) (Some ''hi'') (idle_app True) = Inr (True, b) \<and>
    shown b = [(Msg_win, '' You: hi'' @ [LF])] \<and>
    shown (foldl (\<lambda>a f. parse_server_msg f a) (idle_app True) (frames_to 21 new)) = [(Msg_win, ''  ann: hi'' @ [LF])]"
proof -
  let ?s = "room_server []" and ?m = "CMD_ROOM_MESSAGE_SEND # '' hi''"
  let ?u = "upd_client ann (\<lambda>c. c\<lparr>current_msg := ?m\<rparr>) ?s"
  have d: "sockets_differ ?s" by (auto simp: sockets_differ_def split: if_splits)
  have "table_inv ?u" "names_ok ?u" "list_fits ?u"
    using room_inv sample_fits(2) list_fits_state [of ?u ?s] by (simp_all add: names_ok_def limits)
  then have "returns (route_client_command ann ?u)" by (rule route_returns)
  then obtain v where "route_client_command ann ?u = Inr v" by (auto simp: returns_iff)
  with process_frame [of ?s ann "''hi''" CMD_ROOM_MESSAGE_SEND "[]"]
  have t: "process_messages ann (frame CMD_ROOM_MESSAGE_SEND ''hi'') ?s = Inr (clear_msg ann v)"
    by (simp add: process_nothing command_codes limits)
  have place: "h_place (hall_of ?s) ann = Sits_in 3" "h_place (hall_of ?s) bob = Sits_in 3"
    by (simp_all add: place_of_def)
  obtain b new where b: "input_round (\<lambda>msg. int (length msg)) (Some ''hi'') (idle_app True) = Inr (True, b)"
    "shown b = shown (idle_app True) @ [(Msg_win, '' You: '' @ ''hi'' @ [LF])]"
    "\<forall>q screen. c_in_use (client_at ?s q) \<longrightarrow>
      shown (foldl (\<lambda>a f. parse_server_msg f a) screen (frames_to (client_fd (client_at ?s q)) new)) =
        shown screen @ (if q \<noteq> ann \<and> h_place (hall_of ?s) q = h_place (hall_of ?s) ann
          then [(Msg_win, chat_text (cname (client_at ?s ann)) ''hi'')] else [])"
    using chat_line_is_shown [where sends = "\<lambda>msg. int (length msg)" and a = "idle_app True" and line = "''hi''",
      OF _ _ _ _ _ _ _ _ _ room_inv d _ _ _ _ t] by (auto simp: limits char_at_def simp del: hall_simps)
  from b(3) [THEN spec, of bob, THEN spec, of "idle_app True"]
  have "shown (foldl (\<lambda>a f. parse_server_msg f a) (idle_app True) (frames_to 21 new)) = [(Msg_win, ''  ann: hi'' @ [LF])]"
    by (simp add: place chat_text_def idle_app_def del: hall_simps)
  with b(1,2) t show ?thesis by (auto simp: idle_app_def)
qed

lemma format_message:
  assumes "is_running a" and "is_in_room a" and "char_at line 0 \<noteq> CHR ''/''"
    and "length line \<le> MAX_CONTENT_LEN"
  shows "validate_and_format line MAX_MESSAGE_LEN_TO_SERVER a =
    Inr (Some (take 131 (frame CMD_ROOM_MESSAGE_SEND line)), a)"
  using assms
  by (simp add: validate_and_format_def snprintf_def frame_def MSG_TERMINATOR_def command_codes limits)

theorem client_requests_accepted_witness:
  "\<exists>code content. frame CMD_ROOM_MESSAGE_SEND ''hi'' = frame code content \<and>
    process_messages ann (frame CMD_ROOM_MESSAGE_SEND ''hi'') (room_server []) =
      res_bind (dispatch ann (upd_client ann (\<lambda>c. c\<lparr>current_msg := code # SPACE # content\<rparr>) (room_server [])))
        (\<lambda>t. Inr (clear_msg ann t))"
proof (rule client_requests_accepted)
  show "validate_and_format ''hi'' MAX_MESSAGE_LEN_TO_SERVER (idle_app True) =
      Inr (Some (frame CMD_ROOM_MESSAGE_SEND ''hi''), idle_app True)"
    by (subst format_message) (simp_all add: char_at_def limits)
qed (simp_all add: in_step_def limits)

text \<open>
  A user name that passes the client's tests is one the server takes: the frame has the format,
  the command is allowed before a name is set, and the name is within the server's limit.
\<close>

lemma client_names_accepted:
  assumes "username_error name = None" and "LF \<notin> set name"
  shows "format_error (CMD_USERNAME_SUBMIT # SPACE # name) = None \<and>
    state_error AWAITING_USERNAME CMD_USERNAME_SUBMIT = None \<and> length name < MAX_USERNAME_LEN"
proof -
  have strip: "strip_newline name = name"
    using assms(2) unfolding strip_newline_def by (subst takeWhile_eq_all_conv) auto
  from assms(1) have n: "length name < MAX_USERNAME_LEN" "name \<noteq> []" "\<not> list_ex c_isspace name"
    by (auto simp: username_error_def strip Let_def limits split: if_splits)
  then have w: "is_word name" by (auto simp: is_word_def list_ex_iff)
  have "format_error (CMD_USERNAME_SUBMIT # SPACE # name) = None"
    by (rule format_ok) (use n word_not_blank [OF w] in \<open>simp_all add: is_command_def limits\<close>)
  with n show ?thesis by (simp add: state_error_def)
qed

lemma client_names_accepted_witness:
  "format_error (CMD_USERNAME_SUBMIT # SPACE # ''ann'') = None \<and>
    state_error AWAITING_USERNAME CMD_USERNAME_SUBMIT = None \<and> length ''ann'' < MAX_USERNAME_LEN"
  by (rule client_names_accepted)
    (simp_all add: username_error_def strip_newline_def c_isspace_def limits)

text \<open>
  Typing /exit sends one EXIT frame, stops the client and closes its socket, in a room and out
  of one, when the kernel takes the whole frame.
\<close>

lemma exit_stops_client:
  assumes "is_running a" and "sends (frame CMD_EXIT ''dummy'') = int (length (frame CMD_EXIT ''dummy''))"
  shows "\<exists>b. input_round sends (Some ''/exit'') a = Inr (False, b) \<and>
    to_server b = to_server a @ frame CMD_EXIT ''dummy'' \<and> \<not> is_running b \<and> \<not> socket_open b"
proof -
  let ?a = "ui_input_prompt ''> '' a"
  have "send_command sends ''/exit'' ?a =
      Inr (?a\<lparr>to_server := to_server ?a @ frame CMD_EXIT ''dummy''\<rparr>)"
    by (rule send_exit) (use assms in simp_all)
  then show ?thesis
    using assms(1)
    by (simp add: input_round_def input_line_def read_line_def strip_newline_def exit_client_def limits)
qed

lemma exit_stops_client_witness:
  "\<exists>b. input_round (\<lambda>m. int (length m)) (Some ''/exit'') (idle_app True) = Inr (False, b) \<and>
    to_server b = frame CMD_EXIT ''dummy''"
  using exit_stops_client [of "idle_app True" "\<lambda>m. int (length m)"] by (auto simp:)

section \<open>Where the client fails\<close>

text \<open>
  C33: A message of exactly 128 characters, which the client's test admits and its error text
  promises, is sent without its terminator: \<open>snprintf\<close> into 132 bytes cuts off the LF, and the
  server keeps waiting for the end of the message.
\<close>

theorem longest_message_unterminated:
  assumes "is_running a" and "is_in_room a" and "length line = MAX_CONTENT_LEN"
    and "LF \<notin> set line" and "char_at line 0 \<noteq> CHR ''/''"
  shows "\<exists>msg. validate_and_format line MAX_MESSAGE_LEN_TO_SERVER a = Inr (Some msg, a) \<and>
    length msg = 131 \<and> split_crlf msg = None"
proof -
  have m: "take 131 (frame CMD_ROOM_MESSAGE_SEND line) = CMD_ROOM_MESSAGE_SEND # SPACE # line @ [CR]"
    using assms(3) by (simp add: frame_def MSG_TERMINATOR_def limits)
  have "split_crlf (CMD_ROOM_MESSAGE_SEND # SPACE # line @ [CR]) = None"
    by (rule split_crlf_None) (use assms(4) in \<open>simp add: command_codes\<close>)
  with m format_message [OF assms(1,2,5)] assms(3) show ?thesis by (simp add: limits)
qed

theorem longest_message_unterminated_witness:
  "\<exists>msg. validate_and_format (replicate 128 CHR ''x'') MAX_MESSAGE_LEN_TO_SERVER (idle_app True) =
      Inr (Some msg, idle_app True) \<and> length msg = 131 \<and> split_crlf msg = None"
  by (rule longest_message_unterminated) (simp_all add: limits char_at_def)

text \<open>
  A line of 128 characters or more overruns the 128-byte buffer of the input thread: the limit
  given to \<open>wgetnstr\<close> is the size of the buffer and leaves no room for the NUL.
\<close>

lemma input_line_overflow:
  assumes "is_running a" and "MAX_CONTENT_LEN \<le> length line"
  shows "input_round sends (Some line) a = Inl (Overflow Command_buf)"
  using assms by (simp add: input_round_def input_line_def ui_input_prompt_def read_line_def c_store_def)

text \<open>
  C34: Two frames that one \<open>recv\<close> delivers together are taken for one: after a chat message, the
  confirmation that the client has left its room is shown as text, and the client goes on
  believing that it is in the room.
\<close>

theorem coalesced_reply_is_missed:
  assumes "is_running a" and "length m + length n + 8 < MAX_MESSAGE_LEN_FROM_SERVER"
  shows "\<exists>b. recv_round (Recv_bytes (frame CMD_ROOM_MSG m @ frame CMD_ROOM_LEAVE_OK n)) a = Inr (True, b) \<and>
    is_in_room b = is_in_room a \<and>
    \<not> is_in_room (parse_server_msg (frame CMD_ROOM_LEAVE_OK n) (parse_server_msg (frame CMD_ROOM_MSG m) a))"
proof -
  have code: "char_at (frame CMD_ROOM_MSG m @ x) 0 = CMD_ROOM_MSG" for x
    by (simp add: frame_def char_at_def)
  have "take (MAX_MESSAGE_LEN_FROM_SERVER - 1) (frame CMD_ROOM_MSG m @ frame CMD_ROOM_LEAVE_OK n) =
      frame CMD_ROOM_MSG m @ frame CMD_ROOM_LEAVE_OK n"
    using assms(2) by (simp add: limits)
  moreover have "\<not> reply_effect CMD_ROOM_LEAVE_OK x" for x
    by (simp add: reply_effect_def reply_codes)
  ultimately show ?thesis
    using assms(1) by (simp add: recv_round_def recv_chunk_def parse_in_room code del: take_append)
qed

theorem coalesced_reply_is_missed_witness:
  "\<exists>b. recv_round (Recv_bytes (frame CMD_ROOM_MSG ''hi'' @ frame CMD_ROOM_LEAVE_OK ''left'')) (idle_app True) =
      Inr (True, b) \<and> is_in_room b"
  using coalesced_reply_is_missed [of "idle_app True" "''hi''" "''left''"] by (auto simp: limits)

end
