(* ===== verification/Sockets.thy ===== *)
theory Sockets
  imports Prelude "HOL-Library.Word"
begin

text \<open>
  What the server and the client need in order to meet: the socket calls of \<open>setup_server\<close>
  (\<open>server/main.c\<close>) and of \<open>connect_to_server\<close> (\<open>client/main.c\<close>), with the conversions of a port
  number (\<open>htons\<close>) and of an address (\<open>inet_pton\<close>). What each call returns is a function of
  the call, an argument of the model.
\<close>

unbundle bit_operations_syntax

section \<open>Addresses\<close>

text \<open>\<open>htons\<close> takes a \<open>uint16_t\<close>, to which C converts the \<open>int\<close> it is given, and swaps the two bytes:
  the platform is little-endian.\<close>

definition htons :: "int \<Rightarrow> 16 word" where
  "htons port = (let p = (word_of_int port :: 16 word) in push_bit 8 p OR drop_bit 8 p)"

text \<open>The port that a field \<open>sin_port\<close> stands for in the network.\<close>

definition port_of :: "16 word \<Rightarrow> nat" where
  "port_of p = unat (push_bit 8 p OR drop_bit 8 p)"

lemma swap_bytes: "push_bit 8 (push_bit 8 p OR drop_bit 8 p) OR drop_bit 8 (push_bit 8 p OR drop_bit 8 p) = p"
  for p :: "16 word"
proof (rule bit_word_eqI)
  fix n assume n: "n < LENGTH(16)"
  show "bit (push_bit 8 (push_bit 8 p OR drop_bit 8 p) OR drop_bit 8 (push_bit 8 p OR drop_bit 8 p)) n = bit p n"
  proof (cases "8 \<le> n")
    case True
    then have "n - 8 < 8" "\<not> bit p (8 + n)" using n by (auto simp: bit_imp_le_length dest: bit_imp_le_length)
    with True n show ?thesis by (simp add: bit_or_iff bit_push_bit_iff bit_drop_bit_eq)
  next
    case False
    then have "n < 8" by simp
    then show ?thesis by (simp add: bit_or_iff bit_push_bit_iff bit_drop_bit_eq)
  qed
qed

lemma port_of_htons: "port_of (htons port) = nat (port mod 2 ^ 16)"
proof -
  have "port_of (htons port) = unat (word_of_int port :: 16 word)"
    by (simp only: port_of_def htons_def Let_def swap_bytes)
  then show ?thesis by (simp add: unat_eq_nat_uint uint_word_of_int)
qed

lemma htons_eq: "htons a = htons b \<longleftrightarrow> a mod 2 ^ 16 = b mod 2 ^ 16"
proof
  assume "htons a = htons b"
  then have "nat (a mod 2 ^ 16) = nat (b mod 2 ^ 16)" by (metis port_of_htons)
  moreover have "0 \<le> a mod 2 ^ 16" "0 \<le> b mod 2 ^ 16" by simp_all
  ultimately show "a mod 2 ^ 16 = b mod 2 ^ 16" by (simp only: eq_nat_nat_iff)
next
  assume "a mod 2 ^ 16 = b mod 2 ^ 16"
  then have "(word_of_int a :: 16 word) = word_of_int b" by (simp add: word_of_int_eq_iff take_bit_eq_mod)
  then show "htons a = htons b" by (simp add: htons_def)
qed

text \<open>
  \<open>inet_pton (AF_INET, ..)\<close>: four decimal numbers up to 255 between dots, none with a leading zero. The
  octets read so far are kept in reverse, the flag says that the last one has a digit. None is
  the answer 0, on which nothing is stored.
\<close>

fun pton_loop :: "nat list \<Rightarrow> bool \<Rightarrow> string \<Rightarrow> nat list option" where
  "pton_loop os digit [] = (if length os = 4 \<and> digit then Some (rev os) else None)"
| "pton_loop os digit (c # cs) =
     (if c_isdigit c then
        (let d = nat (digit_val c) in
         if digit then
           (case os of
              [] \<Rightarrow> None
            | b # r \<Rightarrow> if b = 0 \<or> 255 < b * 10 + d then None else pton_loop ((b * 10 + d) # r) True cs)
         else if length os = 4 then None else pton_loop (d # os) True cs)
      else if c = CHR ''.'' \<and> digit \<and> length os < 4 then pton_loop os False cs
      else None)"

definition inet_pton :: "string \<Rightarrow> nat list option" where
  "inet_pton str = pton_loop [] False str"

definition INADDR_ANY :: "nat list" where "INADDR_ANY = [0, 0, 0, 0]"

lemma pton_octets:
  "pton_loop os digit str = Some a \<Longrightarrow> \<forall>x \<in> set os. x \<le> 255 \<Longrightarrow> length a = 4 \<and> (\<forall>x \<in> set a. x \<le> 255)"
proof (induction os digit str rule: pton_loop.induct)
  case (1 os digit)
  then show ?case by (auto split: if_splits)
next
  case (2 os digit c cs)
  show ?case
  proof (cases "c_isdigit c")
    case True
    then have d: "nat (digit_val c) \<le> 9" using digit_val_bounds [OF True] by (simp add: nat_le_iff)
    show ?thesis
    proof (cases digit)
      case True
      with 2 \<open>c_isdigit c\<close> show ?thesis by (auto simp: Let_def split: list.splits if_splits)
    next
      case False
      with 2 \<open>c_isdigit c\<close> d show ?thesis by (auto simp: Let_def split: if_splits)
    qed
  next
    case False
    with 2 show ?thesis by (auto split: if_splits)
  qed
qed

section \<open>Calls\<close>

text \<open>The calls with the arguments that matter: sockets, the two fields of a \<open>sockaddr_in\<close> (address
  and \<open>sin_port\<close>), the length of the queue.\<close>

datatype os_call =
    Os_socket
  | Os_reuse_address int
  | Os_bind int "nat list" "16 word"
  | Os_listen int int
  | Os_connect int "nat list" "16 word"
  | Os_close int

text \<open>A sequence of calls that each end the process with a message when they return -1. The result
  is the calls that were made and the message, if any.\<close>

fun call_all :: "(os_call \<Rightarrow> int) \<Rightarrow> (os_call \<times> string) list \<Rightarrow> os_call list \<times> string option" where
  "call_all os [] = ([], None)"
| "call_all os ((c, msg) # cs) =
     (if os c = -1 then ([c], Some msg)
      else (case call_all os cs of (made, r) \<Rightarrow> (c # made, r)))"

section \<open>The listening socket\<close>

definition PORT_NUMBER :: int where "PORT_NUMBER = 30000"

definition setup_server :: "(os_call \<Rightarrow> int) \<Rightarrow> int \<Rightarrow> int \<Rightarrow> os_call list \<times> (string + int)" where
  "setup_server os port_number backlog =
     (let server_fd = os Os_socket in
      if server_fd = -1 then ([Os_socket], Inl ''Socket creation failed'')
      else
        (case call_all os
           [(Os_reuse_address server_fd, ''setsockopt failed''),
            (Os_bind server_fd INADDR_ANY (htons port_number), ''Bind failed''),
            (Os_listen server_fd backlog, ''Listen call failed'')] of
           (made, Some msg) \<Rightarrow> (Os_socket # made, Inl msg)
         | (made, None) \<Rightarrow> (Os_socket # made, Inr server_fd)))"

lemma call_all_prefix: "\<exists>n. fst (call_all os cs) = take n (List.map fst cs)"
proof (induction cs)
  case Nil
  show ?case by simp
next
  case (Cons x cs)
  obtain c msg where x: "x = (c, msg)" by (cases x)
  from Cons.IH obtain n where n: "fst (call_all os cs) = take n (List.map fst cs)" by blast
  show ?case
  proof (cases "os c = -1")
    case True
    then show ?thesis by (intro exI [of _ 1]) (simp add: x)
  next
    case False
    with n show ?thesis by (intro exI [of _ "Suc n"]) (simp add: x split_beta)
  qed
qed

lemma call_all_ok: "snd (call_all os cs) = None \<longleftrightarrow> (\<forall>c \<in> set cs. os (fst c) \<noteq> -1)"
  by (induction os cs rule: call_all.induct) (simp_all add: split_beta)

lemma call_all_none: "snd (call_all os cs) = None \<Longrightarrow> fst (call_all os cs) = List.map fst cs"
  by (induction os cs rule: call_all.induct) (auto simp: split_beta split: if_splits)

section \<open>The connection of a client\<close>

text \<open>\<open>connect_to_server\<close>; the address keeps the zeros of \<open>memset\<close> when \<open>inet_pton\<close> takes nothing,
  its answer is not looked at. None is \<open>exit (1)\<close>.\<close>

definition connect_to_server :: "(os_call \<Rightarrow> int) \<Rightarrow> string \<Rightarrow> int \<Rightarrow> os_call list \<times> int option" where
  "connect_to_server os server_ip port =
     (let socket_fd = os Os_socket in
      if socket_fd < 0 then ([Os_socket], None)
      else
        (let addr = (case inet_pton server_ip of Some a \<Rightarrow> a | None \<Rightarrow> [0, 0, 0, 0]);
             c = Os_connect socket_fd addr (htons port) in
         if os c < 0 then ([Os_socket, c, Os_close socket_fd], None)
         else ([Os_socket, c], Some socket_fd)))"

end
