(* ===== verification/Logger.thy ===== *)
theory Logger
  imports Prelude
begin

text \<open>
  \<open>server/logger.c\<close> and \<open>server/logger.h\<close>: a line of the log with its time stamp, the mutex that
  keeps the lines of different threads apart, the macros that are empty unless \<open>LOG\<close> is defined,
  and \<open>print_erro_n_exit\<close>.
\<close>

section \<open>A line of the log\<close>

abbreviation ESC :: char where "ESC \<equiv> CHR 0x1B"

definition ANSI_RED :: string where "ANSI_RED = ESC # ''[31m''"
definition ANSI_GREEN :: string where "ANSI_GREEN = ESC # ''[32m''"
definition ANSI_MAGENTA :: string where "ANSI_MAGENTA = ESC # ''[35m''"
definition ANSI_CYAN :: string where "ANSI_CYAN = ESC # ''[36m''"
definition ANSI_RESET :: string where "ANSI_RESET = ESC # ''[0m''"
definition ANSI_BOLD :: string where "ANSI_BOLD = ESC # ''[1m''"
definition ANSI_YELLOW :: string where "ANSI_YELLOW = ESC # ''[33m''"

lemmas ansi_defs = ANSI_RED_def ANSI_GREEN_def ANSI_MAGENTA_def ANSI_CYAN_def ANSI_RESET_def
  ANSI_BOLD_def ANSI_YELLOW_def

text \<open>The part of \<open>struct tm\<close> that is printed: the year since 1900, the month from 0.\<close>

record tm =
  tm_year :: int
  tm_mon :: nat
  tm_mday :: nat
  tm_hour :: nat
  tm_min :: nat
  tm_sec :: nat

definition tm_ok :: "tm \<Rightarrow> bool" where
  "tm_ok t \<longleftrightarrow> \<bar>tm_year t\<bar> \<le> 2 ^ 31 \<and> tm_mon t < 12 \<and> tm_mday t < 32 \<and> tm_hour t < 24 \<and>
     tm_min t < 60 \<and> tm_sec t < 62"

definition two_digits :: "nat \<Rightarrow> string" where
  "two_digits n = (if n < 10 then ''0'' @ dec_digits n else dec_digits n)"

text \<open>\<open>strftime (.., "%Y:%m:%d:%T", ..)\<close>.\<close>

definition time_stamp :: "tm \<Rightarrow> string" where
  "time_stamp t = signed_digits (tm_year t + 1900) @ '':'' @ two_digits (tm_mon t + 1) @ '':'' @
     two_digits (tm_mday t) @ '':'' @ two_digits (tm_hour t) @ '':'' @ two_digits (tm_min t) @ '':'' @
     two_digits (tm_sec t)"

text \<open>The three bytes of the vertical bar in UTF-8.\<close>

definition bar :: string where "bar = [CHR 0xE2, CHR 0x95, CHR 0x91]"

text \<open>
  What \<open>log_message\<close> prints between taking the mutex and giving it back: three calls of \<open>printf\<close>. \<open>now\<close>
  is None where \<open>localtime_r\<close> fails; \<open>body\<close> is what the format and its arguments make.
\<close>

definition log_pieces :: "tm option \<Rightarrow> nat \<Rightarrow> string \<Rightarrow> string list" where
  "log_pieces now tid body =
     [case now of
        Some t \<Rightarrow> ANSI_MAGENTA @ bar @ ANSI_RESET @ '' '' @ ANSI_BOLD @ ANSI_CYAN @ time_stamp t @
          ANSI_RESET @ '' '' @ ANSI_MAGENTA @ bar @ ANSI_RESET @ '' ''
      | None \<Rightarrow> ''localtime_r error'' @ [LF],
      ESC # ''[95;2m'' @ ''[TID- '' @ dec_digits tid @ '']'' @ ANSI_RESET @ '' '',
      body]"

definition log_line :: "tm option \<Rightarrow> nat \<Rightarrow> string \<Rightarrow> string" where
  "log_line now tid body = concat (log_pieces now tid body)"

text \<open>The macros: the level puts a coloured word before the format; without \<open>LOG\<close> they are empty.\<close>

datatype log_level = LOG_SERVER_ERROR | LOG_INFO | LOG_USER_ERROR | LOG_CLIENT_DISCONNECT

fun level_prefix :: "log_level \<Rightarrow> string" where
  "level_prefix LOG_SERVER_ERROR = ANSI_BOLD @ ANSI_RED @ ''SERVER ERROR: ''"
| "level_prefix LOG_INFO = ANSI_BOLD @ ANSI_GREEN @ ''INFO: ''"
| "level_prefix LOG_USER_ERROR = ANSI_BOLD @ ANSI_YELLOW @ ''USER ERROR: ''"
| "level_prefix LOG_CLIENT_DISCONNECT = ANSI_BOLD @ ANSI_CYAN @ ''CLIENT DISCONNECTED: ''"

definition log_macro :: "bool \<Rightarrow> log_level \<Rightarrow> string \<Rightarrow> string option" where
  "log_macro log_defined level body =
     (if log_defined then Some (level_prefix level @ body @ ANSI_RESET) else None)"

text \<open>\<open>print_erro_n_exit\<close>: what goes to \<open>stderr\<close> before \<open>exit (EXIT_FAILURE)\<close>; \<open>strerror\<close> is the table
  of messages of the C library.\<close>

definition print_erro_n_exit :: "(int \<Rightarrow> string) \<Rightarrow> int \<Rightarrow> string \<Rightarrow> string" where
  "print_erro_n_exit strerror errno msg =
     (if errno \<noteq> 0 then msg @ '': '' @ strerror errno @ [LF] else msg @ [LF])"

section \<open>The time stamp fits its buffer\<close>

lemma length_digits: "n < 10 ^ Suc k \<Longrightarrow> length (dec_digits n) \<le> Suc k"
proof (induction k arbitrary: n)
  case 0
  then show ?case by (simp add: dec_digits_1)
next
  case (Suc k)
  show ?case
  proof (cases "n < 10")
    case True
    then show ?thesis by (simp add: dec_digits_1)
  next
    case False
    from Suc.prems have "n div 10 < 10 ^ Suc k" by (simp add: less_mult_imp_div_less)
    with Suc.IH have "length (dec_digits (n div 10)) \<le> Suc k" by blast
    with False show ?thesis by (subst dec_digits.simps) simp
  qed
qed

lemma length_two_digits: "n < 100 \<Longrightarrow> length (two_digits n) = 2"
  by (simp add: two_digits_def length_dec_digits)

lemma length_year:
  assumes "\<bar>i\<bar> < 10 ^ 10"
  shows "length (signed_digits i) \<le> 11"
proof -
  have "nat (- i) < 10 ^ Suc 9" "nat i < 10 ^ Suc 9" using assms by simp_all
  from length_digits [OF this(1)] length_digits [OF this(2)] show ?thesis
    by (simp add: signed_digits_def)
qed

text \<open>The buffer of \<open>log_message\<close> has 200 bytes; a time stamp takes at most 27 with its NUL.\<close>

lemma time_stamp_fits: "tm_ok t \<Longrightarrow> length (time_stamp t) < 27"
proof -
  assume t: "tm_ok t"
  then have "\<bar>tm_year t + 1900\<bar> < 10 ^ 10" by (auto simp: tm_ok_def)
  from length_year [OF this] show ?thesis
    using t by (simp add: tm_ok_def time_stamp_def length_two_digits)
qed

section \<open>Threads that log\<close>

text \<open>
  A thread that calls \<open>log_message\<close> waits for the mutex, prints its pieces one call at a time, and
  gives the mutex back. Between any two of these steps other threads can take theirs.
\<close>

datatype log_pc = Log_idle | Log_waits "string list" | Log_prints "string list"

record logger =
  log_mutex :: "nat option"
  log_out :: string
  log_pcs :: "nat \<Rightarrow> log_pc"

definition set_log_pc :: "nat \<Rightarrow> log_pc \<Rightarrow> logger \<Rightarrow> logger" where
  "set_log_pc i c l = l\<lparr>log_pcs := (log_pcs l)(i := c)\<rparr>"

inductive log_step :: "logger \<Rightarrow> logger \<Rightarrow> bool" where
  log_calls: "log_pcs l i = Log_idle \<Longrightarrow>
    log_step l (set_log_pc i (Log_waits (log_pieces now i body)) l)"
| log_locks: "log_pcs l i = Log_waits ps \<Longrightarrow> log_mutex l = None \<Longrightarrow>
    log_step l (set_log_pc i (Log_prints ps) (l\<lparr>log_mutex := Some i\<rparr>))"
| log_prints: "log_pcs l i = Log_prints (p # ps) \<Longrightarrow>
    log_step l (set_log_pc i (Log_prints ps) (l\<lparr>log_out := log_out l @ p\<rparr>))"
| log_unlocks: "log_pcs l i = Log_prints [] \<Longrightarrow>
    log_step l (set_log_pc i Log_idle (l\<lparr>log_mutex := None\<rparr>))"

inductive_cases log_stepE: "log_step l m"

definition log_start :: logger where
  "log_start = \<lparr>log_mutex = None, log_out = [], log_pcs = (\<lambda>_. Log_idle)\<rparr>"

definition is_line :: "string \<Rightarrow> bool" where
  "is_line str \<longleftrightarrow> (\<exists>now tid body. str = log_line now tid body)"

definition holds_log :: "log_pc \<Rightarrow> bool" where
  "holds_log c \<longleftrightarrow> (\<exists>ps. c = Log_prints ps)"

lemma holds_log_simps [simp]: "holds_log (Log_prints ps)" "\<not> holds_log Log_idle" "\<not> holds_log (Log_waits ps)"
  by (simp_all add: holds_log_def)

lemma set_log_pc_simps [simp]:
  "log_mutex (set_log_pc i c l) = log_mutex l" "log_out (set_log_pc i c l) = log_out l"
  "log_pcs (set_log_pc i c l) j = (if j = i then c else log_pcs l j)"
  by (simp_all add: set_log_pc_def)

text \<open>What has been printed: whole lines, and the beginning of the line of the thread that has the
  mutex; who waits, waits with a whole line.\<close>

definition begun :: "logger \<Rightarrow> string \<Rightarrow> bool" where
  "begun l cur \<longleftrightarrow>
     (case log_mutex l of
        None \<Rightarrow> cur = []
      | Some i \<Rightarrow> (\<forall>ps. log_pcs l i = Log_prints ps \<longrightarrow> is_line (cur @ concat ps)))"

definition lines_then :: "string \<Rightarrow> string \<Rightarrow> bool" where
  "lines_then out cur \<longleftrightarrow> (\<exists>ls. out = concat ls @ cur \<and> (\<forall>x \<in> set ls. is_line x))"

definition log_inv :: "logger \<Rightarrow> bool" where
  "log_inv l \<longleftrightarrow>
     (\<forall>i ps. log_pcs l i = Log_waits ps \<longrightarrow> is_line (concat ps)) \<and>
     (\<forall>i. holds_log (log_pcs l i) \<longleftrightarrow> log_mutex l = Some i) \<and>
     (\<exists>cur. lines_then (log_out l) cur \<and> begun l cur)"

lemma log_invI:
  assumes "\<And>i ps. log_pcs l i = Log_waits ps \<Longrightarrow> is_line (concat ps)"
    and "\<And>i. holds_log (log_pcs l i) \<longleftrightarrow> log_mutex l = Some i"
    and "lines_then (log_out l) cur" and "begun l cur"
  shows "log_inv l"
  using assms unfolding log_inv_def by blast

lemma lines_then_more: "lines_then out cur \<Longrightarrow> lines_then (out @ p) (cur @ p)"
  by (auto simp: lines_then_def)

lemma lines_then_line: "lines_then out cur \<Longrightarrow> is_line cur \<Longrightarrow> lines_then out []"
proof -
  assume "lines_then out cur" "is_line cur"
  then obtain ls where "out = concat (ls @ [cur]) \<and> (\<forall>x \<in> set (ls @ [cur]). is_line x)"
    by (auto simp: lines_then_def)
  then show ?thesis unfolding lines_then_def by (intro exI [of _ "ls @ [cur]"]) simp
qed

lemma log_start_inv: "log_inv log_start"
  by (rule log_invI [of _ "[]"])
    (auto simp: log_start_def begun_def lines_then_def intro: exI [of _ "[]"])

lemma is_line_pieces: "is_line (concat (log_pieces now i body))"
  by (auto simp: is_line_def log_line_def)

lemma log_step_inv: "log_step l m \<Longrightarrow> log_inv l \<Longrightarrow> log_inv m"
proof (induction rule: log_step.induct)
  case (log_calls l i now body)
  let ?m = "set_log_pc i (Log_waits (log_pieces now i body)) l"
  from log_calls obtain cur where l: "\<And>i ps. log_pcs l i = Log_waits ps \<Longrightarrow> is_line (concat ps)"
    "\<And>i. holds_log (log_pcs l i) \<longleftrightarrow> log_mutex l = Some i" "lines_then (log_out l) cur" "begun l cur"
    unfolding log_inv_def by blast
  have i: "log_mutex l \<noteq> Some i" using l(2) [of i] log_calls by simp
  then have "begun ?m cur" using l(4) by (auto simp: begun_def split: option.splits)
  with l i show ?case by (intro log_invI [of _ cur]) (auto simp: is_line_pieces split: if_splits)
next
  case (log_locks l i ps)
  let ?m = "set_log_pc i (Log_prints ps) (l\<lparr>log_mutex := Some i\<rparr>)"
  from log_locks obtain cur where l: "\<And>i ps. log_pcs l i = Log_waits ps \<Longrightarrow> is_line (concat ps)"
    "\<And>i. holds_log (log_pcs l i) \<longleftrightarrow> log_mutex l = Some i" "lines_then (log_out l) []"
    unfolding log_inv_def begun_def by auto
  have "begun ?m []" using l(1) log_locks(1) by (auto simp: begun_def)
  with l log_locks(2) show ?case by (intro log_invI [of _ "[]"]) (auto split: if_splits)
next
  case (log_prints l i p ps)
  let ?m = "set_log_pc i (Log_prints ps) (l\<lparr>log_out := log_out l @ p\<rparr>)"
  from log_prints obtain cur where l: "\<And>i ps. log_pcs l i = Log_waits ps \<Longrightarrow> is_line (concat ps)"
    "\<And>i. holds_log (log_pcs l i) \<longleftrightarrow> log_mutex l = Some i" "lines_then (log_out l) cur" "begun l cur"
    unfolding log_inv_def by blast
  have m: "log_mutex l = Some i" using l(2) [of i] log_prints(1) by simp
  then have "begun ?m (cur @ p)" using l(4) log_prints(1) by (auto simp: begun_def)
  with l m show ?case
    by (intro log_invI [of _ "cur @ p"]) (auto simp: lines_then_more split: if_splits)
next
  case (log_unlocks l i)
  let ?m = "set_log_pc i Log_idle (l\<lparr>log_mutex := None\<rparr>)"
  from log_unlocks obtain cur where l: "\<And>i ps. log_pcs l i = Log_waits ps \<Longrightarrow> is_line (concat ps)"
    "\<And>i. holds_log (log_pcs l i) \<longleftrightarrow> log_mutex l = Some i" "lines_then (log_out l) cur" "begun l cur"
    unfolding log_inv_def by blast
  have m: "log_mutex l = Some i" using l(2) [of i] log_unlocks(1) by simp
  then have "is_line cur" using l(4) log_unlocks(1) by (auto simp: begun_def)
  with l(3) have "lines_then (log_out l) []" by (rule lines_then_line)
  with l m show ?case by (intro log_invI [of _ "[]"]) (auto simp: begun_def split: if_splits)
qed

lemma log_steps_inv: "log_step\<^sup>*\<^sup>* l m \<Longrightarrow> log_inv l \<Longrightarrow> log_inv m"
  by (induction rule: rtranclp_induct) (auto intro: log_step_inv)

end
