(* ===== verification/Server_Boot.thy ===== *)
theory Server_Boot
  imports Sockets Logger Fine_System
begin

text \<open>
  The start of the server process (\<open>main\<close> in \<open>server/main.c\<close>): the rooms, the worker threads, then the
  listening socket. Every failure ends the process through \<open>print_erro_n_exit\<close>.
\<close>

text \<open>The calls on the socket that were made, and the listening socket with the state in which
  the accept loop begins, or None when the process has ended.\<close>

definition server_boot ::
    "(os_call \<Rightarrow> int) \<Rightarrow> (nat \<Rightarrow> bool) \<Rightarrow> (nat \<Rightarrow> int) \<Rightarrow> (nat \<Rightarrow> bool) \<Rightarrow> int \<Rightarrow> server \<Rightarrow>
     os_call list \<times> (int \<times> server) option" where
  "server_boot os mutex_ok fds inits_ok backlog s =
     (if \<not> list_all mutex_ok [0..<MAX_ROOMS] then ([], None)
      else
        (case setup_threads fds inits_ok (init_server_rooms s) of
           None \<Rightarrow> ([], None)
         | Some t \<Rightarrow>
             (case setup_server os PORT_NUMBER backlog of
                (made, Inl msg) \<Rightarrow> (made, None)
              | (made, Inr fd) \<Rightarrow> (made, Some (fd, t)))))"

lemma setup_server_listens:
  assumes "setup_server os port backlog = (made, Inr fd)"
  shows "made = [Os_socket, Os_reuse_address fd, Os_bind fd INADDR_ANY (htons port), Os_listen fd backlog]"
    and "fd = os Os_socket \<and> fd \<noteq> -1"
  using assms by (auto simp: setup_server_def Let_def split: if_splits)

lemma setup_server_fails:
  assumes "setup_server os port backlog = (made, Inl msg)"
  shows "made \<noteq> [] \<and> os (last made) = -1 \<and> (\<forall>c \<in> set (butlast made). os c \<noteq> -1)"
  using assms by (auto simp: setup_server_def Let_def split: if_splits)

lemma boot_Some:
  assumes "server_boot os mutex_ok fds inits_ok backlog s = (made, Some (fd, t))"
  shows "setup_threads fds inits_ok (init_server_rooms s) = Some t"
    and "setup_server os PORT_NUMBER backlog = (made, Inr fd)"
  using assms by (auto simp: server_boot_def split: if_splits option.splits prod.splits sum.splits)

end
