(* ===== verification/Client_Threads.thy ===== *)
theory Client_Threads
  imports Client_Messages Sockets
begin

text \<open>
  The process of the chat client from \<open>main\<close> on (\<open>client/main.c\<close>): the connection, the windows, the user
  name, then the input thread and the receiving thread side by side, and the end. Each thread first tests
  \<open>is_running\<close> under its mutex and then works on what it reads, a line or a chunk of bytes;
  between the two the other thread can stop the client and close the socket.
\<close>

section \<open>From main to the threads\<close>

text \<open>The calls that were made, and what came of them: the windows, the socket and the state with
  which the threads start, or None while the client still asks for a user name.\<close>

definition client_boot ::
    "string list \<Rightarrow> (os_call \<Rightarrow> int) \<Rightarrow> int \<Rightarrow> int \<Rightarrow> (string \<Rightarrow> int) \<Rightarrow> client_recv \<Rightarrow> string option list \<Rightarrow>
     app \<Rightarrow> os_call list \<times> (screen \<times> int \<times> app) option res" where
  "client_boot argv os h w sends greeting typed a =
     (case argv of
        [prog, server_ip, port] \<Rightarrow>
          (case connect_to_server os server_ip (c_atoi port) of
             (made, None) \<Rightarrow> (made, Inl Exit_failure)
           | (made, Some fd) \<Rightarrow>
               (made, res_bind (ui_init h w) (\<lambda>scr.
                  res_bind (client_start sends server_ip port greeting typed a) (\<lambda>r.
                    Inr (map_option (\<lambda>b. (scr, fd, b)) r)))))
      | _ \<Rightarrow> ([], Inl Exit_failure))"

text \<open>After both threads have been joined.\<close>

definition client_finish :: "screen \<times> app \<Rightarrow> screen \<times> app" where
  "client_finish = (\<lambda>(scr, a). (ui_cleanup scr, a\<lparr>closings := Suc (closings a)\<rparr>))"

section \<open>The two threads\<close>

datatype input_pc = At_prompt | At_line | Input_done
datatype recv_pc = At_test | At_recv | Recv_done

type_synonym client_run = "input_pc \<times> recv_pc \<times> app"

inductive client_step :: "(string \<Rightarrow> int) \<Rightarrow> client_run \<Rightarrow> client_run \<Rightarrow> bool" for sends where
  prompts: "client_step sends (At_prompt, r, a)
    (if is_running a then At_line else Input_done, r, ui_input_prompt ''> '' a)"
| types: "input_line sends typed a = Inr (again, b) \<Longrightarrow>
    client_step sends (At_line, r, a) (if again then At_prompt else Input_done, r, b)"
| tests: "client_step sends (i, At_test, a) (i, if is_running a then At_recv else Recv_done, a)"
| receives: "recv_chunk x a = Inr (again, b) \<Longrightarrow>
    client_step sends (i, At_recv, a) (i, if again then At_test else Recv_done, b)"

inductive_cases client_stepE: "client_step sends x y"

section \<open>What the steps change\<close>

lemma commands_fields:
  "res_all (\<lambda>(m, b). is_running b = is_running a \<and> closings b = closings a \<and> to_server b = to_server a)
     (handle_commands str n a)"
  by (auto simp: handle_commands_def Let_def res_all_bind split_beta split: option.split)

lemma display_fields: "handle_commands str n a = Inr (m, b) \<Longrightarrow>
    is_running b = is_running a \<and> closings b = closings a \<and> to_server b = to_server a"
  using res_allD [OF commands_fields] by fastforce

lemma validate_fields: "validate_and_format str n a = Inr (m, b) \<Longrightarrow>
    is_running b = is_running a \<and> closings b = closings a \<and> to_server b = to_server a \<and>
    (\<not> is_running a \<longrightarrow> m = None)"
  by (auto simp: validate_and_format_def res_bind_eq_Inr dest: display_fields split: if_splits)

lemma send_command_fields: "send_command sends str a = Inr b \<Longrightarrow>
    is_running b = is_running a \<and> closings b = closings a \<and>
    (\<not> is_running a \<longrightarrow> to_server b = to_server a)"
  by (auto simp: send_command_def send_message_def Let_def res_bind_eq_Inr dest!: validate_fields
      split: if_splits option.splits)

lemma input_line_fields:
  assumes "input_line sends typed a = Inr (again, b)"
  shows "is_running b = is_running a \<and> closings b = closings a \<or>
      \<not> again \<and> \<not> is_running b \<and> closings b = Suc (closings a)"
    and "\<not> is_running a \<Longrightarrow> to_server b = to_server a"
  using assms
  by (auto simp: input_line_def Let_def res_bind_eq_Inr dest!: send_command_fields
      split: if_splits option.splits)

lemma parse_fields [simp]:
  "is_running (parse_server_msg bs a) = is_running a" "closings (parse_server_msg bs a) = closings a"
  "to_server (parse_server_msg bs a) = to_server a"
  by (simp_all add: parse_server_msg_def Let_def)

lemma recv_chunk_fields:
  assumes "recv_chunk x a = Inr (again, b)"
  shows "again \<and> is_running b = is_running a \<and> closings b = closings a \<or>
      \<not> again \<and> \<not> is_running b \<and> closings b = Suc (closings a)"
    and "to_server b = to_server a"
  using assms by (auto simp: recv_chunk_def split: client_recv.splits)

section \<open>The client stops\<close>

text \<open>How many steps a thread can still take once the client is stopping.\<close>

fun input_left :: "input_pc \<Rightarrow> nat" where
  "input_left At_line = 2" | "input_left At_prompt = 1" | "input_left Input_done = 0"

fun recv_left :: "recv_pc \<Rightarrow> nat" where
  "recv_left At_recv = 2" | "recv_left At_test = 1" | "recv_left Recv_done = 0"

lemma stopping_step:
  assumes "client_step sends (i, r, a) (j, q, b)" and "\<not> is_running a"
  shows "\<not> is_running b \<and> to_server b = to_server a \<and> input_left j + recv_left q < input_left i + recv_left r"
  using assms
proof (cases rule: client_step.cases)
  case (types typed again)
  with assms(2) input_line_fields [OF types(4)] show ?thesis by auto
next
  case (receives x again)
  with assms(2) recv_chunk_fields [OF receives(4)] show ?thesis by auto
qed (use assms(2) in auto)

lemma stopping_steps:
  "(client_step sends ^^ n) (i, r, a) (j, q, b) \<Longrightarrow> \<not> is_running a \<Longrightarrow>
     \<not> is_running b \<and> to_server b = to_server a \<and> n + input_left j + recv_left q \<le> input_left i + recv_left r"
proof (induction n arbitrary: j q b)
  case 0
  then show ?case by simp
next
  case (Suc n)
  from Suc.prems(1) obtain k s c where
    c: "(client_step sends ^^ n) (i, r, a) (k, s, c)" "client_step sends (k, s, c) (j, q, b)" by auto
  with Suc.IH [OF c(1) Suc.prems(2)] stopping_step [OF c(2)] show ?case by auto
qed

text \<open>A thread that is not at its end can take a step: an empty line, or an end of the connection, is
  always possible.\<close>

lemma client_not_stuck:
  assumes "i \<noteq> Input_done \<or> r \<noteq> Recv_done"
  shows "\<exists>y. client_step sends (i, r, a) y"
proof (cases "i = Input_done")
  case True
  with assms consider "r = At_test" | "r = At_recv" by (cases r) auto
  then show ?thesis
  proof cases
    case 1
    then show ?thesis using client_step.tests by blast
  next
    case 2
    have "recv_chunk Recv_closed a = Inr (False, exit_client
        (ui_msg_display Output_win (''Server has terminated connection'' @ [LF]) a))"
      by (simp add: recv_chunk_def)
    with 2 show ?thesis using client_step.receives by blast
  qed
next
  case False
  then consider "i = At_prompt" | "i = At_line" by (cases i) auto
  then show ?thesis
  proof cases
    case 1
    then show ?thesis using client_step.prompts by blast
  next
    case 2
    have "input_line sends None a = Inr (False, ui_msg_display Output_win ('' Input error'' @ [LF]) a)"
      by (simp add: input_line_def)
    with 2 show ?thesis using client_step.types by blast
  qed
qed

text \<open>The socket is closed once by each thread that stops the client.\<close>

definition closed_ok :: "client_run \<Rightarrow> bool" where
  "closed_ok = (\<lambda>(i, r, a). (is_running a \<longleftrightarrow> closings a = 0) \<and>
     closings a \<le> (if i = Input_done then 1 else 0) + (if r = Recv_done then 1 else (0::nat)) \<and>
     (r = Recv_done \<longrightarrow> \<not> is_running a))"

lemma closed_step: "client_step sends x y \<Longrightarrow> closed_ok x \<Longrightarrow> closed_ok y"
proof (induction rule: client_step.induct)
  case (prompts r a)
  then show ?case by (auto simp: closed_ok_def split: if_splits)
next
  case (types typed a again b r)
  from input_line_fields(1) [OF types(1)] types(2) show ?case by (auto simp: closed_ok_def split: if_splits)
next
  case (tests i a)
  then show ?case by (auto simp: closed_ok_def split: if_splits)
next
  case (receives x a again b i)
  from recv_chunk_fields(1) [OF receives(1)] receives(2) show ?case
    by (auto simp: closed_ok_def split: if_splits)
qed

lemma closed_steps: "(client_step sends)\<^sup>*\<^sup>* x y \<Longrightarrow> closed_ok x \<Longrightarrow> closed_ok y"
  by (induction rule: rtranclp_induct) (auto intro: closed_step)

end
