(* ===== verification/Process_Properties.thy ===== *)
theory Process_Properties
  imports Server_Boot Client_Threads Samples
begin

text \<open>
  The properties of the two processes as such: how they start and meet, the windows, the two threads of
  the client and its end, the log.
\<close>

section \<open>Server and client meet\<close>

text \<open>
  C38: A server that gets past its start has made exactly the calls socket, setsockopt, bind and
  listen, in this order, on all addresses and port 30000, and its threads begin in an initial state of
  both step relations. A client that connects reaches this port exactly when the number it was given is
  30000 modulo 65536, whatever its size or sign; with an address that is no dotted quad it connects to
  0.0.0.0.
\<close>

theorem client_meets_server:
  assumes "server_boot os mutex_ok fds inits_ok backlog (zero_server rs) = (made, Some (fd, s))"
    and "connect_to_server os' server_ip port = (calls, Some sock)"
  shows "made = [Os_socket, Os_reuse_address fd, Os_bind fd INADDR_ANY (htons 30000), Os_listen fd backlog] \<and>
    port_of (htons 30000) = 30000 \<and>
    reachable (Main_accepting, s) \<and> fine_reachable (Accepting, (\<lambda>_. Ready), s) \<and>
    (\<exists>addr p. Os_connect sock addr p \<in> set calls \<and> (p = htons 30000 \<longleftrightarrow> port mod 65536 = 30000) \<and>
      (inet_pton server_ip = None \<longrightarrow> addr = INADDR_ANY))"
proof (intro conjI)
  note b = boot_Some [OF assms(1)]
  show "made = [Os_socket, Os_reuse_address fd, Os_bind fd INADDR_ANY (htons 30000), Os_listen fd backlog]"
    using setup_server_listens(1) [OF b(2)] by (simp add: PORT_NUMBER_def)
  show "port_of (htons 30000) = 30000" by (simp add: port_of_htons)
  show "reachable (Main_accepting, s)" by (rule reachable.boots [OF b(1)])
  show "fine_reachable (Accepting, (\<lambda>_. Ready), s)" by (rule fine_reachable.f_boots [OF b(1)])
  let ?addr = "case inet_pton server_ip of Some a \<Rightarrow> a | None \<Rightarrow> [0, 0, 0, 0]"
  have "Os_connect sock ?addr (htons port) \<in> set calls"
    using assms(2) by (auto simp: connect_to_server_def Let_def split: if_splits)
  moreover have "inet_pton server_ip = None \<longrightarrow> ?addr = INADDR_ANY" by (simp add: INADDR_ANY_def)
  ultimately show "\<exists>addr p. Os_connect sock addr p \<in> set calls \<and> (p = htons 30000 \<longleftrightarrow> port mod 65536 = 30000) \<and>
      (inet_pton server_ip = None \<longrightarrow> addr = INADDR_ANY)"
    using htons_eq [of port 30000] by (intro exI [of _ ?addr] exI [of _ "htons port"]) simp
qed

text \<open>A system that grants every call, with descriptors from 3.\<close>

definition granting :: "os_call \<Rightarrow> int" where
  "granting c = (case c of Os_socket \<Rightarrow> 3 | _ \<Rightarrow> 0)"

lemma no_dotted_quad: "inet_pton ''localhost'' = None"
  by (simp add: inet_pton_def c_isdigit_def)

theorem client_meets_server_witness:
  "\<exists>made calls s addr p.
     server_boot granting (\<lambda>_. True) (\<lambda>w. 10 + int w) (\<lambda>_. True) 128 (zero_server []) = (made, Some (3, s)) \<and>
     connect_to_server granting ''localhost'' (c_atoi ''95536'') = (calls, Some 3) \<and>
     Os_bind 3 INADDR_ANY p \<in> set made \<and> Os_connect 3 addr p \<in> set calls \<and> addr = INADDR_ANY"
proof -
  have s: "setup_server granting PORT_NUMBER 128 =
      ([Os_socket, Os_reuse_address 3, Os_bind 3 INADDR_ANY (htons PORT_NUMBER), Os_listen 3 128], Inr 3)"
    by (simp add: setup_server_def granting_def)
  have b: "server_boot granting (\<lambda>_. True) (\<lambda>w. 10 + int w) (\<lambda>_. True) 128 (zero_server []) =
      ([Os_socket, Os_reuse_address 3, Os_bind 3 INADDR_ANY (htons PORT_NUMBER), Os_listen 3 128],
       Some (3, booted))"
    using booted_setup by (simp add: server_boot_def s list_all_iff)
  have port: "c_atoi ''95536'' = 95536"
    by (subst c_atoi_digits) (simp_all add: c_isdigit_def digit_val_def)
  have c: "connect_to_server granting ''localhost'' (c_atoi ''95536'') =
      ([Os_socket, Os_connect 3 [0, 0, 0, 0] (htons 95536)], Some 3)"
    unfolding port by (simp add: connect_to_server_def granting_def no_dotted_quad)
  from client_meets_server [OF b c] show ?thesis
    unfolding b c by (auto simp: no_dotted_quad port)
qed

text \<open>
  When a call of \<open>setup_server\<close> fails, it is the last one made, all before it succeeded, and the
  process ends.
\<close>

lemma server_start_fails:
  assumes "setup_server os port backlog = (made, Inl msg)"
  shows "made \<noteq> [] \<and> os (last made) = -1 \<and> (\<forall>c \<in> set (butlast made). os c \<noteq> -1)"
  using setup_server_fails [OF assms] .

text \<open>A port that another process has bound.\<close>

lemma server_start_fails_witness:
  "\<exists>made. setup_server (\<lambda>c. case c of Os_bind _ _ _ \<Rightarrow> -1 | c \<Rightarrow> granting c) 30000 128 = (made, Inl ''Bind failed'') \<and>
     last made = Os_bind 3 INADDR_ANY (htons 30000) \<and> length made = 3"
proof -
  let ?os = "\<lambda>c. case c of Os_bind _ _ _ \<Rightarrow> -1 | c \<Rightarrow> granting c"
  have s: "setup_server ?os 30000 128 =
      ([Os_socket, Os_reuse_address 3, Os_bind 3 INADDR_ANY (htons 30000)], Inl ''Bind failed'')"
    by (simp add: setup_server_def granting_def)
  from server_start_fails [OF s] s show ?thesis by simp
qed

section \<open>The windows\<close>

text \<open>
  C39: In a terminal that is high enough, the windows of the client have room, stay on the screen
  and do not cover each other or the lines between them exactly when it has 13 columns or more; \<open>ui_init\<close>
  itself asks for 6 only.
\<close>

theorem windows_fit:
  assumes "24 \<le> h" and "6 \<le> w"
  shows "\<exists>s. ui_init h w = Inr s \<and> (well_laid h w s \<longleftrightarrow> 13 \<le> w)"
proof -
  obtain s where s: "ui_init h w = Inr s" using assms by (simp add: ui_init_def limits)
  with wide_layout [OF assms(1) _ s] narrow_layout [OF _ _ s] assms(2) show ?thesis by force
qed

theorem windows_fit_witness:
  "\<exists>s t. ui_init 24 80 = Inr s \<and> well_laid 24 80 s \<and> ui_init 24 12 = Inr t \<and> \<not> well_laid 24 12 t"
  using windows_fit [of 24 80] windows_fit [of 24 12] by auto

section \<open>The end of the client\<close>



text \<open>
  C36: Typing /exit can end the process through \<open>exit (1)\<close>: the receiving thread has passed its test
  of \<open>is_running\<close> when the input thread sends EXIT, clears the flag and closes the socket; its \<open>recv\<close>
  then fails on the closed descriptor, and the terminal is never restored.
\<close>

theorem exit_race:
  assumes "is_running a" and "sends (frame CMD_EXIT ''dummy'') = int (length (frame CMD_EXIT ''dummy''))"
  shows "\<exists>b. (client_step sends)\<^sup>*\<^sup>* (At_prompt, At_test, a) (Input_done, At_recv, b) \<and>
    to_server b = to_server a @ frame CMD_EXIT ''dummy'' \<and> \<not> is_running b \<and>
    closings b = Suc (closings a) \<and> recv_chunk Recv_error b = Inl Exit_failure"
proof -
  let ?a = "ui_input_prompt ''> '' a"
  let ?b = "exit_client (?a\<lparr>to_server := to_server ?a @ frame CMD_EXIT ''dummy''\<rparr>)"
  have 1: "client_step sends (At_prompt, At_test, a) (At_line, At_test, ?a)"
    using client_step.prompts [of sends At_test a] assms(1) by simp
  have 2: "client_step sends (At_line, At_test, ?a) (At_line, At_recv, ?a)"
    using client_step.tests [of sends At_line ?a] assms(1) by simp
  have "send_command sends ''/exit'' ?a = Inr (?a\<lparr>to_server := to_server ?a @ frame CMD_EXIT ''dummy''\<rparr>)"
    by (rule send_exit) (use assms in simp_all)
  then have "input_line sends (Some ''/exit'') ?a = Inr (False, ?b)"
    by (simp add: input_line_def read_line_def strip_newline_def limits)
  from client_step.types [OF this] have 3: "client_step sends (At_line, At_recv, ?a) (Input_done, At_recv, ?b)"
    by simp
  have "(client_step sends)\<^sup>*\<^sup>* (At_prompt, At_test, a) (Input_done, At_recv, ?b)"
    using 1 2 3 by (meson converse_rtranclp_into_rtranclp rtranclp.rtrancl_refl)
  moreover have "recv_chunk Recv_error ?b = Inl Exit_failure" by (simp add: recv_chunk_def)
  ultimately show ?thesis by (intro exI [of _ ?b]) simp
qed

theorem exit_race_witness:
  "\<exists>b. (client_step (\<lambda>m. int (length m)))\<^sup>*\<^sup>* (At_prompt, At_test, idle_app True) (Input_done, At_recv, b) \<and>
    recv_chunk Recv_error b = Inl Exit_failure"
  using exit_race [of "idle_app True" "\<lambda>m. int (length m)"] by auto

text \<open>
  C37: In every orderly end of the client the socket is closed two or three times: by each thread that
  stops the client, and once more by \<open>main\<close>. All windows are deleted and the terminal is restored.
\<close>

theorem socket_closed_again:
  assumes "(client_step sends)\<^sup>*\<^sup>* (At_prompt, At_test, a) (Input_done, Recv_done, b)"
    and "is_running a" and "closings a = 0" and "client_finish (scr, b) = (scr', c)"
  shows "2 \<le> closings c \<and> closings c \<le> 3 \<and> windows scr' x = None \<and> \<not> curses_mode scr'"
proof -
  have "closed_ok (At_prompt, At_test, a)" using assms(2,3) by (simp add: closed_ok_def)
  from closed_steps [OF assms(1) this] assms(4) show ?thesis
    by (auto simp: closed_ok_def client_finish_def ui_cleanup_all)
qed

theorem socket_closed_again_witness:
  "\<exists>b. (client_step (\<lambda>m. int (length m)))\<^sup>*\<^sup>* (At_prompt, At_test, idle_app False) (Input_done, Recv_done, b) \<and>
    2 \<le> closings (snd (client_finish (no_screen, b)))"
proof -
  let ?a = "exit_client (ui_msg_display Output_win (''Server has terminated connection'' @ [LF]) (idle_app False))"
  let ?b = "ui_input_prompt ''> '' ?a"
  let ?step = "client_step (\<lambda>m. int (length m))"
  have r: "recv_chunk Recv_closed (idle_app False) = Inr (False, ?a)" by (simp add: recv_chunk_def)
  have "?step (At_prompt, At_test, idle_app False) (At_prompt, At_recv, idle_app False)"
    using client_step.tests [of "\<lambda>m. int (length m)" At_prompt "idle_app False"] by simp
  moreover have "?step (At_prompt, At_recv, idle_app False) (At_prompt, Recv_done, ?a)"
    using client_step.receives [OF r, of "\<lambda>m. int (length m)" At_prompt] by (simp only: if_False)
  moreover have "?step (At_prompt, Recv_done, ?a) (Input_done, Recv_done, ?b)"
    using client_step.prompts [of "\<lambda>m. int (length m)" Recv_done ?a] by (simp only: exit_fields if_False)
  ultimately have "?step\<^sup>*\<^sup>* (At_prompt, At_test, idle_app False) (Input_done, Recv_done, ?b)"
    by (meson converse_rtranclp_into_rtranclp rtranclp.rtrancl_refl)
  from socket_closed_again [OF this] this show ?thesis
    by (intro exI [of _ ?b]) (auto simp: client_finish_def idle_app_def)
qed

section \<open>The log\<close>

text \<open>
  C40: Whatever the threads of the server log, and however they are interleaved, the log is a sequence of
  whole lines, followed by the beginning of one line at most, that of the thread that
  has the mutex.
\<close>

theorem log_lines_whole:
  assumes "log_step\<^sup>*\<^sup>* log_start l"
  shows "\<exists>ls cur. log_out l = concat ls @ cur \<and>
      (\<forall>x \<in> set ls. \<exists>now tid body. x = log_line now tid body) \<and>
      (case log_mutex l of
         None \<Rightarrow> cur = []
       | Some i \<Rightarrow> \<exists>ps now tid body. log_pcs l i = Log_prints ps \<and> log_line now tid body = cur @ concat ps)"
proof -
  have inv: "log_inv l" by (rule log_steps_inv [OF assms log_start_inv])
  then obtain cur where cur: "lines_then (log_out l) cur" "begun l cur" by (auto simp: log_inv_def)
  have "log_mutex l = Some i \<Longrightarrow> \<exists>ps. log_pcs l i = Log_prints ps" for i
    using inv by (auto simp: log_inv_def holds_log_def)
  with cur(2) have "case log_mutex l of
         None \<Rightarrow> cur = []
       | Some i \<Rightarrow> \<exists>ps now tid body. log_pcs l i = Log_prints ps \<and> log_line now tid body = cur @ concat ps"
    by (fastforce simp: begun_def is_line_def split: option.splits)
  with cur(1) show "\<exists>ls cur. log_out l = concat ls @ cur \<and>
      (\<forall>x \<in> set ls. \<exists>now tid body. x = log_line now tid body) \<and>
      (case log_mutex l of
         None \<Rightarrow> cur = []
       | Some i \<Rightarrow> \<exists>ps now tid body. log_pcs l i = Log_prints ps \<and> log_line now tid body = cur @ concat ps)"
    unfolding lines_then_def is_line_def by blast
qed

text \<open>Two threads: the second has called, the first is printing.\<close>

theorem log_lines_whole_witness:
  "\<exists>l ls cur. log_step\<^sup>*\<^sup>* log_start l \<and> log_pcs l 2 \<noteq> Log_idle \<and> log_mutex l = Some 1 \<and> log_out l = concat ls @ cur"
proof -
  let ?p = "log_pieces None 1 ''a''" and ?q = "log_pieces None 2 ''b''"
  let ?l1 = "set_log_pc 1 (Log_waits ?p) log_start" and ?l2 = "set_log_pc 2 (Log_waits ?q) (set_log_pc 1 (Log_waits ?p) log_start)"
  let ?l3 = "set_log_pc 1 (Log_prints ?p) (?l2\<lparr>log_mutex := Some 1\<rparr>)"
  have "log_step log_start ?l1" by (rule log_calls) (simp add: log_start_def)
  moreover have "log_step ?l1 ?l2" by (rule log_calls) (simp add: log_start_def)
  moreover have "log_step ?l2 ?l3" by (rule log_locks) (simp_all add: log_start_def)
  ultimately have "log_step\<^sup>*\<^sup>* log_start ?l3"
    by (meson converse_rtranclp_into_rtranclp rtranclp.rtrancl_refl)
  with log_lines_whole [OF this] show ?thesis by (intro exI [of _ ?l3]) (auto simp: log_start_def)
qed

end
