(* ===== verification/Log_Format.thy ===== *)
theory Log_Format
  imports Logger
begin

text \<open>
  The text that \<open>vprintf\<close> makes of a format and its arguments, for the conversions that the log calls of
  the server use. C gives no meaning to a conversion without an argument, or with an argument of another
  type; the text is then None. Arguments beyond the conversions are evaluated and ignored.
\<close>

section \<open>Arguments and conversions\<close>

text \<open>
  What a variable argument list holds after promotion: an \<open>int\<close> (also for \<open>char\<close>, \<open>bool\<close>, enums and
  \<open>uint32_t\<close>), one of the 64-bit integer types of the platform (\<open>size_t\<close>, \<open>ssize_t\<close>,
  \<open>uint64_t\<close>, \<open>pthread_t\<close>), or a pointer to a C string.
\<close>

datatype c_arg = C_int int | C_long int | C_str string

datatype conv = Conv_d | Conv_x | Conv_c | Conv_s | Conv_lu | Conv_zd

text \<open>What follows a percent sign: the flag 0, which pads nothing without a width, a length modifier, the
  conversion. The result is the conversion and the rest of the format.\<close>

fun conversion :: "string \<Rightarrow> (conv \<times> string) option" where
  "conversion [] = None"
| "conversion (c # cs) =
     (if c = CHR ''0'' then conversion cs
      else if c = CHR ''d'' then Some (Conv_d, cs)
      else if c = CHR ''x'' then Some (Conv_x, cs)
      else if c = CHR ''c'' then Some (Conv_c, cs)
      else if c = CHR ''s'' then Some (Conv_s, cs)
      else if c = CHR ''z'' then
        (case cs of
           d # r \<Rightarrow> if d = CHR ''d'' then Some (Conv_zd, r) else if d = CHR ''u'' then Some (Conv_lu, r) else None
         | [] \<Rightarrow> None)
      else if c = CHR ''l'' then
        (case cs of
           d # r \<Rightarrow>
             if d = CHR ''u'' then Some (Conv_lu, r)
             else if d = CHR ''l'' then
               (case r of e # q \<Rightarrow> if e = CHR ''u'' then Some (Conv_lu, q) else None | [] \<Rightarrow> None)
             else None
         | [] \<Rightarrow> None)
      else None)"

lemma conversion_shorter: "conversion cs = Some (k, r) \<Longrightarrow> length r < length cs"
  by (induction cs rule: conversion.induct) (auto split: if_splits list.splits)

definition hex_digit :: "nat \<Rightarrow> char" where
  "hex_digit n = (if n < 10 then char_of (48 + n) else char_of (87 + n))"

fun hex_digits :: "nat \<Rightarrow> string" where
  "hex_digits n = (if n < 16 then [hex_digit n] else hex_digits (n div 16) @ [hex_digit (n mod 16)])"

declare hex_digits.simps [simp del]

text \<open>A conversion applied to an argument: None when the type is not the one it takes.\<close>

fun convert :: "conv \<Rightarrow> c_arg \<Rightarrow> string option" where
  "convert Conv_d (C_int i) = Some (signed_digits i)"
| "convert Conv_x (C_int i) = Some (hex_digits (nat (i mod 2 ^ 32)))"
| "convert Conv_c (C_int i) = Some [char_of (nat (i mod 256))]"
| "convert Conv_s (C_str str) = Some str"
| "convert Conv_lu (C_long n) = Some (dec_digits (nat (n mod 2 ^ 64)))"
| "convert Conv_zd (C_long n) = Some (signed_digits n)"
| "convert _ _ = None"

text \<open>\<open>vprintf\<close>: characters are copied, each conversion takes the next argument.\<close>

function c_vprintf :: "string \<Rightarrow> c_arg list \<Rightarrow> string option" where
  "c_vprintf [] args = Some []"
| "c_vprintf (c # cs) args =
     (if c \<noteq> CHR ''%'' then map_option ((#) c) (c_vprintf cs args)
      else
        (case conversion cs of
           None \<Rightarrow> None
         | Some (k, r) \<Rightarrow>
             (case args of
                [] \<Rightarrow> None
              | x # xs \<Rightarrow>
                  (case convert k x of
                     None \<Rightarrow> None
                   | Some str \<Rightarrow> map_option ((@) str) (c_vprintf r xs)))))"
  by pat_completeness auto
termination
  by (relation "measure (\<lambda>(cs, args). length cs)") (auto dest: conversion_shorter)

section \<open>When the text is defined\<close>

text \<open>The conversions of a format in their order, None when one of them is unknown.\<close>

function conversions :: "string \<Rightarrow> conv list option" where
  "conversions [] = Some []"
| "conversions (c # cs) =
     (if c \<noteq> CHR ''%'' then conversions cs
      else (case conversion cs of None \<Rightarrow> None | Some (k, r) \<Rightarrow> map_option ((#) k) (conversions r)))"
  by pat_completeness auto
termination
  by (relation "measure length") (auto dest: conversion_shorter)

datatype c_type = T_int | T_long | T_str

fun type_of_arg :: "c_arg \<Rightarrow> c_type" where
  "type_of_arg (C_int i) = T_int"
| "type_of_arg (C_long n) = T_long"
| "type_of_arg (C_str str) = T_str"

fun takes :: "conv \<Rightarrow> c_type" where
  "takes Conv_s = T_str"
| "takes Conv_lu = T_long"
| "takes Conv_zd = T_long"
| "takes _ = T_int"

text \<open>A call is well typed when each conversion has an argument of its type.\<close>

fun well_typed :: "conv list \<Rightarrow> c_arg list \<Rightarrow> bool" where
  "well_typed [] xs = True"
| "well_typed (k # ks) [] = False"
| "well_typed (k # ks) (x # xs) = (type_of_arg x = takes k \<and> well_typed ks xs)"

lemma convert_typed: "convert k x \<noteq> None \<longleftrightarrow> type_of_arg x = takes k"
  by (cases k; cases x) simp_all

text \<open>Well-typed calls are exactly those with a text.\<close>

lemma vprintf_defined:
  "c_vprintf fmt args \<noteq> None \<longleftrightarrow> (case conversions fmt of None \<Rightarrow> False | Some ks \<Rightarrow> well_typed ks args)"
proof (induction fmt args rule: c_vprintf.induct)
  case (2 c cs args)
  show ?case
  proof (cases "c = CHR ''%''")
    case False
    with 2(1) show ?thesis by simp
  next
    case True
    show ?thesis
    proof (cases "conversion cs")
      case (Some kr)
      obtain k r where kr: "kr = (k, r)" by (cases kr)
      have cs: "conversions (c # cs) = map_option ((#) k) (conversions r)"
        using True Some kr by simp
      show ?thesis
      proof (cases args)
        case Nil
        then show ?thesis using True Some kr by (simp add: cs split: option.split)
      next
        case (Cons x xs)
        have v: "c_vprintf (c # cs) args =
            (case convert k x of None \<Rightarrow> None | Some str \<Rightarrow> map_option ((@) str) (c_vprintf r xs))"
          using True Some kr Cons by simp
        show ?thesis
        proof (cases "convert k x")
          case None
          then have "type_of_arg x \<noteq> takes k" using convert_typed [of k x] by blast
          with None Cons show ?thesis unfolding v cs by (simp split: option.split)
        next
          case (Some str)
          then have t: "type_of_arg x = takes k" using convert_typed [of k x] by blast
          from Some have "c_vprintf (c # cs) args \<noteq> None \<longleftrightarrow> c_vprintf r xs \<noteq> None" by (simp only: v) simp
          also have "\<dots> \<longleftrightarrow> (case conversions r of None \<Rightarrow> False | Some ks \<Rightarrow> well_typed ks xs)"
            by (rule 2(2) [OF _ \<open>conversion cs = Some kr\<close> kr [symmetric] Cons Some]) (use True in simp)
          finally show ?thesis unfolding cs using Cons t by (simp split: option.split)
        qed
      qed
    next
      case None
      with True show ?thesis by simp
    qed
  qed
qed simp

text \<open>Text without a percent sign stands for itself.\<close>

lemma vprintf_plain: "CHR ''%'' \<notin> set pre \<Longrightarrow> c_vprintf (pre @ fmt) args = map_option ((@) pre) (c_vprintf fmt args)"
proof (induction pre)
  case (Cons a pre)
  then show ?case by (cases "c_vprintf fmt args") auto
qed (cases "c_vprintf fmt args", simp_all)

lemma conversions_plain: "CHR ''%'' \<notin> set pre \<Longrightarrow> conversions (pre @ fmt) = conversions fmt"
  by (induction pre) auto

section \<open>A log call\<close>

text \<open>The level, the format and the arguments of a use of one of the macros.\<close>

type_synonym log_call = "log_level \<times> string \<times> c_arg list"

text \<open>The format that the macro passes to \<open>log_message\<close>, and the text that is printed.\<close>

definition full_format :: "log_level \<Rightarrow> string \<Rightarrow> string" where
  "full_format level fmt = level_prefix level @ fmt @ ANSI_RESET"

fun log_text :: "log_call \<Rightarrow> string option" where
  "log_text (level, fmt, args) = c_vprintf (full_format level fmt) args"

fun defined_call :: "log_call \<Rightarrow> bool" where
  "defined_call (level, fmt, args) =
     (case conversions (fmt @ ANSI_RESET) of None \<Rightarrow> False | Some ks \<Rightarrow> well_typed ks args)"

lemma prefix_plain: "CHR ''%'' \<notin> set (level_prefix level)"
  by (cases level) (simp_all add: ansi_defs)

lemma log_text_defined: "log_text call \<noteq> None \<longleftrightarrow> defined_call call"
  by (cases call) (simp only: log_text.simps defined_call.simps vprintf_defined full_format_def
      conversions_plain [OF prefix_plain])

text \<open>A line of the log, when the call has a text.\<close>

definition logged_line :: "tm option \<Rightarrow> nat \<Rightarrow> log_call \<Rightarrow> string option" where
  "logged_line now tid call = map_option (log_line now tid) (log_text call)"

end
