(* ===== verification/Log_Calls.thy ===== *)
theory Log_Calls
  imports Log_Format Client_Distributor
begin

text \<open>
  The log calls of the server when it is built with \<open>LOG\<close>: for each function the calls that it makes
  itself, in their order, with the arguments as the source passes them. What the kernel answers, the text
  of \<open>strerror\<close> included, is an argument: None where the call succeeds.
\<close>

definition on_failure :: "string option \<Rightarrow> (string \<Rightarrow> log_call) \<Rightarrow> log_call list" where
  "on_failure failure call = (case failure of None \<Rightarrow> [] | Some err \<Rightarrow> [call err])"

definition close_failed :: "int \<Rightarrow> string \<Rightarrow> log_call" where
  "close_failed fd err = (LOG_SERVER_ERROR, ''Failed to close client fd %d: %s'' @ [LF], [C_int fd, C_str err])"

text \<open>The formats whose arguments are not what they ask for.\<close>

definition content_long_format :: string where
  "content_long_format = ''Invalid message format from client fd %d: Content too long, content length '' @
     ''greater than MAX_CONTENT_LEN'' @ [LF] @ '' ''"
definition room_command_format :: string where
  "room_command_format = ''Invalid room command '' @ [CHR 0x27] @ ''%0x%x'' @ [CHR 0x27] @ '' from client %s'' @ [LF]"
definition slot_race_format :: string where
  "slot_race_format = ''Failed to setup new user -Race condition: received client fd %d when already at capacity'' @ [LF]"
definition race_close_format :: string where
  "race_close_format = ''Failed to close client fd %d: %s for '' @ [LF]"
definition assigned_format :: string where
  "assigned_format = ''Assigned client (fd=%d) to worker thread %lu (current number of clients=%d)'' @ [LF]"

section \<open>\<open>client_state_manager.c\<close>\<close>

text \<open>The loop of \<open>send_message_to_client\<close>; \<open>err\<close> is what \<open>strerror\<close> says of a failed \<open>send\<close>.\<close>

fun logs_send_loop :: "int \<Rightarrow> string \<Rightarrow> string \<Rightarrow> send_reply list \<Rightarrow> nat \<Rightarrow> nat \<Rightarrow> log_call list" where
  "logs_send_loop fd message err [] sent len =
     (if sent < len then
        [(LOG_INFO, ''Sent %zd/%zd bytes to client fd %d'' @ [LF], [C_long (int len), C_long (int len), C_int fd])]
      else [])"
| "logs_send_loop fd message err (r # rs) sent len =
     (if sent < len then
        (case r of
           Send_failed \<Rightarrow>
             [(LOG_CLIENT_DISCONNECT, ''Failed to send message to client fd %d: %s. Message: %s'' @ [LF],
                [C_int fd, C_str err, C_str message])]
         | Would_block \<Rightarrow>
             (LOG_INFO, ''Send would block or socket is full for client fd %d, retrying'' @ [LF], [C_int fd]) #
               logs_send_loop fd message err rs sent len
         | Accepted k \<Rightarrow>
             (let n = sent + min k (len - sent) in
              (if sent < n then
                 [(LOG_INFO, ''Sent %zd/%zd bytes to client fd %d'' @ [LF],
                    [C_long (int n), C_long (int len), C_int fd])]
               else []) @ logs_send_loop fd message err rs n len))
      else [])"

definition logs_send_message :: "int \<Rightarrow> char \<Rightarrow> string \<Rightarrow> string \<Rightarrow> server \<Rightarrow> log_call list" where
  "logs_send_message fd cmd_type message err s =
     logs_send_loop fd message err (replies s) 0 (length (frame cmd_type message))"

text \<open>The tests of \<open>validate_msg_format\<close> in their order. The call for a content that is too long has a
  comma between two pieces of its format, so that the second piece is its first argument.\<close>

definition logs_validate_msg_format :: "client \<Rightarrow> log_call list" where
  "logs_validate_msg_format c =
     (let msg = current_msg c; fd = C_int (client_fd c) in
      if length msg < 3 then
        [(LOG_USER_ERROR, ''Invalid message format from client fd %d: Message too short'' @ [LF], [fd])]
      else if MAX_CONTENT_LEN < length (drop 2 msg) then
        [(LOG_USER_ERROR, content_long_format,
           [C_str (''%d'' @ [LF] @ ''and:%s'' @ [LF]), fd, C_long (int (length (drop 2 msg))), C_str (drop 2 msg)])]
      else if char_at msg 1 \<noteq> SPACE then
        [(LOG_USER_ERROR, ''Invalid message format from client fd %d: Space missing after the command'' @ [LF],
           [fd, C_int (char_val (char_at msg 0))])]
      else if char_val (char_at msg 0) < char_val CMD_EXIT \<or>
              char_val CMD_ROOM_MESSAGE_SEND < char_val (char_at msg 0) then
        [(LOG_USER_ERROR, ''Invalid message format from client fd %d: Command not recognized'' @ [LF], [fd])]
      else if dropWhile (\<lambda>c. c = SPACE) (drop 2 msg) = [] then
        [(LOG_USER_ERROR, ''Invalid message format from client fd %d: Content is empty'' @ [LF], [fd])]
      else [])"

definition logs_command_valid_for_state :: "client \<Rightarrow> log_call list" where
  "logs_command_valid_for_state c =
     (let command = char_at (current_msg c) 0; byte = C_int (char_val command); fd = C_int (client_fd c) in
      if command = CMD_EXIT then []
      else if cstate c = AWAITING_USERNAME \<and> command \<noteq> CMD_USERNAME_SUBMIT then
        [(LOG_USER_ERROR, ''Invalid command:'' @ [CHR 0x27] @ ''0x%x'' @ [CHR 0x27] @
            '' from client fd %d in AWAITING_USERNAME state'' @ [LF], [byte, fd])]
      else if cstate c = IN_CHAT_LOBBY \<and> (command \<noteq> CMD_ROOM_CREATE_REQUEST \<and>
          command \<noteq> CMD_ROOM_JOIN_REQUEST \<and> command \<noteq> CMD_ROOM_LIST_REQUEST) then
        [(LOG_USER_ERROR, ''Invalid lobby command '' @ [CHR 0x27] @ ''%c'' @ [CHR 0x27] @
            '' from client %s (fd %d) in chat lobby state'' @ [LF], [byte, C_str (cname c), fd])]
      else if cstate c = IN_CHAT_ROOM \<and> (command \<noteq> CMD_ROOM_MESSAGE_SEND \<and> command \<noteq> CMD_LEAVE_ROOM) then
        [(LOG_USER_ERROR, room_command_format, [byte, C_str (cname c)])]
      else [])"

definition logs_route_client_command :: "client \<Rightarrow> log_call list" where
  "logs_route_client_command c =
     (let command = char_at (current_msg c) 0 in
      (LOG_INFO, ''Routing command '' @ [CHR 0x27] @ ''0x%x'' @ [CHR 0x27] @ '' from client fd %d in (state: %d)'' @ [LF],
         [C_int (char_val command), C_int (client_fd c), C_int (int (state_value (cstate c)))]) #
      (if command = CMD_EXIT then [(LOG_INFO, ''Client fd %d requested exit'' @ [LF], [C_int (client_fd c)])] else []))"

text \<open>All calls from the first test of a message to the point where a handler takes over.\<close>

definition logs_checks :: "client \<Rightarrow> log_call list" where
  "logs_checks c =
     logs_validate_msg_format c @
     (if format_error (current_msg c) \<noteq> None then []
      else
        logs_command_valid_for_state c @
        (if state_error (cstate c) (char_at (current_msg c) 0) \<noteq> None then []
         else logs_route_client_command c))"

definition logs_handle_awaiting_username :: "client \<Rightarrow> log_call list" where
  "logs_handle_awaiting_username c =
     (let name = drop 2 (current_msg c) in
      if MAX_USERNAME_LEN < length name then
        [(LOG_USER_ERROR, ''Username too long from client fd %d: %zu characters'' @ [LF],
           [C_int (client_fd c), C_long (int (length name))])]
      else
        [(LOG_INFO, ''Client fd %d username set to '' @ [CHR 0x27] @ ''%s'' @ [CHR 0x27, LF],
           [C_int (client_fd c), C_str name])])"

definition logs_handle_in_chat_lobby :: "client \<Rightarrow> log_call list" where
  "logs_handle_in_chat_lobby c =
     [(LOG_INFO, ''Processing lobby command '' @ [CHR 0x27] @ ''0x%x'' @ [CHR 0x27] @ '' from client %s (fd %d)'' @ [LF],
        [C_int (char_val (char_at (current_msg c) 0)), C_str (cname c), C_int (client_fd c)])]"

definition logs_handle_in_chat_room :: "cptr \<Rightarrow> server \<Rightarrow> log_call list" where
  "logs_handle_in_chat_room p s =
     (let c = client_at s p; who = [C_str (cname c), C_int (client_fd c)]; room = C_int (room_index c) in
      if char_at (current_msg c) 0 = CMD_ROOM_MESSAGE_SEND then
        [(LOG_INFO, ''Client %s (fd %d) sending message in room %d: %s'' @ [LF],
           who @ [room, C_str (cname c @ '': '' @ drop 2 (current_msg c))])]
      else
        (LOG_INFO, ''Client %s (fd %d) leaving room %d'' @ [LF], who @ [room]) #
        (case handle_in_chat_room p s of
           Inl e \<Rightarrow> []
         | Inr t \<Rightarrow> [(LOG_INFO, ''Client %s (fd %d) returned to lobby state'' @ [LF], who)]))"

definition logs_cleanup_client :: "cptr \<Rightarrow> string option \<Rightarrow> string option \<Rightarrow> server \<Rightarrow> log_call list" where
  "logs_cleanup_client p del_failure close_failure s =
     (let c = client_at s p; fd = C_int (client_fd c) in
      [(LOG_INFO, ''Cleaning up client %s (fd %d) resources'' @ [LF], [C_str (cname c), fd])] @
      on_failure del_failure (\<lambda>err.
        (LOG_SERVER_ERROR, ''Failed to remove client fd %d from epoll: %s'' @ [LF], [fd, C_str err])) @
      on_failure close_failure (close_failed (client_fd c)) @
      [(LOG_INFO, ''Client cleaned up and decremented client count to %d'' @ [LF],
         [C_int (num_of_clients (worker_at (cleanup_client p s) (owner p)))])])"

text \<open>\<open>read_and_process_client_message\<close>: the loop over the messages of a chunk, and the whole function.\<close>

function logs_process_messages :: "cptr \<Rightarrow> string \<Rightarrow> server \<Rightarrow> log_call list" where
  "logs_process_messages p temp s =
     (case split_crlf temp of
        None \<Rightarrow>
          if temp = [] then []
          else (case append_msg p temp s of
                  Inl e \<Rightarrow> []
                | Inr t \<Rightarrow>
                    [(LOG_INFO, ''Stored partial message from client fd %d: %s'' @ [LF],
                       [C_int (client_fd (client_at t p)), C_str (current_msg (client_at t p))])])
      | Some (seg, rest) \<Rightarrow>
          (case append_msg p seg s of
             Inl e \<Rightarrow> []
           | Inr t \<Rightarrow>
               (LOG_INFO, ''Processing complete message from client fd %d: %s'' @ [LF],
                  [C_int (client_fd (client_at t p)), C_str (current_msg (client_at t p))]) #
               (case route_client_command p t of
                  Inl e \<Rightarrow> []
                | Inr u \<Rightarrow> logs_process_messages p rest (clear_msg p u))))"
  by pat_completeness auto
termination
  by (relation "measure (\<lambda>(p, temp, s). length temp)") (auto dest: split_crlf_length)

declare logs_process_messages.simps [simp del]

definition logs_read_and_process :: "cptr \<Rightarrow> recv_result \<Rightarrow> server \<Rightarrow> log_call list" where
  "logs_read_and_process p r s =
     (let fd = C_int (client_fd (client_at s p)) in
      case r of
        Recv_nonpositive again \<Rightarrow>
          if again then
            [(LOG_INFO, ''Tried getting client fd %d message but errno was EAGAIN or EWOULDBLOCK'' @ [LF], [fd])]
          else [(LOG_INFO, ''Client fd %d disconnected during receive'' @ [LF], [fd])]
      | Received bytes \<Rightarrow>
          (let got = take MAX_MESSAGE_LEN_TO_SERVER bytes in
           (LOG_INFO, ''Received %zd bytes from client fd %d: %s'' @ [LF],
              [C_long (int (length got)), fd, C_str (cstr got)]) #
           logs_process_messages p (cstr got) s))"

end
