(* ===== verification/Log_Server.thy ===== *)
theory Log_Server
  imports Log_Calls
begin

text \<open>
  The log calls of the rooms, the worker threads and the main thread, the relation \<open>server_logs\<close> of all calls the
  server can make, and which of them have a text.
\<close>

section \<open>\<open>room_manager.c\<close>\<close>

definition logs_create_chat_room :: "cptr \<Rightarrow> server \<Rightarrow> log_call list" where
  "logs_create_chat_room p s =
     (let c = client_at s p; name = drop 2 (current_msg c); who = [C_str (cname c), C_int (client_fd c)] in
      (LOG_INFO, ''Client %s (fd %d) attempting to create room: %s'' @ [LF], who @ [C_str name]) #
      (if MAX_ROOM_NAME_LEN < length name then
         [(LOG_USER_ERROR, ''Client %s (fd %d) provided invalid room name length: %zu'' @ [LF],
            who @ [C_long (int (length name))])]
       else
         (case first_index (\<lambda>i. \<not> r_in_use (room_at s i)) 0 MAX_ROOMS of
            None \<Rightarrow> []
          | Some i \<Rightarrow>
              [(LOG_INFO, ''Room %d: %s - create dby client %s (fd %d)'' @ [LF], [C_int (int i), C_str name] @ who)])))"

definition logs_send_avail_rooms :: "cptr \<Rightarrow> server \<Rightarrow> log_call list" where
  "logs_send_avail_rooms p s =
     (let c = client_at s p; who = [C_str (cname c), C_int (client_fd c)] in
      (LOG_INFO, ''Sending the list of rooms to client %s (fd %d)'' @ [LF], who) #
      (case list_loop 0 list_header False s of
         Inl e \<Rightarrow> []
       | Inr (acc, avail, t) \<Rightarrow>
           (if avail then []
            else [(LOG_INFO, ''Sending empty room list to client %s (fd %d)'' @ [LF], who)]) @
           [(LOG_INFO, ''Sending Room list: %s '' @ [LF] @ ''to client%s (fd %d)'' @ [LF],
              C_str (if avail then acc else acc @ no_rooms_text) # who)]))"

definition logs_leave_room :: "cptr \<Rightarrow> nat \<Rightarrow> server \<Rightarrow> log_call list" where
  "logs_leave_room p i s =
     (let c = client_at s p; who = [C_str (cname c), C_int (client_fd c)];
          name = C_str (room_name (room_at s i)); remaining = num_clients (room_at (remove_member p i s) i) in
      [(LOG_INFO, ''Client %s (fd %d) left room %d (%s)'' @ [LF], who @ [C_int (int i), name]),
       (LOG_INFO, ''Removed client %s (fd %d) from room %d, %d clients remaining'' @ [LF],
          who @ [C_int (int i), C_int remaining])] @
      (if remaining = 0 then
         [(LOG_INFO, ''Room %d (%s) is empty, cleaning up'' @ [LF], [C_int (int i), name])]
       else []))"

definition logs_broadcast :: "string \<Rightarrow> nat \<Rightarrow> server \<Rightarrow> log_call list" where
  "logs_broadcast msg i s =
     [(LOG_INFO, ''Broadcasting message in room %d (%s): %s'' @ [LF],
         [C_int (int i), C_str (room_name (room_at s i)), C_str msg]),
      (LOG_INFO, ''Message broadcasted to all clients in room %d'' @ [LF], [C_int (int i)])]"

definition logs_join_chat_room :: "cptr \<Rightarrow> server \<Rightarrow> log_call list" where
  "logs_join_chat_room p s =
     (let c = client_at s p; who = [C_str (cname c), C_int (client_fd c)];
          ri = parse_room_number (current_msg c); r = room_at s (nat ri) in
      if ri = -1 \<or> int MAX_ROOMS \<le> ri then
        [(LOG_USER_ERROR, ''Client %s (fd %d) provided invalid room number for joining'' @ [LF], who)]
      else
        (LOG_INFO, ''Client %s (fd %d) requested to join room %d'' @ [LF], who @ [C_int ri]) #
        (if \<not> r_in_use r then
           [(LOG_USER_ERROR, ''Client %s (fd %d) attempted to join non-existent room %d'' @ [LF], who @ [C_int ri])]
         else if num_clients r = int MAX_CLIENTS_ROOM then
           [(LOG_USER_ERROR, ''Client %s (fd %d) attempted to join a full room - %d: %s , Number of clients '' @
               ''currently in the room = %d'' @ [LF], who @ [C_int ri, C_str (room_name r), C_int (num_clients r)])]
         else
           (case first_index (\<lambda>k. r_clients r k = None) 0 MAX_CLIENTS_ROOM of
              None \<Rightarrow> []
            | Some k \<Rightarrow>
                [(LOG_INFO, ''Client %s (fd %d) joined room- %d: (%s)'' @ [LF],
                   who @ [C_int ri, C_str (room_name r)])])))"

section \<open>\<open>connection_handler.c\<close>\<close>

definition EPOLLIN :: "32 word" where "EPOLLIN = 0x001"

definition logs_register_with_epoll :: "int \<Rightarrow> int \<Rightarrow> string option \<Rightarrow> log_call list" where
  "logs_register_with_epoll efd target_fd add_failure =
     (if efd < 0 \<or> target_fd < 0 then
        [(LOG_SERVER_ERROR, ''Invalid file descriptor to register_with_epoll- epoll_fd: %d, target_fd: %d'' @ [LF],
           [C_int efd, C_int target_fd])]
      else on_failure add_failure (\<lambda>err.
        (LOG_SERVER_ERROR, ''Failed to register fd with epoll. target_fd: %d, epoll_fd: %d, '' @
           ''Events: 0x%x, Error: %s'' @ [LF],
         [C_int target_fd, C_int efd, C_int (uint (EPOLLIN OR EPOLLRDHUP OR EPOLLERR OR EPOLLHUP)), C_str err])))"

text \<open>\<open>tid\<close> is the \<open>pthread_t\<close> of the worker, a 64-bit integer.\<close>

definition logs_allocate_client_slot :: "int \<Rightarrow> string option \<Rightarrow> nat \<Rightarrow> int \<Rightarrow> server \<Rightarrow> log_call list" where
  "logs_allocate_client_slot tid close_failure w fd s =
     (if fst (allocate_client_slot w fd s) then []
      else
        (LOG_SERVER_ERROR, slot_race_format, [C_long tid, C_int fd]) #
        on_failure close_failure (\<lambda>err.
          (LOG_SERVER_ERROR, race_close_format, [C_long tid, C_int fd, C_str err])))"

definition logs_handle_event :: "nat \<Rightarrow> epoll_event \<Rightarrow> server \<Rightarrow> log_call list" where
  "logs_handle_event w e s =
     (let fd = C_int (ev_fd e) in
      if ev_fd e = notification_fd (worker_at s w) then [(LOG_INFO, ''Received new client notification'' @ [LF], [])]
      else (case find_client_by_fd w (ev_fd e) s of
              None \<Rightarrow> [(LOG_SERVER_ERROR, ''Could not find client struct for fd %d'' @ [LF], [fd])]
            | Some p \<Rightarrow>
                if ev_events e AND (EPOLLRDHUP OR EPOLLERR OR EPOLLHUP) \<noteq> 0 then
                  [(LOG_INFO, ''Client disconnection detected for fd %d'' @ [LF], [fd])]
                else [(LOG_INFO, ''Processing message from client fd %d'' @ [LF], [fd])]))"

text \<open>\<open>process_client_connections\<close>: the start of a worker, and a round in which \<open>epoll_wait\<close> reports nothing.\<close>

definition logs_worker_start :: "int \<Rightarrow> log_call list" where
  "logs_worker_start efd = (if efd = -1 then [] else [(LOG_INFO, ''Created epoll fd %d'' @ [LF], [C_int efd])])"

definition logs_epoll_wait :: "epoll_event list option \<Rightarrow> string \<Rightarrow> log_call list" where
  "logs_epoll_wait wait err =
     (if wait = None \<or> wait = Some [] then [(LOG_SERVER_ERROR, ''epoll_wait failed: %s'' @ [LF], [C_str err])] else [])"

definition logs_register_new_client ::
    "string \<Rightarrow> string option \<Rightarrow> nat \<Rightarrow> bool \<Rightarrow> server \<Rightarrow> log_call list" where
  "logs_register_new_client err close_failure w add_ok s =
     (let value = efd_counter (worker_at s w); notify = C_int (notification_fd (worker_at s w)) in
      if value = 0 then [(LOG_SERVER_ERROR, ''Failed to read from eventfd %d: %s'' @ [LF], [notify, C_str err])]
      else
        (let fd = efd_to_fd value; (registered, t) = register_with_epoll w fd add_ok s in
         (LOG_INFO, ''Received new client fd %llu from eventfd %d'' @ [LF], [C_long (int value), notify]) #
         (if \<not> registered then
            (LOG_SERVER_ERROR, ''Failed to register client fd %d with epoll, closing connection'' @ [LF], [C_int fd]) #
            on_failure close_failure (close_failed fd)
          else if fst (allocate_client_slot w fd t) then
            [(LOG_INFO, ''Successfully setup up new client (fd=%d), sending welcome message'' @ [LF], [C_int fd])]
          else [])))"

section \<open>\<open>client_distributor.c\<close>\<close>

definition logs_distribute_client ::
    "(nat \<Rightarrow> int) \<Rightarrow> string option \<Rightarrow> string option \<Rightarrow> int \<Rightarrow> server \<Rightarrow> log_call list" where
  "logs_distribute_client tids close_failure wait_failure fd s =
     (LOG_INFO, ''Attempting to distribute new client with (fd=%d)'' @ [LF], [C_int fd]) #
     (case fst (find_worker_not_at_capacity s) of
        None \<Rightarrow> on_failure close_failure (close_failed fd)
      | Some w \<Rightarrow>
          (LOG_INFO, assigned_format, [C_int fd, C_int (int w), C_long (tids w)]) #
          on_failure wait_failure (\<lambda>err.
            (LOG_SERVER_ERROR, ''sem_Wait failed in distribute_client: %s'' @ [LF], [C_str err])))"

definition logs_handle_write_error ::
    "nat \<Rightarrow> int \<Rightarrow> string \<Rightarrow> string option \<Rightarrow> string option \<Rightarrow> log_call list" where
  "logs_handle_write_error w fd err post_failure close_failure =
     [(LOG_SERVER_ERROR, ''Failed to notify worker thread %d of new client (fd=%d): %s'' @ [LF],
         [C_int (int w), C_int fd, C_str err])] @
     on_failure post_failure (\<lambda>e. (LOG_SERVER_ERROR, ''sem_wait in distribute_client fialed: '' @ [LF], [C_str e])) @
     on_failure close_failure (close_failed fd)"

section \<open>\<open>main.c\<close>\<close>

definition logs_setup_threads :: "nat \<Rightarrow> log_call list" where
  "logs_setup_threads started =
     (LOG_INFO, ''Initializing %d worker threads'' @ [LF], [C_int (int MAX_THREADS)]) #
     map (\<lambda>i. (LOG_INFO, ''Successfully initialized worker thread %d'' @ [LF], [C_int (int i)])) [0..<started] @
     (if started = MAX_THREADS then [(LOG_INFO, ''Successfully initialized all worker threads'' @ [LF], [])] else [])"

definition logs_initialized :: "log_call list" where
  "logs_initialized =
     [(LOG_INFO, ''Initialized %d rooms and %d worker threads for MAX: %d clients'' @ [LF],
        [C_int (int MAX_ROOMS), C_int (int MAX_THREADS), C_int (int MAX_CLIENTS)])]"

definition logs_set_socket_keep_alive :: "int \<Rightarrow> bool list \<Rightarrow> string \<Rightarrow> log_call list" where
  "logs_set_socket_keep_alive socket setsockopt_ok err =
     (LOG_INFO, ''Configuring keepalive for socket %d'' @ [LF], [C_int socket, C_int 5, C_int 1, C_int 2]) #
     (case find (\<lambda>(ok, name). \<not> ok)
        (zip setsockopt_ok [''SO_KEEPALIVE'', ''TCP_KEEPIDLE'', ''TCP_KEEPINTVL'', ''TCP_KEEPCNT'']) of
        Some (ok, name) \<Rightarrow> [(LOG_SERVER_ERROR, ''Error in setsockopt('' @ name @ ''): %s'' @ [LF], [C_str err])]
      | None \<Rightarrow> [(LOG_INFO, ''Successfully configured keepalive for socket %d'' @ [LF], [C_int socket])])"

text \<open>A round of the accept loop; \<open>again\<close> says that \<open>errno\<close> is \<open>EAGAIN\<close> or \<open>EWOULDBLOCK\<close>.\<close>

definition logs_accept_round :: "int \<Rightarrow> bool \<Rightarrow> string \<Rightarrow> bool list \<Rightarrow> log_call list" where
  "logs_accept_round fd again err setsockopt_ok =
     (if fd = -1 then
        (if again then [] else [(LOG_SERVER_ERROR, ''Accept failed: %s'' @ [LF], [C_str err])])
      else
        (LOG_INFO, ''New client connection accepted: fd=%d'' @ [LF], [C_int fd]) #
        (if set_socket_keep_alive setsockopt_ok = -1 then []
         else [(LOG_INFO, ''Distributing client fd=%d to worker threads'' @ [LF], [C_int fd])]))"

section \<open>All calls\<close>

inductive server_logs :: "log_call \<Rightarrow> bool" where
  log_send: "call \<in> set (logs_send_message fd cmd_type message err s) \<Longrightarrow> server_logs call"
| log_checks: "call \<in> set (logs_checks c) \<Longrightarrow> server_logs call"
| log_awaiting: "call \<in> set (logs_handle_awaiting_username c) \<Longrightarrow> server_logs call"
| log_lobby: "call \<in> set (logs_handle_in_chat_lobby c) \<Longrightarrow> server_logs call"
| log_in_room: "call \<in> set (logs_handle_in_chat_room p s) \<Longrightarrow> server_logs call"
| log_cleanup: "call \<in> set (logs_cleanup_client p del_failure close_failure s) \<Longrightarrow> server_logs call"
| log_read: "call \<in> set (logs_read_and_process p r s) \<Longrightarrow> server_logs call"
| log_create: "call \<in> set (logs_create_chat_room p s) \<Longrightarrow> server_logs call"
| log_list: "call \<in> set (logs_send_avail_rooms p s) \<Longrightarrow> server_logs call"
| log_leave: "call \<in> set (logs_leave_room p i s) \<Longrightarrow> server_logs call"
| log_broadcast: "call \<in> set (logs_broadcast message i s) \<Longrightarrow> server_logs call"
| log_join: "call \<in> set (logs_join_chat_room p s) \<Longrightarrow> server_logs call"
| log_epoll: "call \<in> set (logs_register_with_epoll efd fd add_failure) \<Longrightarrow> server_logs call"
| log_slot: "call \<in> set (logs_allocate_client_slot tid close_failure w fd s) \<Longrightarrow> server_logs call"
| log_event: "call \<in> set (logs_handle_event w e s) \<Longrightarrow> server_logs call"
| log_start: "call \<in> set (logs_worker_start efd) \<Longrightarrow> server_logs call"
| log_wait: "call \<in> set (logs_epoll_wait wait err) \<Longrightarrow> server_logs call"
| log_new_client: "call \<in> set (logs_register_new_client err close_failure w add_ok s) \<Longrightarrow> server_logs call"
| log_distribute: "call \<in> set (logs_distribute_client tids close_failure wait_failure fd s) \<Longrightarrow> server_logs call"
| log_write_error: "call \<in> set (logs_handle_write_error w fd err post_failure close_failure) \<Longrightarrow> server_logs call"
| log_setup: "call \<in> set (logs_setup_threads started) \<Longrightarrow> server_logs call"
| log_initialized: "call \<in> set logs_initialized \<Longrightarrow> server_logs call"
| log_keep_alive: "call \<in> set (logs_set_socket_keep_alive fd oks err) \<Longrightarrow> server_logs call"
| log_accept: "call \<in> set (logs_accept_round fd again err oks) \<Longrightarrow> server_logs call"

definition wrong_formats :: "string list" where
  "wrong_formats = [content_long_format, room_command_format, slot_race_format, race_close_format, assigned_format]"

text \<open>A call is as expected when it has a text, or is one of the wrong ones and has none.\<close>

definition expected :: "log_call \<Rightarrow> bool" where
  "expected call \<longleftrightarrow> (defined_call call \<longleftrightarrow> fst (snd call) \<notin> set wrong_formats)"

lemmas wrong_defs = wrong_formats_def content_long_format_def room_command_format_def slot_race_format_def
  race_close_format_def assigned_format_def

lemmas check_call = expected_def wrong_defs ansi_defs

lemma expected_failure: "(\<And>err. expected (f err)) \<Longrightarrow> list_all expected (on_failure e f)"
  by (cases e) (simp_all add: on_failure_def)

lemma expected_close: "expected (close_failed fd err)"
  by (simp add: close_failed_def check_call)


lemma expected_send_loop: "list_all expected (logs_send_loop fd message err rs sent len)"
  by (induction fd message err rs sent len rule: logs_send_loop.induct)
    (simp_all add: Let_def check_call split: send_reply.split)

lemma expected_send: "list_all expected (logs_send_message fd cmd_type message err s)"
  by (simp add: logs_send_message_def expected_send_loop)

lemma expected_validate: "list_all expected (logs_validate_msg_format c)"
  by (simp add: logs_validate_msg_format_def Let_def check_call)

lemma expected_valid_for_state: "list_all expected (logs_command_valid_for_state c)"
  by (simp add: logs_command_valid_for_state_def Let_def check_call)

lemma expected_route: "list_all expected (logs_route_client_command c)"
  by (simp add: logs_route_client_command_def Let_def check_call)

lemma expected_handlers:
  "list_all expected (logs_handle_awaiting_username c)" "list_all expected (logs_handle_in_chat_lobby c)"
  "list_all expected (logs_handle_in_chat_room p s)"
  by (simp_all add: logs_handle_awaiting_username_def logs_handle_in_chat_lobby_def
      logs_handle_in_chat_room_def Let_def check_call split: sum.split)

lemma expected_cleanup: "list_all expected (logs_cleanup_client p del_failure close_failure s)"
proof -
  have "list_all expected (on_failure del_failure (\<lambda>err.
      (LOG_SERVER_ERROR, ''Failed to remove client fd %d from epoll: %s'' @ [LF], [C_int fd, C_str err])))" for fd
    by (rule expected_failure) (simp add: check_call)
  moreover have "list_all expected (on_failure close_failure (close_failed fd))" for fd
    by (rule expected_failure) (rule expected_close)
  ultimately show ?thesis by (simp add: logs_cleanup_client_def Let_def) (simp add: check_call)
qed

lemma expected_process: "list_all expected (logs_process_messages p temp s)"
proof (induction p temp s rule: logs_process_messages.induct)
  case (1 p temp s)
  show ?case
    by (subst logs_process_messages.simps)
      (auto simp: check_call 1 split: option.split sum.split)
qed

lemma expected_read: "list_all expected (logs_read_and_process p r s)"
  using expected_process
  by (simp add: logs_read_and_process_def Let_def check_call split: recv_result.split)

lemma expected_rooms:
  "list_all expected (logs_create_chat_room p s)" "list_all expected (logs_send_avail_rooms p s)"
  "list_all expected (logs_leave_room p i s)" "list_all expected (logs_broadcast message i s)"
  "list_all expected (logs_join_chat_room p s)"
  by (simp_all add: logs_create_chat_room_def logs_send_avail_rooms_def logs_leave_room_def logs_broadcast_def
      logs_join_chat_room_def Let_def check_call split: option.split sum.split)

lemma expected_worker:
  "list_all expected (logs_handle_event w e s)" "list_all expected (logs_worker_start efd)"
  "list_all expected (logs_epoll_wait wait err)"
  by (simp_all add: logs_handle_event_def logs_worker_start_def logs_epoll_wait_def Let_def check_call
      split: option.split)

lemma expected_epoll: "list_all expected (logs_register_with_epoll efd fd add_failure)"
  by (auto simp: logs_register_with_epoll_def check_call intro!: expected_failure)

lemma expected_slot: "list_all expected (logs_allocate_client_slot tid close_failure w fd s)"
  by (auto simp: logs_allocate_client_slot_def check_call intro!: expected_failure)

lemma expected_new_client: "list_all expected (logs_register_new_client err close_failure w add_ok s)"
  using expected_failure [OF expected_close]
  by (simp add: logs_register_new_client_def Let_def check_call split: prod.split)

lemma expected_distribute: "list_all expected (logs_distribute_client tids close_failure wait_failure fd s)"
proof -
  have "list_all expected (on_failure wait_failure (\<lambda>err.
      (LOG_SERVER_ERROR, ''sem_Wait failed in distribute_client: %s'' @ [LF], [C_str err])))"
    by (rule expected_failure) (simp add: check_call)
  with expected_failure [OF expected_close] show ?thesis
    by (simp add: logs_distribute_client_def split: option.split) (simp add: check_call)
qed

lemma expected_write_error: "list_all expected (logs_handle_write_error w fd err post_failure close_failure)"
proof -
  have "list_all expected (on_failure post_failure (\<lambda>e.
      (LOG_SERVER_ERROR, ''sem_wait in distribute_client fialed: '' @ [LF], [C_str e])))"
    by (rule expected_failure) (simp add: check_call)
  with expected_failure [OF expected_close] show ?thesis
    by (simp add: logs_handle_write_error_def) (simp add: check_call)
qed

lemma expected_keep_alive: "list_all expected (logs_set_socket_keep_alive fd oks err)"
proof -
  have "expected (LOG_SERVER_ERROR, ''Error in setsockopt('' @ name @ ''): %s'' @ [LF], [C_str err])"
    if "name \<in> {''SO_KEEPALIVE'', ''TCP_KEEPIDLE'', ''TCP_KEEPINTVL'', ''TCP_KEEPCNT''}" for name
    using that by (auto simp: check_call)
  moreover have "name \<in> {''SO_KEEPALIVE'', ''TCP_KEEPIDLE'', ''TCP_KEEPINTVL'', ''TCP_KEEPCNT''}"
    if "find (\<lambda>(ok, name). \<not> ok)
      (zip oks [''SO_KEEPALIVE'', ''TCP_KEEPIDLE'', ''TCP_KEEPINTVL'', ''TCP_KEEPCNT'']) = Some (ok, name)" for ok name
  proof -
    from that have "(ok, name) \<in> set (zip oks [''SO_KEEPALIVE'', ''TCP_KEEPIDLE'', ''TCP_KEEPINTVL'', ''TCP_KEEPCNT''])"
      by (auto simp: find_Some_iff in_set_conv_nth)
    then show ?thesis by (auto dest: set_zip_rightD)
  qed
  moreover have "expected (LOG_INFO, ''Configuring keepalive for socket %d'' @ [LF], [C_int fd, C_int 5, C_int 1, C_int 2])"
    "expected (LOG_INFO, ''Successfully configured keepalive for socket %d'' @ [LF], [C_int fd])"
    by (simp_all add: check_call)
  ultimately show ?thesis
    unfolding logs_set_socket_keep_alive_def by (force split: option.split)
qed

lemma expected_main:
  "list_all expected (logs_setup_threads started)" "list_all expected logs_initialized"
  "list_all expected (logs_accept_round fd again err oks)"
proof -
  have "expected (LOG_INFO, ''Successfully initialized worker thread %d'' @ [LF], [C_int (int i)])" for i
    by (simp add: check_call)
  then have "list_all expected (map (\<lambda>i. (LOG_INFO, ''Successfully initialized worker thread %d'' @ [LF],
      [C_int (int i)])) is)" for "is"
    by (induction "is") simp_all
  then show "list_all expected (logs_setup_threads started)"
    by (simp add: logs_setup_threads_def) (simp add: check_call)
qed (simp_all add: logs_initialized_def logs_accept_round_def check_call)

lemma expected_checks: "list_all expected (logs_checks c)"
  using expected_validate expected_valid_for_state expected_route by (simp add: logs_checks_def)

lemmas expected_all = expected_send expected_checks expected_handlers expected_cleanup expected_read
  expected_rooms expected_worker expected_epoll expected_slot expected_new_client expected_distribute
  expected_write_error expected_keep_alive expected_main

lemma expectedD: "list_all expected calls \<Longrightarrow> call \<in> set calls \<Longrightarrow> expected call"
  by (simp add: list_all_iff)

lemma server_logs_expected: "server_logs call \<Longrightarrow> expected call"
  by (induction rule: server_logs.induct; rule expectedD [rotated], assumption, rule expected_all)

section \<open>The checks of a message\<close>

definition breaks :: "log_call list \<Rightarrow> bool" where
  "breaks calls \<longleftrightarrow> list_ex (\<lambda>call. fst (snd call) \<in> set wrong_formats) calls"

lemma breaks_simps [simp]:
  "\<not> breaks []" "breaks (as @ bs) \<longleftrightarrow> breaks as \<or> breaks bs"
  "breaks (call # calls) \<longleftrightarrow> fst (snd call) \<in> set wrong_formats \<or> breaks calls"
  by (simp_all add: breaks_def)

lemma breaks_no_text:
  assumes "list_all expected calls"
  shows "breaks calls \<longleftrightarrow> (\<exists>call. call \<in> set calls \<and> log_text call = None)"
proof -
  have "fst (snd call) \<in> set wrong_formats \<longleftrightarrow> log_text call = None" if "call \<in> set calls" for call
    using expectedD [OF assms that] log_text_defined [of call] by (auto simp: expected_def)
  then show ?thesis unfolding breaks_def list_ex_iff Bex_def by blast
qed

lemma breaks_validate:
  "breaks (logs_validate_msg_format c) \<longleftrightarrow>
    format_error (current_msg c) = Some (ERR_PROTOCOL_INVALID_FORMAT, too_long_text)"
proof -
  have "too_short_text \<noteq> too_long_text" "no_space_text \<noteq> too_long_text"
    "bad_command_text \<noteq> too_long_text" "empty_text \<noteq> too_long_text"
    by (simp_all add: too_long_text_def too_short_text_def no_space_text_def bad_command_text_def empty_text_def)
  then show ?thesis
    by (simp add: logs_validate_msg_format_def format_error_def Let_def wrong_defs)
qed

lemma breaks_valid_for_state:
  "breaks (logs_command_valid_for_state c) \<longleftrightarrow> cstate c = IN_CHAT_ROOM \<and>
      char_at (current_msg c) 0 \<notin> {CMD_EXIT, CMD_LEAVE_ROOM, CMD_ROOM_MESSAGE_SEND}"
  by (simp add: logs_command_valid_for_state_def Let_def wrong_defs) blast

lemma breaks_route: "\<not> breaks (logs_route_client_command c)"
  by (simp add: logs_route_client_command_def Let_def wrong_defs)

lemma breaks_checks:
  "breaks (logs_checks c) \<longleftrightarrow>
    format_error (current_msg c) = Some (ERR_PROTOCOL_INVALID_FORMAT, too_long_text) \<or>
    format_error (current_msg c) = None \<and> cstate c = IN_CHAT_ROOM \<and>
      char_at (current_msg c) 0 \<notin> {CMD_EXIT, CMD_LEAVE_ROOM, CMD_ROOM_MESSAGE_SEND}"
  by (cases "format_error (current_msg c)")
    (auto simp: logs_checks_def breaks_validate breaks_valid_for_state breaks_route)

end
