(* ===== verification/Log_Properties.thy ===== *)
theory Log_Properties
  imports Log_Server Samples Client_Requests
begin

text \<open>
  The properties of the log calls, in a server built with \<open>LOG\<close>: which of them pass \<open>vprintf\<close> arguments that its
  format does not ask for, and which messages of a client lead to one.
\<close>

section \<open>Calls that occur\<close>

lemma content_long_occurs:
  "(LOG_USER_ERROR, content_long_format, [C_str (''%d'' @ [LF] @ ''and:%s'' @ [LF]), C_int 20, C_long 129,
      C_str (replicate 129 CHR ''x'')]) \<in>
    set (logs_checks (guest 20 ''ann'' (CMD_ROOM_CREATE_REQUEST # SPACE # replicate 129 CHR ''x'')))"
  by (simp add: logs_checks_def logs_validate_msg_format_def Let_def limits)

lemma room_command_occurs:
  "(LOG_USER_ERROR, room_command_format, [C_int 3, C_str ''ann'']) \<in>
    set (logs_checks ((guest 20 ''ann'' (CMD_ROOM_CREATE_REQUEST # '' tea''))\<lparr>cstate := IN_CHAT_ROOM\<rparr>))"
  by (simp add: logs_checks_def logs_command_valid_for_state_def format_error_def Let_def limits char_at_def
      char_val_def command_codes)

definition full_worker :: server where
  "full_worker = upd_worker 0 (\<lambda>t. t\<lparr>clients := (\<lambda>_. guest 20 ''ann'' [])\<rparr>) (zero_server [])"

lemma race_occurs:
  "(LOG_SERVER_ERROR, slot_race_format, [C_long 7, C_int 30]) \<in>
    set (logs_allocate_client_slot 7 (Some ''Bad file descriptor'') 0 30 full_worker)"
  "(LOG_SERVER_ERROR, race_close_format, [C_long 7, C_int 30, C_str ''Bad file descriptor'']) \<in>
    set (logs_allocate_client_slot 7 (Some ''Bad file descriptor'') 0 30 full_worker)"
proof -
  have "c_in_use (client_at full_worker (Cptr 0 i))" for i
    by (simp add: full_worker_def client_at_upd_worker)
  then have "first_index (\<lambda>i. \<not> c_in_use (client_at full_worker (Cptr 0 i))) 0 MAX_CLIENTS_PER_THREAD = None"
    by (simp add: first_index_None)
  then have "\<not> fst (allocate_client_slot 0 30 full_worker)" by (simp add: allocate_client_slot_def)
  then show "(LOG_SERVER_ERROR, slot_race_format, [C_long 7, C_int 30]) \<in>
      set (logs_allocate_client_slot 7 (Some ''Bad file descriptor'') 0 30 full_worker)"
    "(LOG_SERVER_ERROR, race_close_format, [C_long 7, C_int 30, C_str ''Bad file descriptor'']) \<in>
      set (logs_allocate_client_slot 7 (Some ''Bad file descriptor'') 0 30 full_worker)"
    by (simp_all add: logs_allocate_client_slot_def on_failure_def)
qed

lemma assigned_occurs:
  "(LOG_INFO, assigned_format, [C_int 20, C_int 0, C_long 7]) \<in>
    set (logs_distribute_client (\<lambda>_. 7) None None 20 (zero_server []))"
proof -
  have "fst (find_worker_not_at_capacity (zero_server [])) = Some 0"
    unfolding find_worker_not_at_capacity_def by (subst find_worker_loop.simps) (simp add: limits)
  then show ?thesis by (simp add: logs_distribute_client_def)
qed

lemma wrong_formats_occur: "fmt \<in> set wrong_formats \<Longrightarrow> \<exists>level args. server_logs (level, fmt, args)"
  using content_long_occurs [THEN log_checks] room_command_occurs [THEN log_checks] race_occurs [THEN log_slot]
    assigned_occurs [THEN log_distribute]
  by (auto simp: wrong_formats_def)

section \<open>The calls\<close>

text \<open>
  C17: Of all the log calls of the server, those pass to \<open>vprintf\<close> what their format asks for, and so have
  a text, whose format is none of five; each of the five is used, with arguments of other types or too few.
\<close>

theorem log_calls_have_a_text:
  assumes "server_logs (level, fmt, args)"
  shows "((\<exists>str. log_text (level, fmt, args) = Some str) \<longleftrightarrow> fmt \<notin> set wrong_formats) \<and>
    set wrong_formats \<subseteq> {f. \<exists>l xs. server_logs (l, f, xs)}"
  using server_logs_expected [OF assms] log_text_defined [of "(level, fmt, args)"] wrong_formats_occur
  by (auto simp: expected_def)

theorem log_calls_have_a_text_witness:
  "log_text (LOG_USER_ERROR, room_command_format, [C_int 3, C_str ''ann'']) = None"
  using log_calls_have_a_text [OF log_checks [OF room_command_occurs]]
  by (auto simp: wrong_formats_def)

text \<open>
  C22: With \<open>LOG\<close>, checking a message of a client makes a log call without a text, whose \<open>%s\<close> or \<open>%d\<close> reads something that
  was not passed, exactly when the content is too long, or when the client is in a room, the
  message has the format of the protocol, and its command is none of those allowed in a room.
\<close>

theorem messages_that_break_the_log:
  "(\<exists>call. call \<in> set (logs_checks c) \<and> log_text call = None) \<longleftrightarrow>
    format_error (current_msg c) = Some (ERR_PROTOCOL_INVALID_FORMAT, too_long_text) \<or>
    format_error (current_msg c) = None \<and> cstate c = IN_CHAT_ROOM \<and>
      char_at (current_msg c) 0 \<notin> {CMD_EXIT, CMD_LEAVE_ROOM, CMD_ROOM_MESSAGE_SEND}"
  unfolding breaks_no_text [OF expected_checks, symmetric] by (rule breaks_checks)

text \<open>The chat client of the repository sends no such message: what it sends in step with the server has the
  format, and its command is allowed.\<close>

lemma requests_keep_the_log:
  assumes "good_request code content a" and "in_step a (cstate c)" and "current_msg c = code # SPACE # content"
    and call: "call \<in> set (logs_checks c)"
  shows "\<exists>str. log_text call = Some str"
proof -
  from assms have "format_error (current_msg c) = None" "state_error (cstate c) code = None"
    by (simp_all add: good_request_def)
  then have "\<not> breaks (logs_checks c)"
    using assms(3) by (auto simp: breaks_checks state_error_def char_at_def split: if_splits)
  then have "log_text call \<noteq> None" using call unfolding breaks_no_text [OF expected_checks] by metis
  then show ?thesis by (simp only: not_None_eq)
qed

end
