(* ===== verification/Spec2Isabelle.thy ===== *)
theory Spec2Isabelle
  imports History_Properties System_Properties Room_Properties Message_Properties Client_Properties
    Process_Properties Log_Properties
begin

text \<open>
  A verification library for the chat application: a multi-threaded chat server on epoll and a
  terminal chat client, both in C, that speak the line protocol of \<open>protocol.h\<close>.

  \<^bold>\<open>The program and its model.\<close> The server's main thread accepts connections and hands each to one of
  four worker threads (\<open>main.c\<close>, \<open>client_distributor.c\<close>). A worker waits in epoll, takes new clients
  into the slots of its array, and reads its clients' bytes (\<open>connection_handler.c\<close>); the bytes
  become messages, which are checked and dispatched on the state of the client
  (\<open>client_state_manager.c\<close>) and work on the global table of rooms (\<open>room_manager.c\<close>). The client has
  a thread that turns typed lines into messages and one that shows what arrives (\<open>client/main.c\<close>).

  \<^bold>\<open>Data, one theory per part.\<close>

  \<^item> \<open>Prelude\<close>: results with faults, C strings and the library functions the sources call, loops over
    arrays, the locales \<open>slot_table\<close> (an array with free and used places) and \<open>effect_preorder\<close> (what a
    relation between states needs in order to be carried through sequences of operations).
  \<^item> \<open>Protocol\<close> (the server's \<open>protocol.h\<close>): codes, limits, the frame of a message. \<open>Client_Protocol\<close>: the
    client's own copy of that header, and that the two agree.
  \<^item> \<open>Server_State\<close> (\<open>server_config.h\<close>): a \<open>Client *\<close> is a \<open>cptr\<close>, the worker and the slot that hold the
    struct. The record \<open>server\<close> holds the rooms, the workers, the static \<open>worker_index\<close>, the kernel's
    answers to come (\<open>replies\<close>), and the \<open>trace\<close> of sends, closes, epoll changes, locks and semaphores.

  \<^bold>\<open>The server's operations.\<close>

  \<^item> \<open>Transport\<close>: \<open>send_message_to_client\<close>, and the relations \<open>only_sends\<close> and \<open>same_structs\<close>.
    \<open>Send_Stream\<close>: its loop against an endless stream of answers, and two threads on one socket.
  \<^item> \<open>Room_Manager\<close>: the functions of \<open>room_manager.c\<close>, and what each does to the structs. Around it
    \<open>Room_Invariant\<close> (well-formed rooms, the link between rooms and clients), \<open>Locks\<close> and
    \<open>Room_Locks\<close> (the lock discipline), \<open>Room_Listing\<close> (the room list and its buffers), \<open>Room_Replies\<close>
    (the frames sent on each branch).
  \<^item> \<open>Client_State\<close>: the functions of \<open>client_state_manager.c\<close>. Around it \<open>Client_Facts\<close> (what
    handling and reading keep, through the locale \<open>message_contract\<close>), \<open>Framing\<close> (chunks and
    terminators), \<open>Ghost_Member\<close> (messages after an EXIT), \<open>Faults\<close> (which faults can happen), \<open>Room_View\<close> (what
    a client learns from the replies).
  \<^item> \<open>Connection_Handler\<close> (\<open>connection_handler.c\<close>) and \<open>Client_Distributor\<close> (\<open>client_distributor.c\<close>): the
    threads. \<open>Sockets\<close> and \<open>Server_Boot\<close>: \<open>setup_server\<close>, \<open>connect_to_server\<close> and the start of \<open>main\<close>.
  \<^item> \<open>Logger\<close> (\<open>logger.c\<close>, \<open>logger.h\<close>): the lines, and the threads that print them under the mutex.
    \<open>Log_Format\<close>: what \<open>vprintf\<close> makes of a format and its arguments, None where C leaves it undefined.
    \<open>Log_Calls\<close> and \<open>Log_Server\<close>: the log calls of every function (\<open>logs_\<close> and its name), and the five formats
    that are given wrong arguments. They matter only in a server built with \<open>LOG\<close>.

  \<^bold>\<open>What the rooms promise.\<close> \<open>Room_Spec\<close> is the abstract server: a \<open>hall\<close> of rooms with a name and a set of
  members, and the place of each client. \<open>spec_message\<close> is what a message does to it, \<open>told\<close> in
  \<open>Hall_Replies\<close> is the frames each client is sent. \<open>hall_of\<close> maps a state of the model to its hall, and the
  handlers refine both.

  \<^bold>\<open>All threads together\<close>, at two grains.

  \<^item> Whole operations: \<open>Client_Accounts\<close>, \<open>Server_System\<close>, \<open>System_Invariant\<close>, \<open>System_Safety\<close>. In \<open>sys_step\<close> the
    threads take turns at one round of the accept loop, one hand-over, one epoll event.
  \<^item> Critical sections: in \<open>fine_step\<close> a step of a worker is code that only it can see, and at most one
    critical section. \<open>Fine_Steps\<close> cuts the handlers at their locks (a point of a worker is a \<open>pc\<close>),
    \<open>Fine_Run\<close> shows that the pieces make the handlers again, \<open>Fine_Moves\<close> says what a step does to the structs,
    \<open>Fine_System\<close> is the step relation, \<open>Fine_Invariant\<close> and \<open>Fine_Reachable\<close> the invariant: settling a
    state (paying for what is under way, \<open>settle\<close>) gives one in which \<open>sys_inv\<close> holds. \<open>Fine_Simulation\<close>: every run of
    \<open>sys_step\<close> is one of \<open>fine_step\<close>. \<open>Fine_Sections\<close>: one lock at a time. \<open>Fine_Progress\<close>:
    termination, faults. \<open>Field_Types\<close>: the types of all fields. \<open>Fine_View\<close>: what a client knows of its room.
  \<^item> \<open>Fine_Hall\<close>: each step is at most one \<open>act\<close> on the hall; the acts in their order (\<open>history\<close>) are legal, and
    folding them over the empty hall gives the hall of the state (\<open>chat_at\<close>). \<open>Fine_Notices\<close>: what clients hear of
    each other is what the acts call for.
  \<^item> Threads and what they read: \<open>Thread_Steps\<close> says of each step which thread makes it, and records the bytes that are
    read; nothing is assumed of them. \<open>threads_reach\<close> with \<open>nothing_after_exit\<close> is \<open>fine_reachable\<close>.
  \<^item> Locks that block: in \<open>Blocking\<close> a configuration has, besides the state, what each thread has yet to play of the
    actions of its step, and who holds each lock. A step that begins with a lock takes it when it is free; its
    other actions are played one by one, the unlock among them, and a send to a socket of the set \<open>stuck\<close> never.
    \<open>waits_for\<close> is the relation between a thread and the one it waits for; every chain of it leads to a thread that
    can go on. \<open>Fairness\<close>: infinite runs of these configurations, fair ones, and that a wait in \<open>sem_wait\<close>
    ends in them; \<open>Kernel_Objects\<close>: what the steps do to semaphores and epoll descriptors; \<open>Fair_Samples\<close>: such
    a run, from the choice of a worker to the greeting of the client.

  \<^bold>\<open>The client\<close> (\<open>client/main.c\<close>, \<open>client/user_interface.c\<close>).

  \<^item> \<open>Terminal_Interface\<close>: the sizes of the windows. \<open>Chat_Client\<close>: the two threads' functions;
    \<open>Client_Threads\<close>: how they run together and end (\<open>client_step\<close>).
  \<^item> \<open>Client_Messages\<close>: what the client formats, at the server's end. \<open>Client_Requests\<close>: what the user asks for by
    a line (\<open>requested\<close>), and what comes of it on the server. \<open>Chat_Display\<close>: a chat line on the screens.

  The properties stand in \<open>History_Properties\<close>, \<open>Thread_Properties\<close>, \<open>System_Properties\<close>, \<open>Room_Properties\<close>,
  \<open>Message_Properties\<close>, \<open>Client_Properties\<close>, \<open>Process_Properties\<close> and \<open>Log_Properties\<close>, each with a theorem that applies it to a
  concrete state, most of them of \<open>Samples\<close>.

  \<^bold>\<open>Faults.\<close> A write past a buffer or an index outside an array ends an operation with a value of
  \<open>fault\<close>; so a theorem that an operation returns says that it stays inside its buffers. The
  theorems that name a fault (\<open>long_room_names_overflow\<close>, \<open>message_buffer_bound\<close>) and the lemma
  \<open>input_line_overflow\<close> show where the program does not.

  \<^bold>\<open>Interleaving.\<close> The grain of \<open>fine_step\<close> is a critical section: two sections under one lock exclude each other, so
  their order is the order of the steps; \<open>Blocking\<close> has the locks themselves, and only leaves out runs
  (\<open>runs_threads\<close>). What a step does to the structs happens there when its first lock is taken; the one step with a lock later
  in it is \<open>hand_over\<close> after a failed \<open>write\<close>, which decrements a count. \<open>one_lock_at_a_time\<close> shows that no thread takes a lock while it holds
  one. Two things of the main thread and the workers are one step each although no lock covers the whole: \<open>hand_over\<close>
  (after \<open>sem_wait\<close>), which only the main thread does, and the first part of
  \<open>register_new_client\<close> (the eventfd, epoll, the slot), which works on what belongs to one worker. A
  \<open>send\<close> is one step with its message; \<open>frames_can_mix\<close> shows what can happen when it is not.
  The search of \<open>create_chat_room\<close> for a free room looks at one room per step, and so does the room list; so a
  client can be told that all rooms are taken, or be sent a list, that was true of no single moment.

  \<^bold>\<open>Assumptions.\<close> \<open>accept4\<close> returns a descriptor that nobody holds; epoll reports the eventfd only
  when its counter is positive; \<open>sem_wait\<close> is not interrupted. One assumption is about the clients: that no
  message follows an EXIT in the same chunk (\<open>exit_last\<close>); \<open>exit_is_not_the_end\<close> shows what happens otherwise.
  The properties on \<open>threads_reach\<close> and \<open>runs_reach\<close> have it as a hypothesis (\<open>nothing_after_exit\<close>); in
  \<open>fine_reachable\<close>, \<open>reachable\<close> and \<open>history\<close> it is part of the steps (\<open>event_ok\<close>), and in \<open>run_of_threads\<close>
  of the run. \<open>no_deadlock\<close> names what it leaves open: a send that answers \<open>EAGAIN\<close> for ever, an overrun, a worker without
  its epoll instance. \<open>wait_for_worker_ends\<close> assumes of the scheduler, the mutexes and epoll what \<open>fair_run\<close> says.

  \<^bold>\<open>Termination and fuel.\<close> There is no fuel: loops over arrays recurse on the rest of the array, the loop over a
  chunk on the rest of the chunk, and the send loop on the script of the kernel's answers, after which the
  kernel takes everything it is given. The loop against an endless stream of answers is the partial
  function \<open>send_stream\<close>; \<open>send_loop_ends\<close> says when it ends and that it then is the scripted one, and
  that it spins when the socket answers \<open>EAGAIN\<close> for ever. The work of an event is at most 7921
  steps (a chunk has at most 132 bytes, a message costs at most 60 steps), that of all threads together at
  most 31690.

  \<^bold>\<open>Not modelled.\<close> What ncurses draws, beyond the size of the windows and the text that is put in them; the
  effect of a log call on the rest of a run, since the operations and their trace are those of a server built
  without \<open>LOG\<close>; the kernel, epoll and the terminal, whose answers are arguments; the Java programs under
  \<open>server/test\<close>, which test a running server; \<open>CMD_ROOM_NOTIFY_JOINED\<close>, which no code uses; and the
  lines of \<open>main\<close> after the endless accept loop, which are never reached.
\<close>

end
